(* ===== verification/Prelude.thy ===== *)
theory Prelude
  imports Main "HOL-Library.Sublist" "HOL-Library.List_Lexorder" "HOL-Library.Char_ord"
    "HOL-Library.Multiset"
begin

text \<open>
  What the components share: the collections of rewrite rules the proofs are driven by,
  and generic lemmas about lists, folds and options that no component owns.

  Go strings and byte slices are both modelled by \<^typ>\<open>string\<close>: an Isabelle character is
  an 8-bit value, so a \<^typ>\<open>string\<close> is exactly a sequence of bytes. The order that
  \<open>List_Lexorder\<close> and \<open>Char_ord\<close> give on it is the bytewise order of Go's \<open><\<close>.
\<close>

named_theorems go_std \<open>computation rules of the modelled standard library functions\<close>
named_theorems sentinels \<open>which sentinel errors an error value wraps\<close>
named_theorems identity_simps \<open>the identity fields a check stamps on its result\<close>

subsection \<open>The first element a predicate selects, and the last\<close>

text \<open>
  Several loops of the program keep overwriting a variable while they walk a slice; the
  value that survives is the one of the last matching element.
\<close>

definition last_match :: "('a \<Rightarrow> bool) \<Rightarrow> ('a \<Rightarrow> 'b) \<Rightarrow> 'a list \<Rightarrow> 'b option" where
  "last_match p f xs = (case rev (filter p xs) of [] \<Rightarrow> None | x # _ \<Rightarrow> Some (f x))"

lemma last_match_Nil [simp]: "last_match p f [] = None"
  by (simp add: last_match_def)

lemma last_match_snoc [simp]:
  "last_match p f (xs @ [x]) = (if p x then Some (f x) else last_match p f xs)"
  by (simp add: last_match_def)

lemma last_match_append:
  "last_match p f (xs @ ys) =
     (case last_match p f ys of None \<Rightarrow> last_match p f xs | Some v \<Rightarrow> Some v)"
  by (induction ys rule: rev_induct) (auto simp flip: append_assoc split: option.splits)

lemma last_match_Cons:
  "last_match p f (x # xs) =
     (case last_match p f xs of None \<Rightarrow> if p x then Some (f x) else None | Some v \<Rightarrow> Some v)"
  using last_match_append [of p f "[x]" xs] last_match_snoc [of p f "[]" x]
  by (simp split: option.split)

lemma last_match_None: "last_match p f xs = None \<longleftrightarrow> (\<forall>x\<in>set xs. \<not> p x)"
  by (induction xs rule: rev_induct) auto

lemma last_match_Some:
  "last_match p f xs = Some v \<longleftrightarrow>
     (\<exists>us x vs. xs = us @ x # vs \<and> p x \<and> v = f x \<and> (\<forall>y\<in>set vs. \<not> p y))"
proof -
  have "last_match p f xs = Some v \<longleftrightarrow> (\<exists>x ws. filter p (rev xs) = x # ws \<and> v = f x)"
    by (auto simp: last_match_def rev_filter split: list.splits)
  also have "\<dots> \<longleftrightarrow>
      (\<exists>x us vs. rev xs = us @ x # vs \<and> (\<forall>u\<in>set us. \<not> p u) \<and> p x \<and> v = f x)"
    by (auto simp: filter_eq_Cons_iff)
  also have "\<dots> \<longleftrightarrow>
      (\<exists>us x vs. xs = us @ x # vs \<and> p x \<and> v = f x \<and> (\<forall>y\<in>set vs. \<not> p y))"
    (is "?L \<longleftrightarrow> ?R")
  proof
    assume ?L
    then obtain x us vs where "rev xs = us @ x # vs" "\<forall>u\<in>set us. \<not> p u" "p x" "v = f x"
      by blast
    then have "xs = rev vs @ x # rev us"
      by (metis append.assoc append_Cons append_Nil rev.simps(2) rev_append rev_swap)
    with \<open>\<forall>u\<in>set us. \<not> p u\<close> \<open>p x\<close> \<open>v = f x\<close> show ?R
      by (metis set_rev)
  next
    assume ?R
    then obtain us x vs where "xs = us @ x # vs" "p x" "v = f x" "\<forall>y\<in>set vs. \<not> p y"
      by blast
    moreover from this have "rev xs = rev vs @ x # rev us" by simp
    ultimately show ?L
      by (metis set_rev)
  qed
  finally show ?thesis .
qed

subsection \<open>Lists\<close>

lemma filter_eq_Nil_iff_all: "filter p xs = [] \<longleftrightarrow> (\<forall>x\<in>set xs. \<not> p x)"
  by (induction xs) auto

lemma set_map_filter_iff: "y \<in> set (List.map_filter f xs) \<longleftrightarrow> (\<exists>x\<in>set xs. f x = Some y)"
  by (induction xs) (auto simp: map_filter_simps split: option.splits)

lemma map_filter_Nil_iff: "List.map_filter f xs = [] \<longleftrightarrow> (\<forall>x\<in>set xs. f x = None)"
  by (induction xs) (auto simp: map_filter_simps split: option.splits)

lemma set_concat_map: "x \<in> set (concat (map f ys)) \<longleftrightarrow> (\<exists>y\<in>set ys. x \<in> set (f y))"
  by auto

lemma sort_key_perm_cong:
  assumes "inj_on f (set xs)" and "mset xs = mset ys"
  shows "sort_key f xs = sort_key f ys"
proof (rule properties_for_sort_key)
  show "mset (sort_key f ys) = mset xs" using assms(2) by simp
  show "sorted (map f (sort_key f ys))" by simp
  fix k assume "k \<in> set (sort_key f ys)"
  then have k: "k \<in> set xs"
    using assms(2) by (metis mset_sort set_mset_mset)
  have rep: "filter (\<lambda>y. f k = f y) zs = replicate (count (mset zs) k) k"
    if "set zs \<subseteq> set xs" for zs
    using that k assms(1) by (induction zs) (auto dest: inj_onD)
  have sub: "set (sort_key f ys) \<subseteq> set xs"
    using assms(2) by (metis mset_sort set_mset_mset subset_refl)
  show "filter (\<lambda>y. f k = f y) (sort_key f ys) = filter (\<lambda>y. f k = f y) xs"
    using rep [OF sub] rep [OF subset_refl] assms(2) by simp
qed

end
