(* ===== verification/GoStrings.thy ===== *)
theory GoStrings
  imports Prelude
begin

text \<open>
  The part of Go's \<open>strings\<close>, \<open>bytes\<close>, \<open>strconv\<close>, \<open>unicode/utf8\<close>, \<open>path/filepath\<close> and
  \<open>bufio\<close> that the program uses, on byte strings. White space is the Unicode white space of
  \<open>unicode.IsSpace\<close> in its UTF-8 form: a lead byte never occurs inside another well-formed
  rune, so the byte-level scans below find exactly the runes Go's decoder finds.
\<close>

subsection \<open>White space\<close>

abbreviation byte :: "char \<Rightarrow> nat" where
  "byte c \<equiv> of_char c"

definition asciiSpace :: "char \<Rightarrow> bool" where
  "asciiSpace c \<longleftrightarrow> c = CHR 0x20 \<or> c = CHR 0x09 \<or> c = CHR 0x0A \<or> c = CHR 0x0B \<or> c = CHR 0x0C \<or> c = CHR 0x0D"

definition space2 :: "char \<Rightarrow> char \<Rightarrow> bool" where
  "space2 c d \<longleftrightarrow> c = CHR 0xC2 \<and> (d = CHR 0x85 \<or> d = CHR 0xA0)"

definition space3 :: "char \<Rightarrow> char \<Rightarrow> char \<Rightarrow> bool" where
  "space3 c d e \<longleftrightarrow>
     c = CHR 0xE1 \<and> d = CHR 0x9A \<and> e = CHR 0x80
   \<or> c = CHR 0xE2 \<and> d = CHR 0x80 \<and> (0x80 \<le> byte e \<and> byte e \<le> 0x8A \<or> e = CHR 0xA8 \<or> e = CHR 0xA9 \<or> e = CHR 0xAF)
   \<or> c = CHR 0xE2 \<and> d = CHR 0x81 \<and> e = CHR 0x9F
   \<or> c = CHR 0xE3 \<and> d = CHR 0x80 \<and> e = CHR 0x80"

text \<open>The width of the white-space rune a string begins with, 0 if it begins with none.\<close>

definition spaceLen :: "string \<Rightarrow> nat" where
  "spaceLen s = (case s of [] \<Rightarrow> 0 | c # s1 \<Rightarrow>
     if asciiSpace c then 1
     else (case s1 of [] \<Rightarrow> 0 | d # s2 \<Rightarrow>
       if space2 c d then 2
       else (case s2 of [] \<Rightarrow> 0 | e # _ \<Rightarrow> if space3 c d e then 3 else 0)))"

text \<open>The width of the white-space rune a string ends with, read on the reversed string.\<close>

definition spaceLenRev :: "string \<Rightarrow> nat" where
  "spaceLenRev s = (case s of [] \<Rightarrow> 0 | e # s1 \<Rightarrow>
     if asciiSpace e then 1
     else (case s1 of [] \<Rightarrow> 0 | d # s2 \<Rightarrow>
       if space2 d e then 2
       else (case s2 of [] \<Rightarrow> 0 | c # _ \<Rightarrow> if space3 c d e then 3 else 0)))"

function dropRunes :: "(string \<Rightarrow> nat) \<Rightarrow> string \<Rightarrow> string" where
  "dropRunes w s = (if w s = 0 \<or> s = [] then s else dropRunes w (drop (w s) s))"
  by pat_completeness auto
termination
  by (relation "measure (\<lambda>(w, s). length s)") auto

declare dropRunes.simps [simp del]

definition trimLeftSpace :: "string \<Rightarrow> string" where
  "trimLeftSpace s = dropRunes spaceLen s"

definition trimRightSpace :: "string \<Rightarrow> string" where
  "trimRightSpace s = rev (dropRunes spaceLenRev (rev s))"

text \<open>\<open>strings.TrimSpace\<close>\<close>

definition trimSpace :: "string \<Rightarrow> string" where
  "trimSpace s = trimRightSpace (trimLeftSpace s)"

text \<open>\<open>strings.TrimLeft\<close> and \<open>strings.TrimRight\<close> for a cutset of single bytes\<close>

definition blankTab :: "char \<Rightarrow> bool" where
  "blankTab c \<longleftrightarrow> c = CHR 0x20 \<or> c = CHR 0x09"

definition trimLeftSet :: "(char \<Rightarrow> bool) \<Rightarrow> string \<Rightarrow> string" where
  "trimLeftSet p s = dropWhile p s"

definition trimRightSet :: "(char \<Rightarrow> bool) \<Rightarrow> string \<Rightarrow> string" where
  "trimRightSet p s = rev (dropWhile p (rev s))"

text \<open>\<open>strings.Fields\<close>: the accumulator holds the bytes of the current field, reversed.\<close>

definition flushField :: "string \<Rightarrow> string list" where
  "flushField acc = (if acc = [] then [] else [rev acc])"

function fieldsAcc :: "string \<Rightarrow> string \<Rightarrow> string list" where
  "fieldsAcc acc [] = flushField acc"
| "fieldsAcc acc (c # s) =
     (if spaceLen (c # s) = 0 then fieldsAcc (c # acc) s
      else flushField acc @ fieldsAcc [] (drop (spaceLen (c # s)) (c # s)))"
  by pat_completeness auto
termination
  by (relation "measure (\<lambda>(acc, s). length s)") auto

declare fieldsAcc.simps(2) [simp del]

definition goFields :: "string \<Rightarrow> string list" where
  "goFields s = fieldsAcc [] s"

subsection \<open>Splitting, joining, searching\<close>

text \<open>\<open>strings.Split\<close> with a one-byte separator\<close>

fun splitByte :: "char \<Rightarrow> string \<Rightarrow> string list" where
  "splitByte c [] = [[]]"
| "splitByte c (x # xs) =
     (if x = c then [] # splitByte c xs
      else (case splitByte c xs of [] \<Rightarrow> [[x]] | y # ys \<Rightarrow> (x # y) # ys))"

fun join :: "string \<Rightarrow> string list \<Rightarrow> string" where
  "join sep [] = []"
| "join sep [x] = x"
| "join sep (x # y # ys) = x @ sep @ join sep (y # ys)"

text \<open>\<open>strings.Index\<close> and \<open>strings.IndexByte\<close>; \<open>-1\<close> is \<^const>\<open>None\<close>\<close>

fun indexOf :: "string \<Rightarrow> string \<Rightarrow> nat option" where
  "indexOf sub [] = (if sub = [] then Some 0 else None)"
| "indexOf sub (c # s) = (if prefix sub (c # s) then Some 0 else map_option Suc (indexOf sub s))"

fun indexByte :: "char \<Rightarrow> string \<Rightarrow> nat option" where
  "indexByte c [] = None"
| "indexByte c (x # xs) = (if x = c then Some 0 else map_option Suc (indexByte c xs))"

text \<open>\<open>strings.Contains\<close>\<close>

definition contains :: "string \<Rightarrow> string \<Rightarrow> bool" where
  "contains s sub \<longleftrightarrow> sublist sub s"

text \<open>\<open>strings.TrimPrefix\<close> and \<open>strings.TrimSuffix\<close>\<close>

definition trimPrefix :: "string \<Rightarrow> string \<Rightarrow> string" where
  "trimPrefix s p = (if prefix p s then drop (length p) s else s)"

definition trimSuffix :: "string \<Rightarrow> string \<Rightarrow> string" where
  "trimSuffix s p = (if suffix p s then take (length s - length p) s else s)"

subsection \<open>Lines: \<open>bufio.Scanner\<close> with \<open>ScanLines\<close> and its 64 KiB buffer\<close>

text \<open>
  A raw line is what stands between newlines; the last one counts only if it is not empty.
  The scanner's buffer holds \<open>65536\<close> bytes: a raw line of that length or more fills it
  without a newline in sight, and the scan stops there with \<open>bufio.ErrTooLong\<close>. One trailing
  carriage return is dropped from every line.
\<close>

definition maxScanToken :: int where
  "maxScanToken = 65536"

definition rawLines :: "string \<Rightarrow> string list" where
  "rawLines s = (let ls = splitByte CHR 0x0A s in if last ls = [] then butlast ls else ls)"

definition dropCR :: "string \<Rightarrow> string" where
  "dropCR l = trimSuffix l [CHR 0x0D]"

definition shortLine :: "string \<Rightarrow> bool" where
  "shortLine l \<longleftrightarrow> int (length l) < maxScanToken"

definition scanLines :: "string \<Rightarrow> string list" where
  "scanLines s = map dropCR (takeWhile shortLine (rawLines s))"

definition scanTooLong :: "string \<Rightarrow> bool" where
  "scanTooLong s \<longleftrightarrow> \<not> list_all shortLine (rawLines s)"

subsection \<open>Decimal numbers\<close>

definition digitChar :: "nat \<Rightarrow> char" where
  "digitChar d = char_of (48 + d)"

definition isDigit :: "char \<Rightarrow> bool" where
  "isDigit c \<longleftrightarrow> 48 \<le> byte c \<and> byte c \<le> 57"

fun showNat :: "nat \<Rightarrow> string" where
  "showNat n = (if n < 10 then [digitChar n] else showNat (n div 10) @ [digitChar (n mod 10)])"

declare showNat.simps [simp del]

text \<open>\<open>strconv.Itoa\<close> and \<open>%d\<close>\<close>

definition itoa :: "int \<Rightarrow> string" where
  "itoa i = (if i < 0 then CHR ''-'' # showNat (nat (- i)) else showNat (nat i))"

datatype numErr = ErrSyntax | ErrRange

text \<open>
  \<open>strconv.ParseUint\<close> in base 10 for 64 bits, from left to right: a byte that is no digit is
  a syntax error, a value past \<open>2^64 - 1\<close> a range error, whichever comes first.
\<close>

fun parseUintAcc :: "int \<Rightarrow> string \<Rightarrow> numErr + int" where
  "parseUintAcc n [] = Inr n"
| "parseUintAcc n (c # cs) =
     (if \<not> isDigit c then Inl ErrSyntax
      else if n * 10 + (int (byte c) - 48) \<ge> 2 ^ 64 then Inl ErrRange
      else parseUintAcc (n * 10 + (int (byte c) - 48)) cs)"

definition parseUint :: "string \<Rightarrow> numErr + int" where
  "parseUint s = (if s = [] then Inl ErrSyntax else parseUintAcc 0 s)"

text \<open>
  \<open>strconv.ParseInt(s, 10, 64)\<close>, which is also \<open>strconv.Atoi\<close> where \<open>int\<close> has 64 bits.
\<close>

definition parseInt64 :: "string \<Rightarrow> numErr + int" where
  "parseInt64 s = (case s of
       [] \<Rightarrow> Inl ErrSyntax
     | c # cs \<Rightarrow>
        let neg = (c = CHR ''-''); body = (if c = CHR ''+'' \<or> c = CHR ''-'' then cs else s) in
        (case parseUint body of
           Inl e \<Rightarrow> Inl e
         | Inr u \<Rightarrow>
             if \<not> neg \<and> u \<ge> 2 ^ 63 then Inl ErrRange
             else if neg \<and> u > 2 ^ 63 then Inl ErrRange
             else Inr (if neg then - u else u)))"

subsection \<open>UTF-8\<close>

definition contByte :: "char \<Rightarrow> bool" where
  "contByte c \<longleftrightarrow> 0x80 \<le> byte c \<and> byte c \<le> 0xBF"

definition byteIn :: "nat \<Rightarrow> nat \<Rightarrow> char \<Rightarrow> bool" where
  "byteIn lo hi c \<longleftrightarrow> lo \<le> byte c \<and> byte c \<le> hi"

definition secondOK :: "char \<Rightarrow> char \<Rightarrow> bool" where
  "secondOK c d \<longleftrightarrow>
     (if c = CHR 0xE0 then byteIn 0xA0 0xBF d
      else if c = CHR 0xED then byteIn 0x80 0x9F d
      else if c = CHR 0xF0 then byteIn 0x90 0xBF d
      else if c = CHR 0xF4 then byteIn 0x80 0x8F d
      else contByte d)"

text \<open>
  The number of bytes of the rune at the head of a string as \<open>utf8.DecodeRune\<close> accepts it;
  0 where the head byte begins no well-formed rune (Go then steps over one byte and yields
  \<open>U+FFFD\<close>).
\<close>

definition runeLen :: "string \<Rightarrow> nat" where
  "runeLen s = (case s of [] \<Rightarrow> 0 | c # r \<Rightarrow>
     if byte c < 0x80 then 1
     else if byteIn 0xC2 0xDF c then
       (case r of d # _ \<Rightarrow> if contByte d then 2 else 0 | _ \<Rightarrow> 0)
     else if byteIn 0xE0 0xEF c then
       (case r of d # e # _ \<Rightarrow> if secondOK c d \<and> contByte e then 3 else 0 | _ \<Rightarrow> 0)
     else if byteIn 0xF0 0xF4 c then
       (case r of d # e # f # _ \<Rightarrow> if secondOK c d \<and> contByte e \<and> contByte f then 4 else 0 | _ \<Rightarrow> 0)
     else 0)"

definition replacementRune :: string where
  "replacementRune = [CHR 0xEF, CHR 0xBF, CHR 0xBD]"

text \<open>
  \<open>for _, r := range s\<close>: each item is \<open>Inr\<close> of the encoded rune, or \<open>Inl\<close> of a byte that is
  not part of one.
\<close>

function runes :: "string \<Rightarrow> (char + string) list" where
  "runes [] = []"
| "runes (c # s) =
     (if runeLen (c # s) = 0 then Inl c # runes s
      else Inr (take (runeLen (c # s)) (c # s)) # runes (drop (runeLen (c # s)) (c # s)))"
  by pat_completeness auto
termination
  by (relation "measure length") auto

declare runes.simps(2) [simp del]

subsection \<open>Quoting: the \<open>%q\<close> verb\<close>

text \<open>
  \<open>strconv.Quote\<close>, exact on ASCII and on bytes that form no rune. A well-formed rune beyond
  ASCII is copied, which is what Go does with every printable one; the few non-printable ones
  (Go writes them as \<open>\u....\<close>) only ever occur inside the text of a message.
\<close>

definition hexDigit :: "nat \<Rightarrow> char" where
  "hexDigit d = (if d < 10 then char_of (48 + d) else char_of (87 + d))"

definition hexByte :: "char \<Rightarrow> string" where
  "hexByte c = [hexDigit (byte c div 16), hexDigit (byte c mod 16)]"

text \<open>\<open>hex.EncodeToString\<close>\<close>

definition hexEncode :: "string \<Rightarrow> string" where
  "hexEncode bs = concat (map hexByte bs)"

definition quoteByte :: "char \<Rightarrow> string" where
  "quoteByte c =
     (if c = CHR 0x22 \<or> c = CHR 0x5C then [CHR 0x5C, c]
      else if 0x20 \<le> byte c \<and> byte c < 0x7F then [c]
      else if c = CHR 0x07 then [CHR 0x5C, CHR ''a'']
      else if c = CHR 0x08 then [CHR 0x5C, CHR ''b'']
      else if c = CHR 0x0C then [CHR 0x5C, CHR ''f'']
      else if c = CHR 0x0A then [CHR 0x5C, CHR ''n'']
      else if c = CHR 0x0D then [CHR 0x5C, CHR ''r'']
      else if c = CHR 0x09 then [CHR 0x5C, CHR ''t'']
      else if c = CHR 0x0B then [CHR 0x5C, CHR ''v'']
      else [CHR 0x5C, CHR ''x''] @ hexByte c)"

definition quoteRune :: "char + string \<Rightarrow> string" where
  "quoteRune r = (case r of
       Inl c \<Rightarrow> [CHR 0x5C, CHR ''x''] @ hexByte c
     | Inr [c] \<Rightarrow> quoteByte c
     | Inr cs \<Rightarrow> cs)"

definition goQuote :: "string \<Rightarrow> string" where
  "goQuote s = [CHR 0x22] @ concat (map quoteRune (runes s)) @ [CHR 0x22]"

subsection \<open>ASCII case folding\<close>

text \<open>
  \<open>strings.ToLower\<close> where the result is only compared with ASCII words: ASCII letters are
  lowered, and so are the two runes beyond ASCII whose lower case is an ASCII letter, the
  dotted capital I (\<open>U+0130\<close>) and the Kelvin sign (\<open>U+212A\<close>). Every other rune lowers to a rune
  that is not ASCII, so leaving it as it is changes no such comparison.
\<close>

definition lowerByte :: "char \<Rightarrow> char" where
  "lowerByte c = (if byteIn 65 90 c then char_of (byte c + 32) else c)"

definition lowerRune :: "char + string \<Rightarrow> string" where
  "lowerRune r = (case r of
       Inl c \<Rightarrow> replacementRune
     | Inr [c] \<Rightarrow> [lowerByte c]
     | Inr cs \<Rightarrow> if cs = [CHR 0xC4, CHR 0xB0] then ''i''
                else if cs = [CHR 0xE2, CHR 0x84, CHR 0xAA] then ''k'' else cs)"

definition toLower :: "string \<Rightarrow> string" where
  "toLower s = concat (map lowerRune (runes s))"

subsection \<open>Paths: \<open>filepath.Join\<close> and \<open>filepath.Clean\<close> on Unix\<close>

fun cleanComps :: "bool \<Rightarrow> string list \<Rightarrow> string list \<Rightarrow> string list" where
  "cleanComps rooted out [] = rev out"
| "cleanComps rooted out (c # cs) =
     (if c = [] \<or> c = ''.'' then cleanComps rooted out cs
      else if c = ''..'' then
        (case out of
           [] \<Rightarrow> if rooted then cleanComps rooted [] cs else cleanComps rooted [c] cs
         | o1 # out' \<Rightarrow> if o1 = ''..'' then cleanComps rooted (c # out) cs
                       else cleanComps rooted out' cs)
      else cleanComps rooted (c # out) cs)"

definition cleanPath :: "string \<Rightarrow> string" where
  "cleanPath p = (if p = [] then ''.'' else
     let rooted = (hd p = CHR ''/''); cs = cleanComps rooted [] (splitByte CHR ''/'' p) in
     if rooted then CHR ''/'' # join ''/'' cs
     else if cs = [] then ''.'' else join ''/'' cs)"

definition joinPath :: "string list \<Rightarrow> string" where
  "joinPath ps = (let qs = filter (\<lambda>p. p \<noteq> []) ps in if qs = [] then [] else cleanPath (join ''/'' qs))"

end
