(* ===== verification/GoStringFacts.thy ===== *)
theory GoStringFacts
  imports GoStrings
begin

text \<open>
  Facts about the modelled string functions: how trimming, splitting and scanning behave on
  text made of graphic ASCII characters, and the decimal round trip. The parsers of the
  program are proved against these.
\<close>

subsection \<open>Graphic characters\<close>

definition graphic :: "char \<Rightarrow> bool" where
  "graphic c \<longleftrightarrow> 0x21 \<le> byte c \<and> byte c \<le> 0x7E"

text \<open>A token is a word that \<open>strings.Fields\<close> never splits.\<close>

definition token :: "string \<Rightarrow> bool" where
  "token t \<longleftrightarrow> t \<noteq> [] \<and> list_all graphic t"

lemma graphic_not_asciiSpace [simp]: "graphic c \<Longrightarrow> \<not> asciiSpace c"
  by (auto simp: graphic_def asciiSpace_def)

lemma graphic_not_blankTab [simp]: "graphic c \<Longrightarrow> \<not> blankTab c"
  by (auto simp: graphic_def blankTab_def)

lemma graphic_not_control [simp]:
  "\<not> graphic CHR 0x0A" "\<not> graphic CHR 0x0D" "\<not> graphic CHR 0x20" "\<not> graphic CHR 0x09"
  by (simp_all add: graphic_def)

lemma graphic_not_space23 [simp]:
  "graphic c \<Longrightarrow> \<not> space2 c d" "graphic c \<Longrightarrow> \<not> space2 d c"
  "graphic c \<Longrightarrow> \<not> space3 c d e" "graphic c \<Longrightarrow> \<not> space3 d e c"
  by (auto simp: graphic_def space2_def space3_def)

lemma spaceLen_Nil [simp]: "spaceLen [] = 0"
  by (simp add: spaceLen_def)

lemma spaceLen_graphic [simp]: "graphic c \<Longrightarrow> spaceLen (c # s) = 0"
  by (auto simp: spaceLen_def split: list.splits)

lemma spaceLenRev_graphic [simp]: "graphic c \<Longrightarrow> spaceLenRev (c # s) = 0"
  by (auto simp: spaceLenRev_def split: list.splits)

lemma spaceLen_space [simp]: "spaceLen (CHR 0x20 # s) = 1"
  by (simp add: spaceLen_def asciiSpace_def)

lemma token_not_Nil [simp]: "\<not> token []"
  by (simp add: token_def)

lemma token_nonempty: "token t \<Longrightarrow> t \<noteq> []"
  by (simp add: token_def)

lemma token_set: "token t \<Longrightarrow> c \<in> set t \<Longrightarrow> graphic c"
  by (simp add: token_def list_all_iff)

lemma token_hd: "token t \<Longrightarrow> graphic (hd t)"
  by (cases t) (auto simp: token_def)

lemma token_last: "token t \<Longrightarrow> graphic (last t)"
  by (simp add: token_nonempty token_set)

lemma token_no_control: "token t \<Longrightarrow> CHR 0x0A \<notin> set t" "token t \<Longrightarrow> CHR 0x0D \<notin> set t"
  by (auto dest: token_set)

subsection \<open>Trimming\<close>

lemma dropRunes_0: "w s = 0 \<Longrightarrow> dropRunes w s = s"
  by (simp add: dropRunes.simps)

lemma trimLeftSpace_graphic: "s \<noteq> [] \<Longrightarrow> graphic (hd s) \<Longrightarrow> trimLeftSpace s = s"
  by (cases s) (simp_all add: trimLeftSpace_def dropRunes_0)

lemma trimRightSpace_graphic: "s \<noteq> [] \<Longrightarrow> graphic (last s) \<Longrightarrow> trimRightSpace s = s"
  by (cases s rule: rev_cases) (simp_all add: trimRightSpace_def dropRunes_0)

lemma trimSpace_graphic:
  "s \<noteq> [] \<Longrightarrow> graphic (hd s) \<Longrightarrow> graphic (last s) \<Longrightarrow> trimSpace s = s"
  by (simp add: trimSpace_def trimLeftSpace_graphic trimRightSpace_graphic)

lemma trimSpace_Nil [simp]: "trimSpace [] = []"
  by (simp add: trimSpace_def trimLeftSpace_def trimRightSpace_def dropRunes.simps)

lemma token_trimSpace [simp]: "token t \<Longrightarrow> trimSpace t = t"
  by (simp add: token_hd token_last token_nonempty trimSpace_graphic)

lemma trimRightSet_last: "s \<noteq> [] \<Longrightarrow> \<not> p (last s) \<Longrightarrow> trimRightSet p s = s"
  by (cases s rule: rev_cases) (simp_all add: trimRightSet_def)

lemma trimRightSet_snoc [simp]: "\<not> p c \<Longrightarrow> trimRightSet p (s @ [c]) = s @ [c]"
  by (simp add: trimRightSet_def)

lemma trimRightSet_Nil [simp]: "trimRightSet p [] = []"
  by (simp add: trimRightSet_def)

lemma trimLeftSet_hd: "s \<noteq> [] \<Longrightarrow> \<not> p (hd s) \<Longrightarrow> trimLeftSet p s = s"
  by (cases s) (simp_all add: trimLeftSet_def)

subsection \<open>Fields\<close>

lemma flushField_simps [simp]: "flushField [] = []" "acc \<noteq> [] \<Longrightarrow> flushField acc = [rev acc]"
  by (simp_all add: flushField_def)

lemma fieldsAcc_graphic: "list_all graphic t \<Longrightarrow> fieldsAcc acc (t @ s) = fieldsAcc (rev t @ acc) s"
  by (induction t arbitrary: acc) (auto simp: fieldsAcc.simps(2))

lemma fieldsAcc_space: "fieldsAcc acc (CHR 0x20 # s) = flushField acc @ fieldsAcc [] s"
  by (simp add: fieldsAcc.simps(2))

lemma fieldsAcc_tokens:
  "list_all token ts \<Longrightarrow> fieldsAcc [] (join '' '' ts) = ts"
proof (induction "'' ''" ts rule: join.induct)
  case (2 t)
  then show ?case
    using fieldsAcc_graphic [of t "[]" "[]"] by (simp add: token_def)
next
  case (3 t u us)
  then have "list_all graphic t" "t \<noteq> []" by (simp_all add: token_def)
  with 3 show ?case by (simp add: fieldsAcc_graphic fieldsAcc_space)
qed simp

lemma goFields_tokens [simp]: "list_all token ts \<Longrightarrow> goFields (join '' '' ts) = ts"
  by (simp add: goFields_def fieldsAcc_tokens)

lemma fieldsAcc_space_append: "fieldsAcc acc (t @ CHR 0x20 # s) = fieldsAcc acc t @ fieldsAcc [] s"
  if "list_all (\<lambda>c. graphic c \<or> c = CHR 0x20) t"
  using that
proof (induction t arbitrary: acc)
  case Nil
  then show ?case by (simp add: fieldsAcc_space)
next
  case (Cons c t)
  then show ?case
    by (cases "c = CHR 0x20") (auto simp: fieldsAcc_space fieldsAcc.simps(2))
qed

subsection \<open>Joining tokens\<close>

lemma join_Cons: "join sep (x # xs) = (if xs = [] then x else x @ sep @ join sep xs)"
  by (cases xs) simp_all

lemma join_eq_Nil: "join sep xs = [] \<longleftrightarrow> xs = [] \<or> xs = [[]]" if "sep \<noteq> []"
  using that by (cases xs) (auto simp: join_Cons)

lemma join_snoc: "join sep (xs @ [x]) = (if xs = [] then x else join sep xs @ sep @ x)"
  by (induction sep xs rule: join.induct) (auto simp: join_Cons)

lemma set_join: "set (join sep xs) \<subseteq> set sep \<union> \<Union> (set ` set xs)"
  by (induction sep xs rule: join.induct) auto

lemma join_tokens_nonempty: "ts \<noteq> [] \<Longrightarrow> list_all token ts \<Longrightarrow> join '' '' ts \<noteq> []"
  by (cases ts) (auto simp: join_Cons token_def)

lemma join_tokens_hd: "ts \<noteq> [] \<Longrightarrow> list_all token ts \<Longrightarrow> graphic (hd (join '' '' ts))"
  by (cases ts) (auto simp: join_Cons hd_append token_hd token_nonempty)

lemma join_tokens_last: "ts \<noteq> [] \<Longrightarrow> list_all token ts \<Longrightarrow> last (join '' '' ts) = last (last ts)"
  by (cases ts rule: rev_cases) (auto simp: join_snoc last_append token_nonempty list_all_iff)

lemma join_tokens_last_graphic: "ts \<noteq> [] \<Longrightarrow> list_all token ts \<Longrightarrow> graphic (last (join '' '' ts))"
  by (simp add: join_tokens_last token_last list_all_iff)

lemma join_tokens_trim: "ts \<noteq> [] \<Longrightarrow> list_all token ts \<Longrightarrow> trimSpace (join '' '' ts) = join '' '' ts"
  by (simp add: trimSpace_graphic join_tokens_nonempty join_tokens_hd join_tokens_last_graphic)

lemma join_tokens_chars:
  "list_all token ts \<Longrightarrow> c \<in> set (join '' '' ts) \<Longrightarrow> graphic c \<or> c = CHR 0x20"
  using set_join [of "'' ''" ts] by (auto simp: list_all_iff dest: token_set)

subsection \<open>Splitting at a byte\<close>

lemma splitByte_not_Nil [simp]: "splitByte c s \<noteq> []"
  by (induction s) (auto split: list.splits)

lemma splitByte_absent: "c \<notin> set s \<Longrightarrow> splitByte c s = [s]"
  by (induction s) auto

lemma splitByte_append: "c \<notin> set x \<Longrightarrow> splitByte c (x @ c # y) = x # splitByte c y"
  by (induction x) auto

lemma join_splitByte: "join [c] (splitByte c s) = s"
proof (induction s)
  case Nil
  show ?case by simp
next
  case (Cons x xs)
  then show ?case by (cases "splitByte c xs") (auto simp: join_Cons)
qed

lemma splitByte_join:
  "xs \<noteq> [] \<Longrightarrow> \<forall>x\<in>set xs. c \<notin> set x \<Longrightarrow> splitByte c (join [c] xs) = xs"
  by (induction "[c]" xs rule: join.induct) (auto simp: splitByte_absent splitByte_append)

lemma splitByte_parts: "x \<in> set (splitByte c s) \<Longrightarrow> c \<notin> set x"
proof (induction s arbitrary: x)
  case (Cons a s)
  then show ?case by (cases "splitByte c s") (auto split: if_splits)
qed simp

definition unlines :: "string list \<Rightarrow> string" where
  "unlines ls = concat (map (\<lambda>l. l @ [CHR 0x0A]) ls)"

lemma unlines_simps [simp]: "unlines [] = []" "unlines (l # ls) = l @ CHR 0x0A # unlines ls"
  by (simp_all add: unlines_def)

lemma splitByte_unlines:
  "\<forall>l\<in>set ls. CHR 0x0A \<notin> set l \<Longrightarrow> splitByte CHR 0x0A (unlines ls) = ls @ [[]]"
  by (induction ls) (auto simp: splitByte_append)

lemma rawLines_unlines: "\<forall>l\<in>set ls. CHR 0x0A \<notin> set l \<Longrightarrow> rawLines (unlines ls) = ls"
  by (simp add: rawLines_def splitByte_unlines)

text \<open>A line the scanner hands out unchanged\<close>

definition plainLine :: "string \<Rightarrow> bool" where
  "plainLine l \<longleftrightarrow> CHR 0x0A \<notin> set l \<and> CHR 0x0D \<notin> set l \<and> shortLine l"

lemma dropCR_plain: "CHR 0x0D \<notin> set l \<Longrightarrow> dropCR l = l"
  by (auto simp: dropCR_def trimSuffix_def suffix_def)

lemma scanLines_unlines: "list_all plainLine ls \<Longrightarrow> scanLines (unlines ls) = ls"
proof -
  assume a: "list_all plainLine ls"
  then have "takeWhile shortLine ls = ls"
    by (auto simp: takeWhile_eq_all_conv list_all_iff plainLine_def)
  moreover have "map dropCR ls = ls"
    using a by (auto simp: list_all_iff plainLine_def dropCR_plain intro: map_idI)
  moreover have "rawLines (unlines ls) = ls"
    using a by (auto simp: list_all_iff plainLine_def intro: rawLines_unlines)
  ultimately show ?thesis by (simp only: scanLines_def)
qed

lemma scanTooLong_unlines: "list_all plainLine ls \<Longrightarrow> \<not> scanTooLong (unlines ls)"
  by (subst scanTooLong_def, subst rawLines_unlines) (auto simp: list_all_iff plainLine_def)

lemma indexByte_None: "indexByte c s = None \<longleftrightarrow> c \<notin> set s"
  by (induction s) auto

lemma indexByte_Some_take: "indexByte c s = Some i \<Longrightarrow> take i s = takeWhile (\<lambda>x. x \<noteq> c) s"
  by (induction s arbitrary: i) (auto split: if_splits)

lemma indexByte_Some_drop:
  "indexByte c s = Some i \<Longrightarrow> s = take i s @ c # drop (Suc i) s \<and> c \<notin> set (take i s)"
  by (induction s arbitrary: i) (auto split: if_splits)

lemma indexByte_append: "c \<notin> set x \<Longrightarrow> indexByte c (x @ c # y) = Some (length x)"
  by (induction x) auto

lemma indexOf_Some: "indexOf sub s = Some i \<Longrightarrow> prefix sub (drop i s) \<and> i \<le> length s"
  by (induction s arbitrary: i) (auto split: if_splits)

lemma indexOf_None: "indexOf sub s = None \<longleftrightarrow> \<not> sublist sub s"
  by (induction s) (auto simp: sublist_Cons_right)

subsection \<open>Decimal numbers\<close>

lemma byte_digitChar: "d < 10 \<Longrightarrow> byte (digitChar d) = 48 + d"
  by (simp add: digitChar_def)

lemma digitChar_isDigit: "d < 10 \<Longrightarrow> isDigit (digitChar d)"
  by (simp add: isDigit_def byte_digitChar)

lemma digitChar_graphic: "d < 10 \<Longrightarrow> graphic (digitChar d)"
  by (simp add: graphic_def byte_digitChar)

lemma digitChar_num [go_std]:
  "digitChar 0 = CHR ''0''" "digitChar (Suc 0) = CHR ''1''" "digitChar 1 = CHR ''1''" "digitChar 2 = CHR ''2''"
  "digitChar 3 = CHR ''3''" "digitChar 4 = CHR ''4''" "digitChar 5 = CHR ''5''" "digitChar 6 = CHR ''6''"
  "digitChar 7 = CHR ''7''" "digitChar 8 = CHR ''8''" "digitChar 9 = CHR ''9''"
  by code_simp+

lemma showNat_digits: "list_all isDigit (showNat n)"
proof (induction n rule: showNat.induct)
  case (1 n)
  then show ?case
    by (subst showNat.simps) (auto simp: digitChar_isDigit)
qed

lemma showNat_nonempty [simp]: "showNat n \<noteq> []"
  by (subst showNat.simps) simp

lemma isDigit_graphic: "isDigit c \<Longrightarrow> graphic c"
  by (simp add: isDigit_def graphic_def)

lemma token_showNat [simp]: "token (showNat n)"
  using showNat_digits [of n] by (auto simp: token_def list_all_iff isDigit_graphic)

lemma parseUintAcc_append:
  "parseUintAcc n (s @ t) =
     (case parseUintAcc n s of Inl e \<Rightarrow> Inl e | Inr m \<Rightarrow> parseUintAcc m t)"
  by (induction s arbitrary: n) auto

lemma parseUintAcc_showNat: "int n < 2 ^ 64 \<Longrightarrow> parseUintAcc 0 (showNat n) = Inr (int n)"
proof (induction n rule: showNat.induct)
  case (1 n)
  show ?case
  proof (cases "n < 10")
    case True
    with 1 show ?thesis
      by (subst showNat.simps) (simp add: digitChar_isDigit byte_digitChar)
  next
    case False
    then have "parseUintAcc 0 (showNat (n div 10)) = Inr (int (n div 10))"
      using 1 by simp
    moreover have "int (n div 10) * 10 + int (n mod 10) = int n"
      by (metis div_mult_mod_eq of_nat_add of_nat_mult of_nat_numeral)
    ultimately show ?thesis using False 1
      by (subst showNat.simps)
        (simp add: parseUintAcc_append digitChar_isDigit byte_digitChar del: of_nat_div of_nat_mod zdiv_int zmod_int)
  qed
qed

lemma parseUint_showNat: "int n < 2 ^ 64 \<Longrightarrow> parseUint (showNat n) = Inr (int n)"
  by (simp add: parseUint_def parseUintAcc_showNat)

lemma showNat_hd: "hd (showNat n) \<noteq> CHR ''-''" "hd (showNat n) \<noteq> CHR ''+''"
proof -
  have "isDigit (hd (showNat n))"
    using showNat_digits [of n] by (simp add: list_all_iff)
  then show "hd (showNat n) \<noteq> CHR ''-''" "hd (showNat n) \<noteq> CHR ''+''"
    by (auto simp: isDigit_def)
qed

text \<open>Printing and parsing a decimal is the identity on the whole \<open>int64\<close> range.\<close>

lemma parseInt64_itoa: "- (2 ^ 63) \<le> i \<Longrightarrow> i < 2 ^ 63 \<Longrightarrow> parseInt64 (itoa i) = Inr i"
proof (cases "i < 0")
  case True
  moreover assume "- (2 ^ 63) \<le> i" "i < 2 ^ 63"
  ultimately show ?thesis
    using parseUint_showNat [of "nat (- i)"] by (simp add: itoa_def parseInt64_def)
next
  case False
  moreover assume "- (2 ^ 63) \<le> i" "i < 2 ^ 63"
  ultimately show ?thesis
    using parseUint_showNat [of "nat i"] showNat_hd [of "nat i"]
    by (cases "showNat (nat i)") (auto simp: itoa_def parseInt64_def)
qed

lemma token_itoa [simp]: "token (itoa i)"
  using token_showNat [of "nat i"] token_showNat [of "nat (- i)"]
  by (auto simp: itoa_def token_def graphic_def)

lemma parseInt64_range: "parseInt64 s = Inr i \<Longrightarrow> - (2 ^ 63) \<le> i \<and> i < 2 ^ 63"
proof -
  have acc: "parseUintAcc n t = Inr m \<Longrightarrow> 0 \<le> n \<Longrightarrow> 0 \<le> m" for n m t
    by (induction t arbitrary: n) (auto simp: isDigit_def split: if_splits)
  have "parseUint t = Inr m \<Longrightarrow> 0 \<le> m" for t m
    using acc [of 0 t m] by (auto simp: parseUint_def split: if_splits)
  then show "parseInt64 s = Inr i \<Longrightarrow> - (2 ^ 63) \<le> i \<and> i < 2 ^ 63"
    by (fastforce simp: parseInt64_def Let_def split: list.splits sum.splits if_splits)
qed

end
