(* ===== verification/GoErrors.thy ===== *)
theory GoErrors
  imports GoStringFacts
begin

text \<open>
  Go error values. An error is its message and the sentinels of its \<open>Unwrap\<close> tree, which is
  all the program observes of one: it prints it (\<open>err.Error()\<close>, \<open>%v\<close>) or asks
  \<open>errors.Is(err, Sentinel)\<close>. The sentinels are those of the modules under \<open>src/\<close> and those of
  the standard library the code matches against. A nil error is \<^const>\<open>None\<close>.
\<close>

datatype sentinel =
    FsErrNotExist | FsErrPermission
  | CtxCanceled | CtxDeadlineExceeded
  | BufioErrTooLong | IoErrShortWrite | FlagErrHelp
  | ErrUnknownFormat | ErrRendererNotRegistered
  | ErrCommandNotFound | ErrCommandDenied | ErrInvalidArg | ErrTimeout | ErrOutputTruncated
  | ErrParse | ErrMalformed
  | ErrNotRoot | ErrProcMissing
  | ErrNoPkgManager | ErrPackageUnknown
  | ErrRender | ErrEncode | ErrShortWrite | ErrAtomicRename
  | ErrHelpOrVersion | ErrFlagConflict | ErrFlagParse | ErrEmptyFilter

text \<open>The sentinels each package declares, with their messages; first those of the standard library\<close>

definition stdErrors :: "(sentinel \<times> string) list" where
  "stdErrors =
     [(FsErrNotExist, ''file does not exist''),
      (FsErrPermission, ''permission denied''),
      (CtxCanceled, ''context canceled''),
      (CtxDeadlineExceeded, ''context deadline exceeded''),
      (BufioErrTooLong, ''bufio.Scanner: token too long''),
      (IoErrShortWrite, ''short write''),
      (FlagErrHelp, ''flag: help requested'')]"

definition reportErrors :: "(sentinel \<times> string) list" where
  "reportErrors =
     [(ErrUnknownFormat, ''unknown report format''),
      (ErrRendererNotRegistered, ''no renderer registered for format'')]"

definition execErrors :: "(sentinel \<times> string) list" where
  "execErrors =
     [(ErrCommandNotFound, ''exec: command not found''),
      (ErrCommandDenied, ''exec: command not on allowlist''),
      (ErrInvalidArg, ''exec: invalid argument''),
      (ErrTimeout, ''exec: command timed out''),
      (ErrOutputTruncated, ''exec: output truncated'')]"

definition kernelmodErrors :: "(sentinel \<times> string) list" where
  "kernelmodErrors =
     [(ErrParse, ''kernelmod: malformed modprobe.d directive''),
      (ErrMalformed, ''kernelmod: malformed /proc/modules line'')]"

definition procscanErrors :: "(sentinel \<times> string) list" where
  "procscanErrors =
     [(ErrNotRoot, ''procscan: scan requires EUID=0''),
      (ErrProcMissing, ''procscan: /proc not readable'')]"

definition integrityErrors :: "(sentinel \<times> string) list" where
  "integrityErrors =
     [(ErrNoPkgManager, ''integrity: no supported package manager (rpm, dpkg) found''),
      (ErrPackageUnknown, ''integrity: file not owned by any installed package'')]"

definition renderErrors :: "(sentinel \<times> string) list" where
  "renderErrors =
     [(ErrRender, ''render: renderer failure''),
      (ErrEncode, ''render: encode failed''),
      (ErrShortWrite, ''render: short write to writer''),
      (ErrAtomicRename, ''render: atomic rename failed'')]"

definition flagErrors :: "(sentinel \<times> string) list" where
  "flagErrors =
     [(ErrHelpOrVersion, ''flags: help or version requested''),
      (ErrFlagConflict, ''flags: --only and --skip are mutually exclusive''),
      (ErrFlagParse, ''flags: parse error''),
      (ErrEmptyFilter, ''flags: --only / --skip value is empty'')]"

definition sentinelMsg :: "sentinel \<Rightarrow> string" where
  "sentinelMsg s =
     (case map_of (stdErrors @ reportErrors @ execErrors @ kernelmodErrors @ procscanErrors @ integrityErrors @ renderErrors @ flagErrors) s of
        None \<Rightarrow> [] | Some m \<Rightarrow> m)"

lemmas sentinel_tables = stdErrors_def reportErrors_def execErrors_def kernelmodErrors_def procscanErrors_def integrityErrors_def renderErrors_def flagErrors_def

text \<open>Every sentinel is declared, once, and no two have the same message.\<close>

lemma sentinels_declared:
  "distinct (map fst (stdErrors @ reportErrors @ execErrors @ kernelmodErrors @ procscanErrors @ integrityErrors @ renderErrors @ flagErrors))"
  "distinct (map snd (stdErrors @ reportErrors @ execErrors @ kernelmodErrors @ procscanErrors @ integrityErrors @ renderErrors @ flagErrors))"
  "s \<in> set (map fst (stdErrors @ reportErrors @ execErrors @ kernelmodErrors @ procscanErrors @ integrityErrors @ renderErrors @ flagErrors))"
  by (simp_all add: sentinel_tables) (cases s; simp)

lemma sentinelMsg_simps [simp]:
  "sentinelMsg FsErrNotExist = ''file does not exist''"
  "sentinelMsg FsErrPermission = ''permission denied''"
  "sentinelMsg CtxCanceled = ''context canceled''"
  "sentinelMsg CtxDeadlineExceeded = ''context deadline exceeded''"
  "sentinelMsg BufioErrTooLong = ''bufio.Scanner: token too long''"
  "sentinelMsg IoErrShortWrite = ''short write''"
  "sentinelMsg FlagErrHelp = ''flag: help requested''"
  "sentinelMsg ErrUnknownFormat = ''unknown report format''"
  "sentinelMsg ErrRendererNotRegistered = ''no renderer registered for format''"
  "sentinelMsg ErrCommandNotFound = ''exec: command not found''"
  "sentinelMsg ErrCommandDenied = ''exec: command not on allowlist''"
  "sentinelMsg ErrInvalidArg = ''exec: invalid argument''"
  "sentinelMsg ErrTimeout = ''exec: command timed out''"
  "sentinelMsg ErrOutputTruncated = ''exec: output truncated''"
  "sentinelMsg ErrParse = ''kernelmod: malformed modprobe.d directive''"
  "sentinelMsg ErrMalformed = ''kernelmod: malformed /proc/modules line''"
  "sentinelMsg ErrNotRoot = ''procscan: scan requires EUID=0''"
  "sentinelMsg ErrProcMissing = ''procscan: /proc not readable''"
  "sentinelMsg ErrNoPkgManager = ''integrity: no supported package manager (rpm, dpkg) found''"
  "sentinelMsg ErrPackageUnknown = ''integrity: file not owned by any installed package''"
  "sentinelMsg ErrRender = ''render: renderer failure''"
  "sentinelMsg ErrEncode = ''render: encode failed''"
  "sentinelMsg ErrShortWrite = ''render: short write to writer''"
  "sentinelMsg ErrAtomicRename = ''render: atomic rename failed''"
  "sentinelMsg ErrHelpOrVersion = ''flags: help or version requested''"
  "sentinelMsg ErrFlagConflict = ''flags: --only and --skip are mutually exclusive''"
  "sentinelMsg ErrFlagParse = ''flags: parse error''"
  "sentinelMsg ErrEmptyFilter = ''flags: --only / --skip value is empty''"
  by (simp_all add: sentinelMsg_def sentinel_tables)

record goerr =
  errMsg :: string
  errChain :: "sentinel list"

text \<open>\<open>errors.New\<close> of a sentinel, and an error that wraps nothing the program matches\<close>

definition sentinelErr :: "sentinel \<Rightarrow> goerr" where
  "sentinelErr s = \<lparr>errMsg = sentinelMsg s, errChain = [s]\<rparr>"

definition plainErr :: "string \<Rightarrow> goerr" where
  "plainErr m = \<lparr>errMsg = m, errChain = []\<rparr>"

text \<open>\<open>fmt.Errorf\<close> with one \<open>%w\<close> between two pieces of text, and with two of them\<close>

definition wrapErr :: "string \<Rightarrow> goerr \<Rightarrow> string \<Rightarrow> goerr" where
  "wrapErr pre e post = \<lparr>errMsg = pre @ errMsg e @ post, errChain = errChain e\<rparr>"

definition wrapErr2 :: "string \<Rightarrow> goerr \<Rightarrow> string \<Rightarrow> goerr \<Rightarrow> string \<Rightarrow> goerr" where
  "wrapErr2 pre e mid f post =
     \<lparr>errMsg = pre @ errMsg e @ mid @ errMsg f @ post, errChain = errChain e @ errChain f\<rparr>"

text \<open>\<open>errors.Join\<close>\<close>

definition joinErrs :: "goerr list \<Rightarrow> goerr" where
  "joinErrs es = \<lparr>errMsg = join [CHR 0x0A] (map errMsg es), errChain = concat (map errChain es)\<rparr>"

definition errIs :: "goerr \<Rightarrow> sentinel \<Rightarrow> bool" where
  "errIs e s \<longleftrightarrow> s \<in> set (errChain e)"

text \<open>\<open>errors.Is(err, s)\<close> where \<open>err\<close> may be nil\<close>

definition errIsOpt :: "goerr option \<Rightarrow> sentinel \<Rightarrow> bool" where
  "errIsOpt e s = (case e of None \<Rightarrow> False | Some f \<Rightarrow> errIs f s)"

lemma errIs_sentinelErr [simp, sentinels]: "errIs (sentinelErr s) t \<longleftrightarrow> t = s"
  by (simp add: errIs_def sentinelErr_def)

lemma errIs_plainErr [simp, sentinels]: "\<not> errIs (plainErr m) t"
  by (simp add: errIs_def plainErr_def)

lemma errIs_wrapErr [simp, sentinels]: "errIs (wrapErr pre e post) t \<longleftrightarrow> errIs e t"
  by (simp add: errIs_def wrapErr_def)

lemma errIs_wrapErr2 [simp, sentinels]:
  "errIs (wrapErr2 pre e mid f post) t \<longleftrightarrow> errIs e t \<or> errIs f t"
  by (simp add: errIs_def wrapErr2_def)

lemma errIs_joinErrs [simp, sentinels]: "errIs (joinErrs es) t \<longleftrightarrow> (\<exists>e\<in>set es. errIs e t)"
  by (simp add: errIs_def joinErrs_def)

lemma errIsOpt_simps [simp, sentinels]: "\<not> errIsOpt None s" "errIsOpt (Some e) s \<longleftrightarrow> errIs e s"
  by (simp_all add: errIsOpt_def)

lemma errMsg_simps [simp]:
  "errMsg (sentinelErr s) = sentinelMsg s" "errMsg (plainErr m) = m"
  "errMsg (wrapErr pre e post) = pre @ errMsg e @ post"
  "errMsg (wrapErr2 pre e mid f post) = pre @ errMsg e @ mid @ errMsg f @ post"
  by (simp_all add: sentinelErr_def plainErr_def wrapErr_def wrapErr2_def)

subsection \<open>Readers\<close>

text \<open>
  An \<open>io.Reader\<close> is the bytes it delivers and the error it ends with, if it does not end at
  end of file. The scanner hands out the lines of the bytes it got, the last partial one
  included, and then reports that error, or its own when a line does not fit its buffer.
\<close>

type_synonym reader = "string \<times> goerr option"

definition scannerErr :: "reader \<Rightarrow> goerr option" where
  "scannerErr r = (if scanTooLong (fst r) then Some (sentinelErr BufioErrTooLong) else snd r)"

definition textReader :: "string \<Rightarrow> reader" where
  "textReader s = (s, None)"

lemma scannerErr_textReader:
  "list_all plainLine ls \<Longrightarrow> scannerErr (textReader (unlines ls)) = None"
  by (simp add: scannerErr_def textReader_def scanTooLong_unlines)

text \<open>\<open>strconv.NumError\<close> as the parsers print it\<close>

definition numErrMsg :: "string \<Rightarrow> string \<Rightarrow> numErr \<Rightarrow> string" where
  "numErrMsg fn s e = ''strconv.'' @ fn @ '': parsing '' @ goQuote s @ '': '' @
     (case e of ErrSyntax \<Rightarrow> ''invalid syntax'' | ErrRange \<Rightarrow> ''value out of range'')"

end
