(* ===== verification/Report.thy ===== *)
theory Report
  imports GoErrors
begin

text \<open>
  Package \<open>report\<close>: the value types of a report (\<open>state.go\<close>, \<open>severity.go\<close>, \<open>result.go\<close>,
  \<open>report.go\<close>, \<open>format.go\<close>) and the renderer registry (\<open>writeto.go\<close>). The Go types \<open>State\<close>,
  \<open>Severity\<close> and \<open>Format\<close> are strings with named constants, and the code says what happens for
  a value that is none of them, so they are strings here too. Times are nanoseconds since the
  zero \<open>time.Time\<close>, which is 0.
\<close>

type_synonym State = string
type_synonym Severity = string
type_synonym Format = string
type_synonym gotime = int

abbreviation StatePass :: State where "StatePass \<equiv> ''pass''"
abbreviation StateFail :: State where "StateFail \<equiv> ''fail''"
abbreviation StateSkip :: State where "StateSkip \<equiv> ''skip''"
abbreviation StateError :: State where "StateError \<equiv> ''error''"

abbreviation SeverityRequired :: Severity where "SeverityRequired \<equiv> ''required''"
abbreviation SeverityAdvisory :: Severity where "SeverityAdvisory \<equiv> ''advisory''"

abbreviation FormatHuman :: Format where "FormatHuman \<equiv> ''human''"
abbreviation FormatJSON :: Format where "FormatJSON \<equiv> ''json''"
abbreviation FormatSARIF :: Format where "FormatSARIF \<equiv> ''sarif''"
abbreviation FormatPrometheus :: Format where "FormatPrometheus \<equiv> ''prometheus''"

definition knownState :: "State \<Rightarrow> bool" where
  "knownState s \<longleftrightarrow> s = StatePass \<or> s = StateFail \<or> s = StateSkip \<or> s = StateError"

definition sarifKind :: "State \<Rightarrow> string" where
  "sarifKind s =
     (if s = StatePass then ''pass''
      else if s = StateFail then ''fail''
      else if s = StateSkip then ''notApplicable''
      else ''open'')"

definition isRequired :: "Severity \<Rightarrow> bool" where
  "isRequired s \<longleftrightarrow> s = SeverityRequired"

definition parseFormat :: "string \<Rightarrow> goerr + Format" where
  "parseFormat s =
     (let l = toLower s in
      if l = ''human'' then Inr FormatHuman
      else if l = ''json'' then Inr FormatJSON
      else if l = ''sarif'' then Inr FormatSARIF
      else if l = ''prometheus'' then Inr FormatPrometheus
      else Inl (wrapErr [] (sentinelErr ErrUnknownFormat)
             ('': '' @ goQuote s @ '' (want one of: human, json, sarif, prometheus)'')))"

subsection \<open>Results and reports\<close>

text \<open>The values a check puts into a result's \<open>Evidence map[string]any\<close>\<close>

datatype evidence = EvStr string | EvBool bool | EvInt int | EvMap "(string \<times> evidence) list"

record result =
  rStartedAt :: gotime
  rEvidence :: "(string \<times> evidence) list"
  rCheckID :: string
  rTitle :: string
  rState :: State
  rSeverity :: Severity
  rDetail :: string
  rErr :: string
  rDurationMS :: int

record bucket =
  bPass :: nat
  bFail :: nat
  bError :: nat

record summary =
  sTotal :: nat
  sPass :: nat
  sFail :: nat
  sSkip :: nat
  sError :: nat
  sRequired :: bucket

record toolInfo =
  tName :: string
  tVersion :: string
  tCommit :: string
  tBuildDate :: string

record hostInfo =
  hHostname :: string
  hKernelRelease :: string
  hOSRelease :: string
  hOSVersion :: string
  hArch :: string

record report =
  repGenerated :: gotime
  repHost :: hostInfo
  repTool :: toolInfo
  repSchemaVersion :: string
  repResults :: "result list"
  repSummary :: summary

definition zeroResult :: result where
  "zeroResult = \<lparr>rStartedAt = 0, rEvidence = [], rCheckID = [], rTitle = [], rState = [],
     rSeverity = [], rDetail = [], rErr = [], rDurationMS = 0\<rparr>"

definition zeroBucket :: bucket where
  "zeroBucket = \<lparr>bPass = 0, bFail = 0, bError = 0\<rparr>"

definition schemaVersionCurrent :: string where
  "schemaVersionCurrent = ''1.0.0''"

subsection \<open>The summary\<close>

definition countState :: "State \<Rightarrow> summary \<Rightarrow> summary" where
  "countState st s =
     (if st = StatePass then s\<lparr>sPass := Suc (sPass s)\<rparr>
      else if st = StateFail then s\<lparr>sFail := Suc (sFail s)\<rparr>
      else if st = StateSkip then s\<lparr>sSkip := Suc (sSkip s)\<rparr>
      else if st = StateError then s\<lparr>sError := Suc (sError s)\<rparr>
      else s)"

definition countRequired :: "State \<Rightarrow> bucket \<Rightarrow> bucket" where
  "countRequired st b =
     (if st = StatePass then b\<lparr>bPass := Suc (bPass b)\<rparr>
      else if st = StateFail then b\<lparr>bFail := Suc (bFail b)\<rparr>
      else if st = StateError then b\<lparr>bError := Suc (bError b)\<rparr>
      else b)"

fun summaryLoop :: "summary \<Rightarrow> result list \<Rightarrow> summary" where
  "summaryLoop s [] = s"
| "summaryLoop s (r # rs) =
     (let s1 = countState (rState r) s;
          s2 = (if isRequired (rSeverity r)
                then s1\<lparr>sRequired := countRequired (rState r) (sRequired s1)\<rparr> else s1)
      in summaryLoop s2 rs)"

definition newSummary :: "result list \<Rightarrow> summary" where
  "newSummary rs = summaryLoop
     \<lparr>sTotal = length rs, sPass = 0, sFail = 0, sSkip = 0, sError = 0, sRequired = zeroBucket\<rparr> rs"

text \<open>What the tallies mean: how many results have a given state, all or the required ones.\<close>

definition tally :: "State \<Rightarrow> result list \<Rightarrow> nat" where
  "tally st rs = length (filter (\<lambda>r. rState r = st) rs)"

definition tallyReq :: "State \<Rightarrow> result list \<Rightarrow> nat" where
  "tallyReq st rs = tally st (filter (\<lambda>r. isRequired (rSeverity r)) rs)"

lemma tally_simps [simp]:
  "tally st [] = 0"
  "tally st (r # rs) = (if rState r = st then Suc (tally st rs) else tally st rs)"
  by (simp_all add: tally_def)

lemma tallyReq_simps [simp]:
  "tallyReq st [] = 0"
  "tallyReq st (r # rs) =
     (if isRequired (rSeverity r) \<and> rState r = st then Suc (tallyReq st rs) else tallyReq st rs)"
  by (simp_all add: tallyReq_def)

lemma summaryLoop_tally:
  "summaryLoop s rs =
     \<lparr>sTotal = sTotal s, sPass = sPass s + tally StatePass rs, sFail = sFail s + tally StateFail rs,
      sSkip = sSkip s + tally StateSkip rs, sError = sError s + tally StateError rs,
      sRequired = \<lparr>bPass = bPass (sRequired s) + tallyReq StatePass rs,
                   bFail = bFail (sRequired s) + tallyReq StateFail rs,
                   bError = bError (sRequired s) + tallyReq StateError rs\<rparr>\<rparr>"
proof (induction rs arbitrary: s)
  case Nil
  then show ?case by simp
next
  case (Cons r rs)
  show ?case
    by (simp add: Cons.IH countState_def countRequired_def Let_def)
qed

lemma newSummary_tally:
  "newSummary rs =
     \<lparr>sTotal = length rs, sPass = tally StatePass rs, sFail = tally StateFail rs,
      sSkip = tally StateSkip rs, sError = tally StateError rs,
      sRequired = \<lparr>bPass = tallyReq StatePass rs, bFail = tallyReq StateFail rs,
                   bError = tallyReq StateError rs\<rparr>\<rparr>"
  by (simp add: newSummary_def summaryLoop_tally zeroBucket_def)

lemma tally_0_iff: "tally st rs = 0 \<longleftrightarrow> (\<forall>r\<in>set rs. rState r \<noteq> st)"
  by (induction rs) auto

lemma tallyReq_0_iff:
  "tallyReq st rs = 0 \<longleftrightarrow> (\<forall>r\<in>set rs. isRequired (rSeverity r) \<longrightarrow> rState r \<noteq> st)"
  by (auto simp: tallyReq_def tally_0_iff)

lemma tally_mset: "mset rs = mset rs' \<Longrightarrow> tally st rs = tally st rs'"
  by (metis mset_filter size_mset tally_def)

lemma tallyReq_mset: "mset rs = mset rs' \<Longrightarrow> tallyReq st rs = tallyReq st rs'"
  by (simp add: tallyReq_def tally_mset)

lemma tally_sum:
  "tally StatePass rs + tally StateFail rs + tally StateSkip rs + tally StateError rs
     = length (filter (\<lambda>r. knownState (rState r)) rs)"
  by (induction rs) (auto simp: knownState_def)

subsection \<open>The renderer registry\<close>

text \<open>
  A renderer is a function of the writer's state and the report. Go maps are references, and
  the point of \<open>SnapshotRenderers\<close> and \<open>RestoreRenderers\<close> is that they copy, so the registry is
  modelled with an explicit store: \<open>regMaps\<close> holds the contents of every map that was made,
  \<open>regLive\<close> is the address the package variable \<open>renderers\<close> points to, \<open>regNext\<close> the next
  address \<open>make\<close> returns. Every operation holds \<open>rendererMu\<close> for its whole body, so each is
  one atomic step.
\<close>

type_synonym 'w renderer = "'w \<Rightarrow> report \<Rightarrow> (int \<times> goerr option) \<times> 'w"

record 'r registry =
  regMaps :: "nat \<Rightarrow> (Format \<rightharpoonup> 'r)"
  regNext :: nat
  regLive :: nat

definition emptyRegistry :: "'r registry" where
  "emptyRegistry = \<lparr>regMaps = (\<lambda>_. Map.empty), regNext = 1, regLive = 0\<rparr>"

text \<open>The contents of the live registry\<close>

definition liveMap :: "'r registry \<Rightarrow> (Format \<rightharpoonup> 'r)" where
  "liveMap g = regMaps g (regLive g)"

text \<open>\<open>m[f] = r\<close> on the map at an address\<close>

definition mapAssign :: "nat \<Rightarrow> Format \<Rightarrow> 'r \<Rightarrow> 'r registry \<Rightarrow> 'r registry" where
  "mapAssign a f r g = g\<lparr>regMaps := (regMaps g)(a := (regMaps g a)(f \<mapsto> r))\<rparr>"

definition register :: "Format \<Rightarrow> 'r \<Rightarrow> 'r registry \<Rightarrow> 'r registry" where
  "register f r g = mapAssign (regLive g) f r g"

definition snapshotRenderers :: "'r registry \<Rightarrow> nat \<times> 'r registry" where
  "snapshotRenderers g =
     (regNext g, g\<lparr>regMaps := (regMaps g)(regNext g := liveMap g), regNext := Suc (regNext g)\<rparr>)"

definition restoreRenderers :: "nat \<Rightarrow> 'r registry \<Rightarrow> 'r registry" where
  "restoreRenderers a g =
     g\<lparr>regMaps := (regMaps g)(regNext g := regMaps g a), regLive := regNext g,
       regNext := Suc (regNext g)\<rparr>"

definition knownFormat :: "Format \<Rightarrow> bool" where
  "knownFormat f \<longleftrightarrow> f = FormatHuman \<or> f = FormatJSON \<or> f = FormatSARIF \<or> f = FormatPrometheus"

definition writeTo ::
    "'w renderer registry \<Rightarrow> report \<Rightarrow> 'w \<Rightarrow> Format \<Rightarrow> (int \<times> goerr option) \<times> 'w" where
  "writeTo g rep w f =
     (if \<not> knownFormat f
      then ((0, Some (wrapErr [] (sentinelErr ErrUnknownFormat) ('': '' @ goQuote f))), w)
      else case liveMap g f of
        None \<Rightarrow> ((0, Some (wrapErr [] (sentinelErr ErrRendererNotRegistered)
                  ('': '' @ goQuote f @ '' (did you forget to import internal/render?)''))), w)
      | Some r \<Rightarrow> r w rep)"

text \<open>
  What callers can do: register, take a snapshot, restore a map they hold, assign into a map
  they hold. \<open>held\<close> are the addresses that \<open>SnapshotRenderers\<close> has handed out.
\<close>

inductive regStep :: "'r registry \<times> nat set \<Rightarrow> 'r registry \<times> nat set \<Rightarrow> bool" where
  reg_register: "regStep (g, held) (register f r g, held)"
| reg_snapshot: "snapshotRenderers g = (a, g') \<Longrightarrow> regStep (g, held) (g', insert a held)"
| reg_restore: "a \<in> held \<Longrightarrow> regStep (g, held) (restoreRenderers a g, held)"
| reg_assign: "a \<in> held \<Longrightarrow> regStep (g, held) (mapAssign a f r g, held)"

text \<open>No map a caller holds is the live one, and \<open>make\<close> never returns an address in use.\<close>

definition regInv :: "'r registry \<times> nat set \<Rightarrow> bool" where
  "regInv s \<longleftrightarrow> regLive (fst s) \<notin> snd s \<and> regLive (fst s) < regNext (fst s)
     \<and> (\<forall>a\<in>snd s. a < regNext (fst s))"

lemma regInv_init: "regInv (emptyRegistry, {})"
  by (simp add: regInv_def emptyRegistry_def)

lemma regStep_inv: "regStep s t \<Longrightarrow> regInv s \<Longrightarrow> regInv t"
  by (induction rule: regStep.induct)
    (auto simp: regInv_def register_def mapAssign_def snapshotRenderers_def restoreRenderers_def
       less_Suc_eq)

lemma regSteps_inv: "regStep\<^sup>*\<^sup>* s t \<Longrightarrow> regInv s \<Longrightarrow> regInv t"
  by (induction rule: rtranclp_induct) (auto intro: regStep_inv)

lemma liveMap_register [simp]: "liveMap (register f r g) = (liveMap g)(f \<mapsto> r)"
  by (simp add: liveMap_def register_def mapAssign_def)

lemma liveMap_assign: "a \<noteq> regLive g \<Longrightarrow> liveMap (mapAssign a f r g) = liveMap g"
  by (simp add: liveMap_def mapAssign_def)

lemma liveMap_snapshot:
  "snapshotRenderers g = (a, g') \<Longrightarrow> regLive g < regNext g \<Longrightarrow> liveMap g' = liveMap g"
  by (auto simp: liveMap_def snapshotRenderers_def)

lemma snapshot_contents: "snapshotRenderers g = (a, g') \<Longrightarrow> regMaps g' a = liveMap g"
  by (auto simp: snapshotRenderers_def)

lemma liveMap_restore [simp]: "liveMap (restoreRenderers a g) = regMaps g a"
  by (simp add: liveMap_def restoreRenderers_def)

subsection \<open>Properties\<close>

text \<open>
  The summary counts. Every counter is the number of results in that state, the
  required bucket counts the required ones only, results in a state that is none of the four
  raise no counter but the total, and the order of the results does not matter.
\<close>

theorem summary_counts:
  "sTotal (newSummary rs) = length rs
   \<and> sPass (newSummary rs) = tally StatePass rs \<and> sFail (newSummary rs) = tally StateFail rs
   \<and> sSkip (newSummary rs) = tally StateSkip rs \<and> sError (newSummary rs) = tally StateError rs
   \<and> sRequired (newSummary rs) = \<lparr>bPass = tallyReq StatePass rs, bFail = tallyReq StateFail rs,
        bError = tallyReq StateError rs\<rparr>
   \<and> sPass (newSummary rs) + sFail (newSummary rs) + sSkip (newSummary rs) + sError (newSummary rs)
       = length (filter (\<lambda>r. knownState (rState r)) rs)
   \<and> newSummary (rev rs) = newSummary rs"
proof -
  have "newSummary (rev rs) = newSummary rs"
    using tally_mset [of "rev rs" rs] tallyReq_mset [of "rev rs" rs] by (simp add: newSummary_tally)
  moreover have "tally StatePass rs + tally StateFail rs + tally StateSkip rs + tally StateError rs
      = length (filter (\<lambda>r. knownState (rState r)) rs)"
    by (rule tally_sum)
  ultimately show ?thesis by (simp add: newSummary_tally)
qed

lemma liveMap_registers:
  "regLive (fold (\<lambda>(f, r). register f r) frs g) = regLive g"
  "a \<noteq> regLive g \<Longrightarrow> regMaps (fold (\<lambda>(f, r). register f r) frs g) a = regMaps g a"
  by (induction frs arbitrary: g) (auto simp: register_def mapAssign_def)

text \<open>
  Snapshots of the renderer registry are copies. In every state callers can bring
  the registry into, assigning into a map handed out by \<open>SnapshotRenderers\<close> leaves the live
  registry as it is, and restoring a snapshot undoes any registrations made since it was taken.
\<close>

theorem registry_isolation:
  assumes "regStep\<^sup>*\<^sup>* (emptyRegistry, {}) (g, held)" and "snapshotRenderers g = (a, g')"
  shows "liveMap (mapAssign a f r g') = liveMap g
    \<and> liveMap (restoreRenderers a (fold (\<lambda>(f, r). register f r) frs g')) = liveMap g
    \<and> (b \<in> held \<longrightarrow> liveMap (mapAssign b f r g) = liveMap g)"
proof -
  have inv: "regInv (g, held)" using regSteps_inv [OF assms(1) regInv_init] .
  then have lt: "regLive g < regNext g" by (simp add: regInv_def)
  have a: "a \<noteq> regLive g'" using assms(2) lt by (auto simp: snapshotRenderers_def)
  have "liveMap (mapAssign a f r g') = liveMap g"
    using liveMap_assign [OF a] liveMap_snapshot [OF assms(2) lt] by simp
  moreover have "liveMap (restoreRenderers a (fold (\<lambda>(f, r). register f r) frs g')) = liveMap g"
    using liveMap_registers(2) [OF a] snapshot_contents [OF assms(2)] by simp
  moreover have "b \<in> held \<longrightarrow> liveMap (mapAssign b f r g) = liveMap g"
    using inv by (auto simp: regInv_def intro: liveMap_assign)
  ultimately show ?thesis by blast
qed

theorem registry_isolation_witness:
  "liveMap (restoreRenderers 1 (register ''json'' (7::nat)
     (snd (snapshotRenderers (register ''human'' 3 emptyRegistry))))) = [''human'' \<mapsto> 3]"
proof -
  let ?g = "register ''human'' (3::nat) emptyRegistry"
  have "regStep\<^sup>*\<^sup>* (emptyRegistry, {}) (?g, {})" by (rule r_into_rtranclp) (rule reg_register)
  moreover have "snapshotRenderers ?g = (1, snd (snapshotRenderers ?g))"
    by (simp add: snapshotRenderers_def register_def mapAssign_def emptyRegistry_def)
  ultimately have "liveMap (restoreRenderers 1 (fold (\<lambda>(f, r). register f r) [(''json'', 7)]
      (snd (snapshotRenderers ?g)))) = liveMap ?g"
    by (rule registry_isolation [THEN conjunct2, THEN conjunct1])
  moreover have "liveMap (emptyRegistry :: nat registry) = Map.empty"
    by (simp add: liveMap_def emptyRegistry_def)
  ultimately show ?thesis by simp
qed

end
