(* ===== verification/Exec.thy ===== *)
theory Exec
  imports GoErrors
begin

text \<open>
  Package \<open>internal/exec\<close>: argument validation (\<open>arg.go\<close>), the command allowlist
  (\<open>allowlist.go\<close>), the bounded capture buffer and the runners (\<open>runner.go\<close>, \<open>cmd.go\<close>).
  The operating system (what \<open>os.Stat\<close>, \<open>exec.LookPath\<close> and a spawned process do) is a
  parameter: the record \<open>osEnv\<close>. A runner is a function of a state of its own, so that the
  recording \<open>FakeRunner\<close> and the production runner have one type.
\<close>

subsection \<open>Arguments\<close>

datatype arg = Trusted string | Untrusted string

fun argString :: "arg \<Rightarrow> string" where
  "argString (Trusted s) = s"
| "argString (Untrusted s) = s"

text \<open>The character class of \<open>UntrustedArgRE\<close>\<close>

definition untrustedChar :: "char \<Rightarrow> bool" where
  "untrustedChar c \<longleftrightarrow>
     byteIn 65 90 c \<or> byteIn 97 122 c \<or> byteIn 48 57 c \<or> c \<in> set ''._-/+:=,@''"

definition untrustedArgRE :: "string \<Rightarrow> bool" where
  "untrustedArgRE s \<longleftrightarrow> s \<noteq> [] \<and> list_all untrustedChar s"

definition untrustedPattern :: string where
  "untrustedPattern = ''^[A-Za-z0-9._'' @ [CHR 0x5C] @ ''-/+:=,@]+$''"

fun validate :: "arg \<Rightarrow> goerr option" where
  "validate (Trusted s) = None"
| "validate (Untrusted s) =
     (if \<not> untrustedArgRE s
      then Some (wrapErr [] (sentinelErr ErrInvalidArg)
             ('': '' @ goQuote s @ '' (allowed pattern: '' @ untrustedPattern @ '')''))
      else if prefix ''-'' s
      then Some (wrapErr [] (sentinelErr ErrInvalidArg)
             ('': '' @ goQuote s @ '' starts with '' @ [CHR 0x27] @ ''-'' @ [CHR 0x27] @ '' (flag-injection guard)''))
      else None)"

fun validateAll :: "arg list \<Rightarrow> goerr option" where
  "validateAll [] = None"
| "validateAll (a # as) = (case validate a of Some e \<Rightarrow> Some e | None \<Rightarrow> validateAll as)"

definition stringifyArgs :: "arg list \<Rightarrow> string list" where
  "stringifyArgs as = map argString as"

subsection \<open>The allowlist\<close>

definition allowedCommands :: "(string \<times> string) list" where
  "allowedCommands =
    [(''modprobe'', ''/sbin/modprobe''), (''lsmod'', ''/sbin/lsmod''), (''uname'', ''/bin/uname''),
     (''rpm'', ''/usr/bin/rpm''), (''dpkg'', ''/usr/bin/dpkg''),
     (''dpkg-query'', ''/usr/bin/dpkg-query''), (''debsums'', ''/usr/bin/debsums''),
     (''sha256sum'', ''/usr/bin/sha256sum'')]"

subsection \<open>Commands and results\<close>

record cmd =
  cName :: string
  cArgs :: "arg list"
  cEnv :: "string list option"
  cTimeout :: int

definition mkCmd :: "string \<Rightarrow> arg list \<Rightarrow> cmd" where
  "mkCmd n as = \<lparr>cName = n, cArgs = as, cEnv = None, cTimeout = 0\<rparr>"

record execResult =
  xPath :: string
  xStdout :: string
  xStderr :: string
  xDuration :: int
  xExitCode :: int
  xTruncated :: bool

definition zeroExecResult :: execResult where
  "zeroExecResult = \<lparr>xPath = [], xStdout = [], xStderr = [], xDuration = 0, xExitCode = 0,
     xTruncated = False\<rparr>"

definition maxOutput :: int where
  "maxOutput = 1048576"

definition defaultTimeout :: int where
  "defaultTimeout = 30 * 1000000000"

definition cmdTimeout :: "cmd \<Rightarrow> int" where
  "cmdTimeout c = (if cTimeout c \<le> 0 then defaultTimeout else cTimeout c)"

subsection \<open>The capped buffer\<close>

record cappedBuffer =
  cbBytes :: string
  cbCap :: int
  cbTruncated :: bool

definition newCapped :: "int \<Rightarrow> cappedBuffer" where
  "newCapped n = \<lparr>cbBytes = [], cbCap = n, cbTruncated = False\<rparr>"

text \<open>\<open>Write\<close>: the count it reports, its error, and the buffer after it\<close>

definition cbWrite :: "cappedBuffer \<Rightarrow> string \<Rightarrow> (int \<times> goerr option) \<times> cappedBuffer" where
  "cbWrite b p =
     (if cbTruncated b then ((int (length p), None), b)
      else let remaining = cbCap b - int (length (cbBytes b)) in
        if remaining \<le> 0 then ((int (length p), None), b\<lparr>cbTruncated := True\<rparr>)
        else if int (length p) > remaining
          then ((int (length p), None),
                b\<lparr>cbBytes := cbBytes b @ take (nat remaining) p, cbTruncated := True\<rparr>)
        else ((int (length p), None), b\<lparr>cbBytes := cbBytes b @ p\<rparr>))"

fun cbWrites :: "cappedBuffer \<Rightarrow> string list \<Rightarrow> cappedBuffer" where
  "cbWrites b [] = b"
| "cbWrites b (p # ps) = cbWrites (snd (cbWrite b p)) ps"

subsection \<open>Durations as \<open>time.Duration.String\<close> prints them\<close>

definition zeroPad :: "nat \<Rightarrow> string \<Rightarrow> string" where
  "zeroPad n s = replicate (n - length s) (CHR ''0'') @ s"

definition fracDigits :: "nat \<Rightarrow> nat \<Rightarrow> string" where
  "fracDigits v prec =
     (let ds = trimRightSet (\<lambda>c. c = CHR ''0'') (zeroPad prec (showNat (v mod 10 ^ prec)))
      in if ds = [] then [] else CHR ''.'' # ds)"

definition durationString :: "int \<Rightarrow> string" where
  "durationString d =
     (let u = nat \<bar>d\<bar>; sign = (if d < 0 then ''-'' else []) in
      if u = 0 then ''0s''
      else if u < 1000 then sign @ showNat u @ ''ns''
      else if u < 1000000 then sign @ showNat (u div 1000) @ fracDigits u 3 @ [CHR 0xC2, CHR 0xB5] @ ''s''
      else if u < 1000000000 then sign @ showNat (u div 1000000) @ fracDigits u 6 @ ''ms''
      else
        let secs = u div 1000000000; mins = secs div 60; hours = mins div 60;
            stext = showNat (secs mod 60) @ fracDigits u 9 @ ''s'' in
        sign @ (if hours > 0 then showNat hours @ ''h'' else [])
             @ (if mins > 0 then showNat (mins mod 60) @ ''m'' else []) @ stext)"

subsection \<open>Running a process\<close>

text \<open>
  What one spawned process does, as \<open>os/exec\<close> reports it: the chunks it writes to its two
  streams, the error of \<open>Cmd.Run\<close>, the exit code (\<^const>\<open>None\<close> when \<open>ProcessState\<close> is nil),
  whether the run's context ended with \<open>DeadlineExceeded\<close>, and how long it took.
\<close>

record procOutcome =
  poStdout :: "string list"
  poStderr :: "string list"
  poRunErr :: "goerr option"
  poExit :: "int option"
  poDeadline :: bool
  poDuration :: int

record 's osEnv =
  statOK :: "string \<Rightarrow> bool"
  lookPath :: "string \<Rightarrow> goerr + string"
  pathVar :: string
  spawn :: "'s \<Rightarrow> string \<Rightarrow> string list \<Rightarrow> string list \<Rightarrow> int \<Rightarrow> procOutcome \<times> 's"

definition resolveCommand :: "'s osEnv \<Rightarrow> string \<Rightarrow> goerr + string" where
  "resolveCommand env name =
     (case map_of allowedCommands name of
        None \<Rightarrow> Inl (wrapErr [] (sentinelErr ErrCommandDenied)
                 ('': '' @ goQuote name @ '' (add to allowedCommands with security review)''))
      | Some preferred \<Rightarrow>
          if statOK env preferred then Inr preferred
          else (case lookPath env name of
              Inl e \<Rightarrow> Inl (wrapErr [] (sentinelErr ErrCommandNotFound)
                        ('': '' @ goQuote name @ '' (preferred='' @ preferred @
                         '', PATH lookup failed: '' @ errMsg e @ '')''))
            | Inr resolved \<Rightarrow> Inr resolved))"

definition procResult :: "procOutcome \<Rightarrow> string \<Rightarrow> execResult" where
  "procResult po path =
     (let out = cbWrites (newCapped maxOutput) (poStdout po);
          er = cbWrites (newCapped maxOutput) (poStderr po) in
      \<lparr>xPath = path, xStdout = cbBytes out, xStderr = cbBytes er, xDuration = poDuration po,
       xExitCode = (case poExit po of None \<Rightarrow> -1 | Some c \<Rightarrow> c),
       xTruncated = (cbTruncated out \<or> cbTruncated er)\<rparr>)"

definition procError :: "procOutcome \<Rightarrow> string \<Rightarrow> bool \<Rightarrow> goerr option" where
  "procError po path truncated =
     (if poDeadline po
      then Some (wrapErr [] (sentinelErr ErrTimeout) ('': after '' @ durationString (poDuration po)))
      else case poRunErr po of
        Some e \<Rightarrow>
          let wrapped = wrapErr (''exec '' @ path @ '': '') e [] in
          if truncated then Some (joinErrs [sentinelErr ErrOutputTruncated, wrapped]) else Some wrapped
      | None \<Rightarrow> if truncated then Some (sentinelErr ErrOutputTruncated) else None)"

definition runProcess ::
    "'s osEnv \<Rightarrow> 's \<Rightarrow> string \<Rightarrow> string list \<Rightarrow> string list \<Rightarrow> int \<Rightarrow> (execResult \<times> goerr option) \<times> 's" where
  "runProcess env s path args vars timeout =
     (case spawn env s path args vars timeout of
        (po, s') \<Rightarrow> let res = procResult po path in ((res, procError po path (xTruncated res)), s'))"

subsection \<open>The runners\<close>

type_synonym 's runner = "'s \<Rightarrow> cmd \<Rightarrow> (execResult \<times> goerr option) \<times> 's"

definition osRun :: "'s osEnv \<Rightarrow> 's runner" where
  "osRun env s c =
     (case resolveCommand env (cName c) of
        Inl e \<Rightarrow> ((zeroExecResult\<lparr>xExitCode := -1\<rparr>, Some e), s)
      | Inr path \<Rightarrow>
          (case validateAll (cArgs c) of
             Some e \<Rightarrow> ((zeroExecResult\<lparr>xPath := path, xExitCode := -1\<rparr>, Some e), s)
           | None \<Rightarrow>
               let vars = (case cEnv c of Some vs \<Rightarrow> vs | None \<Rightarrow> [''PATH='' @ pathVar env, ''LANG=C''])
               in runProcess env s path (stringifyArgs (cArgs c)) vars (cmdTimeout c)))"

record testRunner =
  trArgv0 :: string
  trPrefix :: "string list"
  trEnv :: "string list"

definition testRun :: "'s osEnv \<Rightarrow> testRunner \<Rightarrow> 's runner" where
  "testRun env t s c =
     (case validateAll (cArgs c) of
        Some e \<Rightarrow> ((zeroExecResult\<lparr>xPath := trArgv0 t, xExitCode := -1\<rparr>, Some e), s)
      | None \<Rightarrow> runProcess env s (trArgv0 t) (trPrefix t @ stringifyArgs (cArgs c)) (trEnv t) (cmdTimeout c))"

record fakeRunner =
  frResponses :: "string \<rightharpoonup> execResult"
  frErrors :: "string \<rightharpoonup> goerr option"
  frCalls :: "cmd list"

definition fakeKey :: "cmd \<Rightarrow> string" where
  "fakeKey c = join '' '' (cName c # map argString (cArgs c))"

definition fakeRun :: "fakeRunner runner" where
  "fakeRun f c =
     (let f' = f\<lparr>frCalls := frCalls f @ [c]\<rparr>; key = fakeKey c in
      case frErrors f key of
        Some err \<Rightarrow>
          (case frResponses f key of
             Some res \<Rightarrow> ((res, err), f')
           | None \<Rightarrow> ((zeroExecResult, err), f'))
      | None \<Rightarrow>
          (case frResponses f key of
             Some res \<Rightarrow> ((res, None), f')
           | None \<Rightarrow> ((zeroExecResult,
                      Some (plainErr (''FakeRunner: no canned response for key '' @ goQuote key))), f')))"

subsection \<open>Validation\<close>

definition safeArg :: "string \<Rightarrow> bool" where
  "safeArg s \<longleftrightarrow> s \<noteq> [] \<and> hd s \<noteq> CHR ''-'' \<and> list_all untrustedChar s"

lemma validate_Untrusted_None: "validate (Untrusted s) = None \<longleftrightarrow> safeArg s"
  by (cases s) (auto simp: safeArg_def untrustedArgRE_def)

lemma validate_error: "validate a = Some e \<Longrightarrow> errIs e ErrInvalidArg"
  by (cases a) (auto split: if_splits)

lemma validateAll_None: "validateAll as = None \<longleftrightarrow> (\<forall>a\<in>set as. validate a = None)"
  by (induction as) (auto split: option.splits)

lemma validateAll_error: "validateAll as = Some e \<Longrightarrow> errIs e ErrInvalidArg"
  by (induction as) (auto split: option.splits dest: validate_error)

lemma validateAll_safe: "validateAll as = None \<Longrightarrow> Untrusted u \<in> set as \<Longrightarrow> safeArg u"
  by (metis validateAll_None validate_Untrusted_None)

lemma validate_no_error [simp]: "safeArg s \<Longrightarrow> validate (Untrusted s) = None"
  by (rule validate_Untrusted_None [THEN iffD2])

lemma validate_unsafe: "\<not> safeArg s \<Longrightarrow> \<exists>e. validate (Untrusted s) = Some e \<and> errIs e ErrInvalidArg"
  by (metis not_None_eq validate_Untrusted_None validate_error)

declare validate.simps(2) [simp del]

subsection \<open>Runners that validate, and runners that record\<close>

text \<open>
  The law of a runner that executes commands: one whose arguments do not validate is refused
  with an error, nothing is captured and the runner's state (the outside world) is unchanged.
\<close>

locale validating_runner =
  fixes run :: "'s runner"
  assumes refuses: "validateAll (cArgs c) = Some e \<Longrightarrow>
    \<exists>r e'. run s c = ((r, Some e'), s) \<and> xStdout r = [] \<and> xStderr r = []"
begin

lemma effect_needs_valid_args: "snd (run s c) \<noteq> s \<Longrightarrow> validateAll (cArgs c) = None"
proof (rule ccontr)
  assume eff: "snd (run s c) \<noteq> s" and "validateAll (cArgs c) \<noteq> None"
  then obtain e where "validateAll (cArgs c) = Some e" by blast
  from refuses [OF this, of s] eff show False by auto
qed

lemma effect_needs_safe_args: "snd (run s c) \<noteq> s \<Longrightarrow> Untrusted u \<in> set (cArgs c) \<Longrightarrow> safeArg u"
  by (blast intro: validateAll_safe dest: effect_needs_valid_args)

lemma success_needs_safe_args:
  "run s c = ((r, None), s') \<Longrightarrow> Untrusted u \<in> set (cArgs c) \<Longrightarrow> safeArg u"
  by (metis not_None_eq option.distinct(1) prod.inject refuses validateAll_safe)

lemma output_needs_safe_args:
  "run s c = ((r, e), s') \<Longrightarrow> xStdout r \<noteq> [] \<Longrightarrow> Untrusted u \<in> set (cArgs c) \<Longrightarrow> safeArg u"
  by (metis not_None_eq prod.inject refuses validateAll_safe)

end

text \<open>The law of a runner that keeps a record of what it was handed.\<close>

locale recording_runner =
  fixes run :: "'s runner" and calls :: "'s \<Rightarrow> cmd list"
  assumes records: "calls (snd (run s c)) = calls s @ [c]"

interpretation os_runner: validating_runner "osRun env" for env
  by unfold_locales (auto simp: osRun_def zeroExecResult_def split: sum.splits)

interpretation test_runner: validating_runner "testRun env t" for env t
  by unfold_locales (auto simp: testRun_def zeroExecResult_def)

interpretation fake_runner: recording_runner fakeRun frCalls
  by unfold_locales (auto simp: fakeRun_def Let_def split: option.splits)

subsection \<open>The capped buffer keeps a prefix\<close>

definition cbInv :: "cappedBuffer \<Rightarrow> string \<Rightarrow> bool" where
  "cbInv b w \<longleftrightarrow> cbBytes b = take (nat (cbCap b)) w \<and> (cbTruncated b \<longleftrightarrow> int (length w) > cbCap b)"

lemma cbWrite_count: "fst (cbWrite b p) = (int (length p), None)"
  by (simp add: cbWrite_def Let_def)

lemma cbWrite_cap [simp]: "cbCap (snd (cbWrite b p)) = cbCap b"
  by (simp add: cbWrite_def Let_def)

lemma cbWrite_inv:
  assumes "cbInv b w" and "0 \<le> cbCap b" and "p \<noteq> []"
  shows "cbInv (snd (cbWrite b p)) (w @ p)"
  using assms
  by (cases p; cases "cbTruncated b") (auto simp: cbInv_def cbWrite_def Let_def nat_diff_distrib)

lemma cbWrites_inv:
  "cbInv b w \<Longrightarrow> 0 \<le> cbCap b \<Longrightarrow> list_all (\<lambda>p. p \<noteq> []) ps \<Longrightarrow> cbInv (cbWrites b ps) (w @ concat ps)"
proof (induction ps arbitrary: b w)
  case (Cons p ps)
  then have "cbInv (snd (cbWrite b p)) (w @ p)" by (simp add: cbWrite_inv)
  from Cons.IH [OF this] Cons.prems show ?case by simp
qed simp

lemma cbWrites_cap [simp]: "cbCap (cbWrites b ps) = cbCap b"
  by (induction ps arbitrary: b) simp_all

lemma newCapped_inv: "0 \<le> n \<Longrightarrow> cbInv (newCapped n) []"
  by (simp add: cbInv_def newCapped_def)

text \<open>Whatever the chunks are, empty ones included, the buffer holds the prefix that fits.\<close>

lemma cbWrite_bytes:
  assumes "cbBytes b = take (nat (cbCap b)) w" and "0 \<le> cbCap b"
    and "cbTruncated b \<Longrightarrow> cbCap b \<le> int (length w)"
  shows "cbBytes (snd (cbWrite b p)) = take (nat (cbCap b)) (w @ p)"
    and "cbTruncated (snd (cbWrite b p)) \<Longrightarrow> cbCap b \<le> int (length (w @ p))"
  using assms by (auto simp: cbWrite_def Let_def nat_diff_distrib split: if_splits)

lemma cbWrites_bytes:
  "cbBytes b = take (nat (cbCap b)) w \<Longrightarrow> 0 \<le> cbCap b \<Longrightarrow>
   (cbTruncated b \<Longrightarrow> cbCap b \<le> int (length w)) \<Longrightarrow>
   cbBytes (cbWrites b ps) = take (nat (cbCap b)) (w @ concat ps)"
proof (induction ps arbitrary: b w)
  case (Cons p ps)
  note step = cbWrite_bytes [OF Cons.prems(1,2), of p]
  show ?case
    using Cons.IH [of "snd (cbWrite b p)" "w @ p"] Cons.prems step by simp
qed simp

lemma newCapped_bytes: "0 \<le> n \<Longrightarrow> cbBytes (cbWrites (newCapped n) ps) = take (nat n) (concat ps)"
  using cbWrites_bytes [of "newCapped n" "[]" ps] by (simp add: newCapped_def)

text \<open>
  Property C17: only an allowlisted command whose untrusted arguments are all non-empty, do not
  begin with a dash and consist of characters of the safe set ever has an effect on the outside
  world through the production runner.
\<close>

theorem os_runner_gate:
  assumes "snd (osRun env s c) \<noteq> s"
  shows "cName c \<in> fst ` set allowedCommands \<and> (\<forall>u. Untrusted u \<in> set (cArgs c) \<longrightarrow> safeArg u)"
proof -
  have "\<exists>p. resolveCommand env (cName c) = Inr p"
    using assms by (auto simp: osRun_def split: sum.splits)
  then have "map_of allowedCommands (cName c) \<noteq> None"
    by (auto simp: resolveCommand_def split: option.splits)
  then have "cName c \<in> fst ` set allowedCommands"
    by (simp add: map_of_eq_None_iff)
  with os_runner.effect_needs_safe_args [OF assms] show ?thesis by blast
qed

theorem os_runner_gate_witness:
  "(let env = \<lparr>statOK = (\<lambda>_. True), lookPath = (\<lambda>_. Inl (plainErr [])), pathVar = [],
        spawn = (\<lambda>n p as vs t. (\<lparr>poStdout = [''x''], poStderr = [], poRunErr = None,
           poExit = Some 0, poDeadline = False, poDuration = 5\<rparr>, Suc n))\<rparr>;
        c = mkCmd ''modprobe'' [Trusted ''-n'', Untrusted ''algif_aead''] in
    snd (osRun env (0::nat) c) \<noteq> 0 \<and> safeArg ''algif_aead'')"
proof -
  define env :: "nat osEnv" where "env = \<lparr>statOK = (\<lambda>_. True), lookPath = (\<lambda>_. Inl (plainErr [])),
        pathVar = [], spawn = (\<lambda>n p as vs t. (\<lparr>poStdout = [''x''], poStderr = [], poRunErr = None,
           poExit = Some 0, poDeadline = False, poDuration = 5\<rparr>, Suc n))\<rparr>"
  define c where "c = mkCmd ''modprobe'' [Trusted ''-n'', Untrusted ''algif_aead'']"
  have safe: "safeArg ''algif_aead''" by code_simp
  have eff: "snd (osRun env 0 c) \<noteq> 0"
    using safe by (simp add: osRun_def resolveCommand_def allowedCommands_def env_def c_def mkCmd_def
        runProcess_def Let_def)
  from os_runner_gate [OF eff] have "safeArg ''algif_aead''"
    by (simp add: c_def mkCmd_def)
  with eff show ?thesis by (simp add: env_def c_def Let_def)
qed

text \<open>
  Property C23: a captured stream is the longest prefix of what the process wrote that fits the
  cap, every write is reported as fully consumed, and (the process writing non-empty chunks) the
  truncation flag is set exactly when bytes were dropped.
\<close>

theorem capped_capture:
  assumes "0 \<le> n" and "list_all (\<lambda>p. p \<noteq> []) ps"
  shows "cbBytes (cbWrites (newCapped n) ps) = take (nat n) (concat ps)
    \<and> (cbTruncated (cbWrites (newCapped n) ps) \<longleftrightarrow> int (length (concat ps)) > n)
    \<and> (\<forall>b p. fst (cbWrite b p) = (int (length p), None))"
proof -
  have cap: "cbCap (newCapped n) = n" by (simp add: newCapped_def)
  have "cbInv (cbWrites (newCapped n) ps) ([] @ concat ps)"
    using assms cap by (intro cbWrites_inv newCapped_inv) simp_all
  with cap show ?thesis by (simp add: cbInv_def cbWrite_count)
qed

theorem capped_capture_witness:
  "cbBytes (cbWrites (newCapped 4) [''abc'', ''def'', ''g'']) = ''abcd''
   \<and> cbTruncated (cbWrites (newCapped 4) [''abc'', ''def'', ''g''])"
  using capped_capture [of 4 "[''abc'', ''def'', ''g'']"] by simp

text \<open>
  How a finished process is classified. A deadline outranks everything and is
  reported as \<open>ErrTimeout\<close>. Otherwise the caller sees no error exactly when the process succeeded
  and nothing was cut off, \<open>ErrOutputTruncated\<close> whenever something was, and every sentinel the
  process error wraps even when the output was truncated as well; the result always carries the
  captured prefix of both streams.
\<close>

theorem run_process_classification:
  assumes "runProcess env s path args vars t = ((res, err), s')"
    and "spawn env s path args vars t = (po, s')"
  shows "xStdout res = take (nat maxOutput) (concat (poStdout po))
    \<and> xStderr res = take (nat maxOutput) (concat (poStderr po))
    \<and> (poDeadline po \<longrightarrow> errIsOpt err ErrTimeout)
    \<and> (\<not> poDeadline po \<longrightarrow>
         (err = None \<longleftrightarrow> poRunErr po = None \<and> \<not> xTruncated res)
       \<and> (xTruncated res \<longrightarrow> errIsOpt err ErrOutputTruncated)
       \<and> (\<forall>x. errIsOpt (poRunErr po) x \<longrightarrow> errIsOpt err x))"
proof -
  have res: "res = procResult po path" and err: "err = procError po path (xTruncated res)"
    using assms by (auto simp: runProcess_def Let_def)
  have "0 \<le> maxOutput" by (simp add: maxOutput_def)
  then have "xStdout res = take (nat maxOutput) (concat (poStdout po))"
    and "xStderr res = take (nat maxOutput) (concat (poStderr po))"
    by (simp_all add: res procResult_def Let_def newCapped_bytes)
  moreover have "poDeadline po \<longrightarrow> errIsOpt err ErrTimeout"
    by (simp add: err procError_def)
  moreover have "\<not> poDeadline po \<longrightarrow>
         (err = None \<longleftrightarrow> poRunErr po = None \<and> \<not> xTruncated res)
       \<and> (xTruncated res \<longrightarrow> errIsOpt err ErrOutputTruncated)
       \<and> (\<forall>x. errIsOpt (poRunErr po) x \<longrightarrow> errIsOpt err x)"
    by (auto simp: err procError_def Let_def split: option.splits)
  ultimately show ?thesis by blast
qed

theorem run_process_classification_witness:
  "let po = \<lparr>poStdout = [''ab'', ''c''], poStderr = [], poRunErr = Some (plainErr ''exit status 1''),
             poExit = Some 1, poDeadline = False, poDuration = 5\<rparr>;
       env = \<lparr>statOK = (\<lambda>_. True), lookPath = (\<lambda>_. Inl (plainErr [])), pathVar = [],
              spawn = (\<lambda>n p as vs t. (po, Suc n))\<rparr>;
       out = runProcess env (0::nat) ''/sbin/modprobe'' [] [] 1
   in xStdout (fst (fst out)) = ''abc'' \<and> snd (fst out) \<noteq> None"
proof -
  define po where "po = \<lparr>poStdout = [''ab'', ''c''], poStderr = [],
     poRunErr = Some (plainErr ''exit status 1''), poExit = Some 1, poDeadline = False, poDuration = 5\<rparr>"
  define env :: "nat osEnv" where "env = \<lparr>statOK = (\<lambda>_. True), lookPath = (\<lambda>_. Inl (plainErr [])),
     pathVar = [], spawn = (\<lambda>n p as vs t. (po, Suc n))\<rparr>"
  obtain res err where out: "runProcess env 0 ''/sbin/modprobe'' [] [] 1 = ((res, err), Suc 0)"
    by (simp add: runProcess_def env_def Let_def)
  have "spawn env 0 ''/sbin/modprobe'' [] [] 1 = (po, Suc 0)"
    by (simp add: env_def)
  from run_process_classification [OF out this] have "xStdout res = ''abc''" "err \<noteq> None"
    by (auto simp: po_def maxOutput_def)
  with out show ?thesis by (simp add: env_def po_def Let_def)
qed

end
