(* ===== verification/GoOS.thy ===== *)
theory GoOS
  imports GoErrors
begin

text \<open>
  The operating system as the program sees it through \<open>os\<close> and \<open>path/filepath\<close>: a parameter of
  the model. Each field is one call the code makes, with the error it may return.
\<close>

datatype fileKind = KRegular | KSymlink | KDirectory | KOther

record fileInfo =
  fiKind :: fileKind
  fiSize :: int
  fiMode :: string  \<comment> \<open>\<open>Mode().String()\<close>\<close>

record dirEntry =
  deName :: string
  deInfo :: "goerr + fileInfo"  \<comment> \<open>\<open>Info()\<close>: does not follow links\<close>

record hostFS =
  fsEvalSymlinks :: "string \<Rightarrow> goerr + string"
  fsAbs :: "string \<Rightarrow> goerr + string"
  fsStat :: "string \<Rightarrow> goerr + fileInfo"  \<comment> \<open>follows links\<close>
  fsReadDir :: "string \<Rightarrow> goerr + dirEntry list"
  fsOpen :: "string \<Rightarrow> goerr + reader"
  fsReadFile :: "string \<Rightarrow> goerr + string"

definition isRegular :: "fileInfo \<Rightarrow> bool" where
  "isRegular i \<longleftrightarrow> fiKind i = KRegular"

text \<open>A host with no files, for concrete examples to start from\<close>

definition emptyFS :: hostFS where
  "emptyFS =
     \<lparr>fsEvalSymlinks = (\<lambda>p. Inr p), fsAbs = (\<lambda>p. Inr p),
      fsStat = (\<lambda>p. Inl (sentinelErr FsErrNotExist)),
      fsReadDir = (\<lambda>p. Inl (sentinelErr FsErrNotExist)),
      fsOpen = (\<lambda>p. Inl (sentinelErr FsErrNotExist)),
      fsReadFile = (\<lambda>p. Inl (sentinelErr FsErrNotExist))\<rparr>"

end
