(* ===== verification/ModprobeConf.thy ===== *)
theory ModprobeConf
  imports GoOS
begin

text \<open>
  \<open>internal/kernelmod/conf.go\<close>: the parser of \<open>/etc/modprobe.d/*.conf\<close>. The scan loop's local
  variables are the record \<open>confState\<close>; one turn of the loop is \<open>confStep\<close>, the loop is
  \<open>confLoop\<close>.
\<close>

record confDirective =
  cdSource :: string
  cdModule :: string
  cdKind :: string
  cdArgs :: "string list"
  cdLineNum :: nat

definition confFileSuffix :: string where
  "confFileSuffix = ''.conf''"

definition stripInlineComment :: "string \<Rightarrow> string" where
  "stripInlineComment line =
     (case indexByte CHR ''#'' line of Some idx \<Rightarrow> take idx line | None \<Rightarrow> line)"

definition parseConfDirectiveLine :: "string \<Rightarrow> string \<Rightarrow> nat \<Rightarrow> goerr + confDirective" where
  "parseConfDirectiveLine line source lineNum =
     (case goFields line of
        kind # module # args \<Rightarrow>
          Inr \<lparr>cdSource = source, cdModule = module, cdKind = kind, cdArgs = args,
               cdLineNum = lineNum\<rparr>
      | fs \<Rightarrow> Inl (plainErr (''expected at least 2 fields, got '' @ itoa (int (length fs)))))"

record confState =
  csPending :: string
  csStart :: nat
  csDirectives :: "confDirective list"

definition confInit :: confState where
  "confInit = \<lparr>csPending = [], csStart = 0, csDirectives = []\<rparr>"

definition confParseErr :: "string \<Rightarrow> nat \<Rightarrow> string \<Rightarrow> goerr \<Rightarrow> goerr" where
  "confParseErr source n joined e =
     wrapErr2 [] (sentinelErr ErrParse)
       ('': '' @ source @ '':'' @ itoa (int n) @ '': '' @ goQuote joined @ '': '') e []"

abbreviation backslash :: string where
  "backslash \<equiv> [CHR 0x5C]"

text \<open>
  One line: \<open>raw\<close> is line number \<open>n\<close>. The first component is the error the parser aborts
  with.
\<close>

definition confStep :: "string \<Rightarrow> nat \<Rightarrow> string \<Rightarrow> confState \<Rightarrow> goerr option \<times> confState" where
  "confStep source n raw st =
     (let stripped = trimRightSet blankTab (stripInlineComment raw) in
      if trimSpace stripped = [] then (None, st)
      else if suffix backslash stripped then
        let content = trimSuffix stripped backslash;
            st1 = (if csPending st = [] then st\<lparr>csStart := n\<rparr>
                   else st\<lparr>csPending := csPending st @ '' ''\<rparr>)
        in (None, st1\<lparr>csPending := csPending st1 @ trimRightSet blankTab content\<rparr>)
      else
        let (joined, startLine, st1) =
              (if csPending st \<noteq> []
               then (csPending st @ '' '' @ trimLeftSet blankTab stripped, csStart st,
                     st\<lparr>csPending := [], csStart := 0\<rparr>)
               else (stripped, n, st))
        in case parseConfDirectiveLine joined source startLine of
             Inl e \<Rightarrow> (Some (confParseErr source startLine joined e), st1)
           | Inr d \<Rightarrow> (None, st1\<lparr>csDirectives := csDirectives st1 @ [d]\<rparr>))"

fun confLoop :: "string \<Rightarrow> nat \<Rightarrow> string list \<Rightarrow> confState \<Rightarrow> goerr option \<times> confState" where
  "confLoop source n [] st = (None, st)"
| "confLoop source n (l # ls) st =
     (case confStep source (Suc n) l st of
        (Some e, st') \<Rightarrow> (Some e, st')
      | (None, st') \<Rightarrow> confLoop source (Suc n) ls st')"

text \<open>After the last line: a continuation that was still open is parsed as it stands.\<close>

definition confFinish :: "string \<Rightarrow> confState \<Rightarrow> confDirective list \<times> goerr option" where
  "confFinish source st =
     (if csPending st \<noteq> [] then
        let joined = trimSpace (csPending st) in
        if joined \<noteq> [] then
          (case parseConfDirectiveLine joined source (csStart st) of
             Inl e \<Rightarrow> (csDirectives st, Some (confParseErr source (csStart st) joined e))
           | Inr d \<Rightarrow> (csDirectives st @ [d], None))
        else (csDirectives st, None)
      else (csDirectives st, None))"

definition parseConfReader :: "reader \<Rightarrow> string \<Rightarrow> confDirective list \<times> goerr option" where
  "parseConfReader r source =
     (case confLoop source 0 (scanLines (fst r)) confInit of
        (Some e, st) \<Rightarrow> (csDirectives st, Some e)
      | (None, st) \<Rightarrow>
          (case scannerErr r of
             Some e \<Rightarrow> (csDirectives st, Some (wrapErr (''kernelmod: read '' @ source @ '': '') e []))
           | None \<Rightarrow> confFinish source st))"

definition parseConfFile :: "hostFS \<Rightarrow> string \<Rightarrow> confDirective list \<times> goerr option" where
  "parseConfFile fs path =
     (let resolved1 = (case fsEvalSymlinks fs path of Inl _ \<Rightarrow> path | Inr p \<Rightarrow> p);
          resolved = (case fsAbs fs resolved1 of Inl _ \<Rightarrow> resolved1 | Inr a \<Rightarrow> a)
      in case fsOpen fs resolved of
           Inl e \<Rightarrow> ([], Some (wrapErr (''kernelmod: open '' @ path @ '': '') e []))
         | Inr r \<Rightarrow> parseConfReader r resolved)"

text \<open>
  One directory entry: the directives it contributes and the error recorded for it. \<open>info\<close>
  is the stat information after following a symbolic link.
\<close>

definition confEntry :: "hostFS \<Rightarrow> string \<Rightarrow> dirEntry \<Rightarrow> confDirective list \<times> goerr option" where
  "confEntry fs dir entry =
     (let name = deName entry; path = joinPath [dir, name] in
      if \<not> suffix confFileSuffix name then ([], None)
      else case deInfo entry of
        Inl e \<Rightarrow> ([], Some (wrapErr (''kernelmod: stat '' @ path @ '': '') e []))
      | Inr info \<Rightarrow>
          (case (if fiKind info = KSymlink then fsStat fs path else Inr info) of
             Inl e \<Rightarrow> ([], Some (wrapErr (''kernelmod: stat symlink target '' @ path @ '': '') e []))
           | Inr info' \<Rightarrow> if \<not> isRegular info' then ([], None) else parseConfFile fs path))"

fun confDirLoop :: "hostFS \<Rightarrow> string \<Rightarrow> dirEntry list \<Rightarrow> confDirective list \<Rightarrow> goerr list
    \<Rightarrow> confDirective list \<times> goerr list" where
  "confDirLoop fs dir [] ds errs = (ds, errs)"
| "confDirLoop fs dir (en # ens) ds errs =
     (case confEntry fs dir en of
        (eds, None) \<Rightarrow> confDirLoop fs dir ens (ds @ eds) errs
      | (eds, Some e) \<Rightarrow> confDirLoop fs dir ens (ds @ eds) (errs @ [e]))"

text \<open>
  The names in a directory are distinct, so sorting by name has one outcome, whether or not
  the sort is stable.
\<close>

definition parseConfDir :: "hostFS \<Rightarrow> string \<Rightarrow> confDirective list \<times> goerr option" where
  "parseConfDir fs dir =
     (case fsReadDir fs dir of
        Inl e \<Rightarrow> ([], Some (wrapErr (''kernelmod: read dir '' @ dir @ '': '') e []))
      | Inr entries \<Rightarrow>
          (case confDirLoop fs dir (sort_key deName entries) [] [] of
             (ds, errs) \<Rightarrow> (ds, if errs = [] then None else Some (joinErrs errs))))"

fun installLoop :: "string \<Rightarrow> confDirective list \<Rightarrow> string \<times> bool \<Rightarrow> string \<times> bool" where
  "installLoop module [] acc = acc"
| "installLoop module (d # ds) acc =
     (if cdKind d \<noteq> ''install'' \<or> cdModule d \<noteq> module then installLoop module ds acc
      else installLoop module ds (join '' '' (cdArgs d), True))"

definition installTarget :: "confDirective list \<Rightarrow> string \<Rightarrow> string \<times> bool" where
  "installTarget ds module = installLoop module ds ([], False)"

fun isBlacklisted :: "confDirective list \<Rightarrow> string \<Rightarrow> bool" where
  "isBlacklisted [] module = False"
| "isBlacklisted (d # ds) module =
     (if cdKind d = ''blacklist'' \<and> cdModule d = module then True else isBlacklisted ds module)"

end
