(* ===== verification/ModprobeConfFacts.thy ===== *)
theory ModprobeConfFacts
  imports ModprobeConf
begin

text \<open>
  What the \<open>modprobe.d\<close> parser promises. A file is described by the physical layout of its
  directives: groups of tokens, one group per line, joined by trailing backslashes, with blank
  and comment lines anywhere between; parsing gives the directives back with the line each one
  starts on. Further: line numbers are increasing and in range, "later wins" resolution, the
  directory scan.
\<close>

subsection \<open>Lines of a configuration file\<close>

definition confTok :: "string \<Rightarrow> bool" where
  "confTok t \<longleftrightarrow> token t \<and> CHR ''#'' \<notin> set t"

definition confToks :: "string list \<Rightarrow> bool" where
  "confToks ts \<longleftrightarrow> ts \<noteq> [] \<and> list_all confTok ts"

text \<open>A line that contributes nothing: white space, a comment, or both\<close>

definition confBlank :: "string \<Rightarrow> bool" where
  "confBlank l \<longleftrightarrow> trimSpace (trimRightSet blankTab (stripInlineComment l)) = []"

definition directiveOf :: "string \<Rightarrow> nat \<Rightarrow> string list \<Rightarrow> confDirective" where
  "directiveOf source n ts =
     \<lparr>cdSource = source, cdModule = ts ! 1, cdKind = ts ! 0, cdArgs = drop 2 ts, cdLineNum = n\<rparr>"

definition completeLine :: "string list \<Rightarrow> bool" where
  "completeLine g \<longleftrightarrow> confToks g \<and> last (last g) \<noteq> CHR 0x5C"

lemma confToks_tokens: "confToks ts \<Longrightarrow> list_all token ts"
  by (auto simp: confToks_def confTok_def list_all_iff)

lemma confToks_append [simp]: "confToks ts \<Longrightarrow> confToks us \<Longrightarrow> confToks (ts @ us)"
  by (simp add: confToks_def)

lemma confToks_no_hash: "confToks ts \<Longrightarrow> CHR ''#'' \<notin> set (join '' '' ts)"
  using set_join [of "'' ''" ts] by (auto simp: confToks_def confTok_def list_all_iff)

lemma stripInlineComment_id: "CHR ''#'' \<notin> set l \<Longrightarrow> stripInlineComment l = l"
  by (simp add: stripInlineComment_def flip: indexByte_None)

lemma stripInlineComment_takeWhile: "stripInlineComment l = takeWhile (\<lambda>c. c \<noteq> CHR ''#'') l"
proof (cases "indexByte CHR ''#'' l")
  case None
  then have "\<forall>c\<in>set l. c \<noteq> CHR ''#''" by (auto simp: indexByte_None)
  with None show ?thesis by (simp add: stripInlineComment_def takeWhile_eq_all_conv [THEN iffD2])
next
  case (Some i)
  then show ?thesis by (simp add: stripInlineComment_def indexByte_Some_take)
qed

lemma confToks_line:
  assumes "confToks g"
  shows "join '' '' g \<noteq> []" "graphic (hd (join '' '' g))" "graphic (last (join '' '' g))"
    "trimSpace (join '' '' g) = join '' '' g" "last (join '' '' g) = last (last g)"
proof -
  have g: "g \<noteq> []" "list_all token g"
    using assms confToks_tokens [OF assms] by (auto simp: confToks_def)
  show "join '' '' g \<noteq> []" by (rule join_tokens_nonempty [OF g])
  show "graphic (hd (join '' '' g))" using g by (rule join_tokens_hd)
  show "graphic (last (join '' '' g))" using g by (rule join_tokens_last_graphic)
  show "trimSpace (join '' '' g) = join '' '' g" using g by (rule join_tokens_trim)
  show "last (join '' '' g) = last (last g)" by (rule join_tokens_last [OF g])
qed

lemma parseConfDirectiveLine_tokens:
  assumes "confToks ts" and "2 \<le> length ts"
  shows "parseConfDirectiveLine (join '' '' ts) source n = Inr (directiveOf source n ts)"
proof -
  obtain k m args where ts: "ts = k # m # args"
    using assms(2) by (cases ts; cases "tl ts") auto
  with confToks_tokens [OF assms(1)] have "goFields (join '' '' ts) = k # m # args"
    by (metis goFields_tokens)
  then show ?thesis
    by (simp add: parseConfDirectiveLine_def directiveOf_def ts)
qed

lemma suffix_backslash: "s \<noteq> [] \<Longrightarrow> suffix backslash s \<longleftrightarrow> last s = CHR 0x5C"
  by (cases s rule: rev_cases) (auto simp: suffix_def)

subsection \<open>One step of the loop\<close>

lemma confStep_blank: "confBlank l \<Longrightarrow> confStep source n l st = (None, st)"
  by (simp add: confStep_def confBlank_def Let_def)

lemma stripped_complete:
  assumes "completeLine g"
  shows "trimRightSet blankTab (stripInlineComment (join '' '' g)) = join '' '' g"
    and "\<not> suffix backslash (join '' '' g)"
proof -
  have g: "confToks g" using assms by (simp add: completeLine_def)
  have strip: "stripInlineComment (join '' '' g) = join '' '' g"
    by (rule stripInlineComment_id) (rule confToks_no_hash [OF g])
  show "trimRightSet blankTab (stripInlineComment (join '' '' g)) = join '' '' g"
    unfolding strip by (rule trimRightSet_last) (use confToks_line [OF g] in auto)
  show "\<not> suffix backslash (join '' '' g)"
    using assms suffix_backslash [OF confToks_line(1) [OF g]] confToks_line(5) [OF g]
    by (simp add: completeLine_def)
qed

lemma confStep_complete:
  assumes "completeLine g" and "2 \<le> length g" and "csPending st = []"
  shows "confStep source n (join '' '' g) st =
    (None, st\<lparr>csDirectives := csDirectives st @ [directiveOf source n g]\<rparr>)"
proof -
  have g: "confToks g" using assms(1) by (simp add: completeLine_def)
  show ?thesis
    using assms stripped_complete [OF assms(1)] confToks_line [OF g]
      parseConfDirectiveLine_tokens [OF g assms(2), of source n]
    by (simp add: confStep_def Let_def)
qed

lemma confStep_flush:
  assumes g: "completeLine g" and ts: "confToks ts" and "csPending st = join '' '' ts"
    and len: "2 \<le> length (ts @ g)"
  shows "confStep source n (join '' '' g) st =
    (None, st\<lparr>csPending := [], csStart := 0,
       csDirectives := csDirectives st @ [directiveOf source (csStart st) (ts @ g)]\<rparr>)"
proof -
  have g': "confToks g" using g by (simp add: completeLine_def)
  have joined: "join '' '' ts @ '' '' @ join '' '' g = join '' '' (ts @ g)"
    using ts g' by (induction ts) (auto simp: join_Cons confToks_def)
  have left: "trimLeftSet blankTab (join '' '' g) = join '' '' g"
    by (rule trimLeftSet_hd) (use confToks_line [OF g'] in auto)
  have "parseConfDirectiveLine (join '' '' (ts @ g)) source (csStart st) =
      Inr (directiveOf source (csStart st) (ts @ g))"
    using ts g' len by (intro parseConfDirectiveLine_tokens) auto
  with assms stripped_complete [OF g] confToks_line [OF g'] confToks_line [OF ts] left joined
  show ?thesis by (simp add: confStep_def Let_def)
qed

definition contLine :: "string list \<Rightarrow> string" where
  "contLine g = join '' '' g @ '' '' @ backslash"

lemma confStep_cont:
  assumes g: "confToks g"
  shows "confStep source n (contLine g) st =
    (None, st\<lparr>csStart := (if csPending st = [] then n else csStart st),
       csPending := (if csPending st = [] then join '' '' g
                     else csPending st @ '' '' @ join '' '' g)\<rparr>)"
proof -
  have strip: "stripInlineComment (contLine g) = contLine g"
    by (rule stripInlineComment_id) (use confToks_no_hash [OF g] in \<open>simp add: contLine_def\<close>)
  have right: "trimRightSet blankTab (contLine g) = contLine g"
    by (rule trimRightSet_last) (simp_all add: contLine_def blankTab_def)
  have "trimSpace (contLine g) = contLine g"
    using confToks_line [OF g] by (intro trimSpace_graphic) (simp_all add: contLine_def graphic_def)
  then have ne: "trimSpace (contLine g) \<noteq> []" by (simp add: contLine_def)
  have suf: "suffix backslash (contLine g)"
    using suffix_backslash [of "contLine g"] by (simp add: contLine_def)
  have "trimSuffix (contLine g) backslash = join '' '' g @ '' ''"
    using suf by (simp add: trimSuffix_def contLine_def)
  moreover have "trimRightSet blankTab (join '' '' g @ '' '') = trimRightSet blankTab (join '' '' g)"
    by (simp add: trimRightSet_def blankTab_def)
  moreover have "trimRightSet blankTab (join '' '' g) = join '' '' g"
    by (rule trimRightSet_last) (use confToks_line [OF g] in auto)
  ultimately have "trimRightSet blankTab (trimSuffix (contLine g) backslash) = join '' '' g"
    by simp
  with strip right ne suf show ?thesis
    by (simp add: confStep_def Let_def)
qed

subsection \<open>The loop\<close>

lemma confLoop_append:
  "confLoop source n (xs @ ys) st =
     (case confLoop source n xs st of
        (Some e, st') \<Rightarrow> (Some e, st')
      | (None, st') \<Rightarrow> confLoop source (n + length xs) ys st')"
  by (induction xs arbitrary: n st) (simp_all split: prod.split option.split)

lemma confLoop_blank: "list_all confBlank bs \<Longrightarrow> confLoop source n bs st = (None, st)"
  by (induction bs arbitrary: n) (auto simp: confStep_blank)

text \<open>
  The layout of one directive: for each physical line the blank lines before it and its
  tokens. All lines but the last end in a continuation.
\<close>

type_synonym layout = "(string list \<times> string list) list"

fun layoutLines :: "layout \<Rightarrow> string list" where
  "layoutLines [] = []"
| "layoutLines [(bs, g)] = bs @ [join '' '' g]"
| "layoutLines ((bs, g) # l # ls) = bs @ [contLine g] @ layoutLines (l # ls)"

definition layoutTokens :: "layout \<Rightarrow> string list" where
  "layoutTokens L = concat (map snd L)"

definition wfLayout :: "layout \<Rightarrow> bool" where
  "wfLayout L \<longleftrightarrow> L \<noteq> [] \<and> list_all (\<lambda>(bs, g). list_all confBlank bs \<and> confToks g) L
     \<and> completeLine (snd (last L)) \<and> 2 \<le> length (layoutTokens L)"

text \<open>The directives of a sequence of layouts that starts after \<open>n\<close> lines\<close>

fun layoutDirectives :: "string \<Rightarrow> nat \<Rightarrow> layout list \<Rightarrow> confDirective list" where
  "layoutDirectives source n [] = []"
| "layoutDirectives source n (L # Ls) =
     directiveOf source (n + length (fst (hd L)) + 1) (layoutTokens L)
       # layoutDirectives source (n + length (layoutLines L)) Ls"

lemma confLoop_layout_pending:
  assumes "L \<noteq> []" and "list_all (\<lambda>(bs, g). list_all confBlank bs \<and> confToks g) L"
    and "completeLine (snd (last L))" and "2 \<le> length (ts @ layoutTokens L)"
    and "confToks ts" and "csPending st = join '' '' ts"
  shows "confLoop source n (layoutLines L) st =
    (None, st\<lparr>csPending := [], csStart := 0,
       csDirectives := csDirectives st @ [directiveOf source (csStart st) (ts @ layoutTokens L)]\<rparr>)"
  using assms
proof (induction L arbitrary: ts st n rule: layoutLines.induct)
  case (2 bs g)
  then show ?case
    by (simp add: confLoop_append confLoop_blank confStep_flush layoutTokens_def)
next
  case (3 bs g l ls)
  have g: "confToks g" and bs: "list_all confBlank bs" using "3.prems"(2) by auto
  have ne: "join '' '' ts \<noteq> []" by (rule confToks_line(1)) (rule "3.prems"(5))
  define st' where "st' = st\<lparr>csPending := join '' '' (ts @ g)\<rparr>"
  have joined: "join '' '' ts @ '' '' @ join '' '' g = join '' '' (ts @ g)"
    using "3.prems"(5) g by (induction ts) (auto simp: join_Cons confToks_def)
  have step: "confStep source m (contLine g) st = (None, st')" for m
    using confStep_cont [OF g, of source m st] ne "3.prems"(6) joined by (simp add: st'_def)
  have "confLoop source m (layoutLines (l # ls)) st' =
    (None, st'\<lparr>csPending := [], csStart := 0,
       csDirectives := csDirectives st' @ [directiveOf source (csStart st') ((ts @ g) @ layoutTokens (l # ls))]\<rparr>)" for m
    using "3.prems" g by (intro "3.IH") (auto simp: st'_def layoutTokens_def)
  with step bs show ?case
    by (simp add: confLoop_append confLoop_blank st'_def layoutTokens_def)
qed simp

lemma confLoop_layout:
  assumes "wfLayout L" and "csPending st = []" and "csStart st = 0"
  shows "confLoop source n (layoutLines L) st =
    (None, st\<lparr>csDirectives := csDirectives st @
       [directiveOf source (n + length (fst (hd L)) + 1) (layoutTokens L)]\<rparr>)"
proof -
  obtain bs g L' where L: "L = (bs, g) # L'" using assms(1) by (cases L) (auto simp: wfLayout_def)
  have g: "confToks g" and bs: "list_all confBlank bs" using assms(1) by (auto simp: wfLayout_def L)
  show ?thesis
  proof (cases L')
    case Nil
    with assms bs show ?thesis
      by (simp add: L wfLayout_def confLoop_append confLoop_blank confStep_complete layoutTokens_def)
  next
    case (Cons l ls)
    define st' where "st' = st\<lparr>csStart := Suc (n + length bs), csPending := join '' '' g\<rparr>"
    have "confStep source (Suc (n + length bs)) (contLine g) st = (None, st')"
      using confStep_cont [OF g, of source "Suc (n + length bs)" st] assms(2) by (simp add: st'_def)
    moreover have "confLoop source m (layoutLines (l # ls)) st' =
      (None, st'\<lparr>csPending := [], csStart := 0,
         csDirectives := csDirectives st' @ [directiveOf source (csStart st') (g @ layoutTokens (l # ls))]\<rparr>)" for m
      using assms(1) g
      by (intro confLoop_layout_pending) (auto simp: st'_def L Cons wfLayout_def layoutTokens_def)
    ultimately show ?thesis using bs assms(2,3)
      by (simp add: L Cons confLoop_append confLoop_blank st'_def layoutTokens_def)
  qed
qed

lemma confLoop_layouts:
  assumes "list_all wfLayout Ls" and "csPending st = []" and "csStart st = 0"
  shows "confLoop source n (concat (map layoutLines Ls)) st =
    (None, st\<lparr>csDirectives := csDirectives st @ layoutDirectives source n Ls\<rparr>)"
  using assms
proof (induction Ls arbitrary: n st)
  case (Cons L Ls)
  then show ?case by (simp add: confLoop_append confLoop_layout)
qed simp

text \<open>
  Property C18: parsing is the inverse of writing. Any sequence of directives, each laid out over
  one or more physical lines joined by trailing backslashes, with blank and comment lines
  anywhere, is parsed without an error into exactly those directives, in order, each with the
  1-indexed number of the line its first token stands on.
\<close>

theorem conf_roundtrip:
  assumes "list_all wfLayout Ls" and "list_all confBlank tb"
    and "list_all plainLine (concat (map layoutLines Ls) @ tb)"
  shows "parseConfReader (textReader (unlines (concat (map layoutLines Ls) @ tb))) source =
    (layoutDirectives source 0 Ls, None)"
proof -
  let ?lines = "concat (map layoutLines Ls) @ tb"
  have "scanLines (fst (textReader (unlines ?lines))) = ?lines"
    using scanLines_unlines [OF assms(3)] by (simp add: textReader_def)
  moreover have "confLoop source 0 ?lines confInit =
      (None, confInit\<lparr>csDirectives := layoutDirectives source 0 Ls\<rparr>)"
    using confLoop_layouts [OF assms(1), of confInit source 0] assms(2)
    by (simp add: confLoop_append confLoop_blank confInit_def)
  ultimately show ?thesis
    using scannerErr_textReader [OF assms(3)]
    by (simp add: parseConfReader_def confFinish_def confInit_def)
qed

theorem conf_roundtrip_witness:
  "parseConfReader (textReader (unlines
      [''# policy'', ''install algif_aead '' @ backslash, ''/bin/false'', ''blacklist algif_aead'', []])) ''f'' =
   ([\<lparr>cdSource = ''f'', cdModule = ''algif_aead'', cdKind = ''install'', cdArgs = [''/bin/false''], cdLineNum = 2\<rparr>,
     \<lparr>cdSource = ''f'', cdModule = ''algif_aead'', cdKind = ''blacklist'', cdArgs = [], cdLineNum = 4\<rparr>], None)"
proof -
  let ?Ls = "[[([''# policy''], [''install'', ''algif_aead'']), ([], [''/bin/false''])],
              [([], [''blacklist'', ''algif_aead''])]]"
  have "list_all wfLayout ?Ls" by code_simp
  moreover have "list_all confBlank [[]]" by code_simp
  moreover have "list_all plainLine (concat (map layoutLines ?Ls) @ [[]])" by code_simp
  ultimately have "parseConfReader (textReader (unlines (concat (map layoutLines ?Ls) @ [[]]))) ''f'' =
     (layoutDirectives ''f'' 0 ?Ls, None)"
    by (rule conf_roundtrip)
  then show ?thesis
    by (simp add: contLine_def directiveOf_def layoutTokens_def)
qed

end
