(* ===== verification/ConfProps.thy ===== *)
theory ConfProps
  imports ModprobeConfFacts
begin

text \<open>
  Further theorems on \<open>internal/kernelmod/conf.go\<close>: the first malformed directive, the line
  numbers, how conflicting directives are resolved, and the scan of a directory.
\<close>

subsection \<open>The first malformed directive\<close>

text \<open>
  Property C19: a malformed directive stops the parse where it stands. After any well-formed
  directives (however they are laid out) a line with a single word is an \<open>ErrParse\<close> that names
  the source and that line; the directives before it are returned and nothing after it is read.
\<close>

theorem conf_first_error:
  assumes "list_all wfLayout Ls" and "list_all confBlank bs" and "completeLine [t]"
    and "scanLines (fst r) = concat (map layoutLines Ls) @ bs @ [t] @ rest"
  shows "\<exists>e. parseConfReader r source =
      (layoutDirectives source 0 Ls,
       Some (confParseErr source (length (concat (map layoutLines Ls) @ bs) + 1) t e))
    \<and> errIs (confParseErr source (length (concat (map layoutLines Ls) @ bs) + 1) t e) ErrParse"
proof -
  have tok: "confToks [t]" using assms(3) by (simp add: completeLine_def)
  have fs: "goFields t = [t]"
    using goFields_tokens [OF confToks_tokens [OF tok]] by simp
  have bad: "parseConfDirectiveLine t source n =
      Inl (plainErr (''expected at least 2 fields, got '' @ itoa 1))" for n
    by (simp add: parseConfDirectiveLine_def fs)
  let ?pre = "concat (map layoutLines Ls) @ bs"
  let ?e = "plainErr (''expected at least 2 fields, got '' @ itoa 1)"
  have pre: "confLoop source 0 ?pre confInit =
      (None, confInit\<lparr>csDirectives := layoutDirectives source 0 Ls\<rparr>)"
    using confLoop_layouts [OF assms(1), of confInit source 0] assms(2)
    by (simp add: confLoop_append confLoop_blank confInit_def)
  have step: "confStep source n t (confInit\<lparr>csDirectives := ds\<rparr>) =
      (Some (confParseErr source n t ?e), confInit\<lparr>csDirectives := ds\<rparr>)" for n ds
    using stripped_complete [OF assms(3)] confToks_line [OF tok] bad
    by (simp add: confStep_def confInit_def Let_def)
  have lines: "scanLines (fst r) = ?pre @ t # rest" using assms(4) by simp
  have "confLoop source 0 (scanLines (fst r)) confInit =
      (Some (confParseErr source (length ?pre + 1) t ?e),
       confInit\<lparr>csDirectives := layoutDirectives source 0 Ls\<rparr>)"
    unfolding lines confLoop_append [of source 0 ?pre] pre by (simp add: step)
  then have "parseConfReader r source =
      (layoutDirectives source 0 Ls, Some (confParseErr source (length ?pre + 1) t ?e))"
    by (simp add: parseConfReader_def)
  moreover have "errIs (confParseErr source (length ?pre + 1) t ?e) ErrParse"
    by (simp add: confParseErr_def)
  ultimately show ?thesis by blast
qed

theorem conf_first_error_witness:
  "fst (parseConfReader (textReader (unlines [''blacklist x'', ''oops-alone'', ''blacklist y''])) ''f'') =
   [\<lparr>cdSource = ''f'', cdModule = ''x'', cdKind = ''blacklist'', cdArgs = [], cdLineNum = 1\<rparr>]"
proof -
  let ?r = "textReader (unlines [''blacklist x'', ''oops-alone'', ''blacklist y''])"
  let ?Ls = "[[([], [''blacklist'', ''x''])]]"
  have "list_all wfLayout ?Ls" by code_simp
  moreover have "list_all confBlank []" by simp
  moreover have "completeLine [''oops-alone'']" by code_simp
  moreover have "scanLines (fst ?r) = concat (map layoutLines ?Ls) @ [] @ [''oops-alone''] @ [''blacklist y'']"
    by code_simp
  ultimately show ?thesis
    using conf_first_error [of ?Ls "[]" "''oops-alone''" ?r "[''blacklist y'']" "''f''"]
    by (auto simp: directiveOf_def layoutTokens_def)
qed

subsection \<open>Line numbers\<close>

definition confInv :: "string \<Rightarrow> nat \<Rightarrow> confState \<Rightarrow> bool" where
  "confInv source n st \<longleftrightarrow>
     sorted_wrt (<) (map cdLineNum (csDirectives st))
   \<and> (\<forall>d\<in>set (csDirectives st). cdSource d = source \<and> 0 < cdLineNum d \<and> cdLineNum d \<le> n)
   \<and> (csPending st \<noteq> [] \<longrightarrow> 0 < csStart st \<and> csStart st \<le> n
        \<and> (\<forall>d\<in>set (csDirectives st). cdLineNum d < csStart st))"

lemma parseConfDirectiveLine_fields:
  "parseConfDirectiveLine l source n = Inr d \<Longrightarrow> cdSource d = source \<and> cdLineNum d = n"
  by (auto simp: parseConfDirectiveLine_def split: list.splits)

lemma confInv_init: "confInv source 0 confInit"
  by (simp add: confInv_def confInit_def)

lemma confInv_mono: "confInv source n st \<Longrightarrow> n \<le> m \<Longrightarrow> confInv source m st"
  by (force simp: confInv_def)

lemma confInv_add:
  assumes "confInv source n st" and "cdSource d = source" and "0 < cdLineNum d" "cdLineNum d \<le> n"
    and "\<forall>d'\<in>set (csDirectives st). cdLineNum d' < cdLineNum d" and "csPending st' = []"
    and "csDirectives st' = csDirectives st @ [d]"
  shows "confInv source n st'"
  using assms by (auto simp: confInv_def sorted_wrt_append)

lemma confStep_inv:
  assumes "confInv source n st" and "confStep source (Suc n) raw st = (None, st')"
  shows "confInv source (Suc n) st'"
proof -
  let ?s = "trimRightSet blankTab (stripInlineComment raw)"
  have inv: "confInv source (Suc n) st" by (rule confInv_mono [OF assms(1)]) simp
  have below: "\<forall>d\<in>set (csDirectives st). cdLineNum d < Suc n"
    using assms(1) by (auto simp: confInv_def)
  consider (blank) "trimSpace ?s = []" | (cont) "trimSpace ?s \<noteq> []" "suffix backslash ?s"
    | (flush) "trimSpace ?s \<noteq> []" "\<not> suffix backslash ?s" "csPending st \<noteq> []"
    | (whole) "trimSpace ?s \<noteq> []" "\<not> suffix backslash ?s" "csPending st = []"
    by blast
  then show ?thesis
  proof cases
    case blank
    with assms(2) inv show ?thesis by (simp add: confStep_def Let_def)
  next
    case cont
    let ?b = "trimRightSet blankTab (trimSuffix ?s backslash)"
    from cont assms(2) have st': "st' = (if csPending st = []
        then st\<lparr>csStart := Suc n, csPending := ?b\<rparr> else st\<lparr>csPending := csPending st @ '' '' @ ?b\<rparr>)"
      by (auto simp: confStep_def Let_def)
    show ?thesis
    proof (cases "csPending st = []")
      case True
      with inv below show ?thesis by (simp add: st' confInv_def)
    next
      case False
      with inv show ?thesis by (simp add: st' confInv_def)
    qed
  next
    case flush
    let ?j = "csPending st @ '' '' @ trimLeftSet blankTab ?s"
    show ?thesis
    proof (cases "parseConfDirectiveLine ?j source (csStart st)")
      case (Inl e)
      with flush assms(2) show ?thesis by (simp add: confStep_def Let_def)
    next
      case (Inr d)
      with flush assms(2)
      have "st' = st\<lparr>csPending := [], csStart := 0, csDirectives := csDirectives st @ [d]\<rparr>"
        by (simp add: confStep_def Let_def)
      with flush inv parseConfDirectiveLine_fields [OF Inr] show ?thesis
        by - (rule confInv_add [where d = d and st = st], simp_all add: confInv_def)
    qed
  next
    case whole
    show ?thesis
    proof (cases "parseConfDirectiveLine ?s source (Suc n)")
      case (Inl e)
      with whole assms(2) show ?thesis by (simp add: confStep_def Let_def)
    next
      case (Inr d)
      with whole assms(2) have "st' = st\<lparr>csDirectives := csDirectives st @ [d]\<rparr>"
        by (simp add: confStep_def Let_def)
      with whole inv below parseConfDirectiveLine_fields [OF Inr] show ?thesis
        by - (rule confInv_add [where d = d and st = st], simp_all)
    qed
  qed
qed

lemma confStep_error_directives:
  "confStep source n raw st = (Some e, st') \<Longrightarrow> csDirectives st' = csDirectives st"
  by (auto simp: confStep_def Let_def split: if_splits sum.splits)

text \<open>The invariant of the directives alone, which also holds where the loop aborts\<close>

definition confNumbered :: "string \<Rightarrow> nat \<Rightarrow> confDirective list \<Rightarrow> bool" where
  "confNumbered source n ds \<longleftrightarrow> sorted_wrt (<) (map cdLineNum ds)
   \<and> (\<forall>d\<in>set ds. cdSource d = source \<and> 0 < cdLineNum d \<and> cdLineNum d \<le> n)"

lemma confInv_numbered: "confInv source n st \<Longrightarrow> n \<le> m \<Longrightarrow> confNumbered source m (csDirectives st)"
  by (force simp: confInv_def confNumbered_def)

lemma confLoop_inv:
  "confInv source n st \<Longrightarrow> confLoop source n ls st = (res, st') \<Longrightarrow>
   confNumbered source (n + length ls) (csDirectives st')
   \<and> (res = None \<longrightarrow> confInv source (n + length ls) st')"
proof (induction ls arbitrary: n st)
  case (Cons l ls)
  obtain e1 st1 where step: "confStep source (Suc n) l st = (e1, st1)" by fastforce
  show ?case
  proof (cases e1)
    case None
    with step Cons.prems have "confInv source (Suc n) st1" by (auto intro: confStep_inv)
    with Cons.IH [OF this] Cons.prems(2) step None show ?thesis by auto
  next
    case (Some e)
    with step Cons.prems have "csDirectives st' = csDirectives st" "res = Some e"
      by (auto dest: confStep_error_directives)
    with Cons.prems(1) show ?thesis by (auto intro: confInv_numbered)
  qed
qed (auto intro: confInv_numbered)

lemma confFinish_numbered:
  assumes "confInv source n st"
  shows "confNumbered source n (fst (confFinish source st))"
proof (cases "csPending st \<noteq> [] \<and> trimSpace (csPending st) \<noteq> []")
  case True
  show ?thesis
  proof (cases "parseConfDirectiveLine (trimSpace (csPending st)) source (csStart st)")
    case (Inl e)
    with True assms show ?thesis by (auto simp: confFinish_def Let_def intro: confInv_numbered)
  next
    case (Inr d)
    with True assms parseConfDirectiveLine_fields [OF Inr] show ?thesis
      by (auto simp: confFinish_def Let_def confInv_def confNumbered_def sorted_wrt_append)
  qed
next
  case False
  with assms show ?thesis by (auto simp: confFinish_def Let_def intro: confInv_numbered)
qed

text \<open>
  Provenance. Whatever the reader delivers, every directive returned carries the
  source it was parsed from and a line number of that source (1 up to the number of lines read),
  and the numbers increase strictly from one directive to the next, continuations included.
\<close>

theorem conf_line_numbers:
  "sorted_wrt (<) (map cdLineNum (fst (parseConfReader r source)))
   \<and> list_all (\<lambda>d. cdSource d = source \<and> 0 < cdLineNum d \<and> cdLineNum d \<le> length (scanLines (fst r)))
        (fst (parseConfReader r source))"
proof -
  obtain e st where loop: "confLoop source 0 (scanLines (fst r)) confInit = (e, st)" by fastforce
  from confLoop_inv [OF confInv_init loop]
  have num: "confNumbered source (length (scanLines (fst r))) (csDirectives st)"
    and inv: "e = None \<longrightarrow> confInv source (length (scanLines (fst r))) st" by simp_all
  have "confNumbered source (length (scanLines (fst r))) (fst (parseConfReader r source))"
    using num inv confFinish_numbered loop
    by (auto simp: parseConfReader_def split: option.splits)
  then show ?thesis by (simp add: confNumbered_def list_all_iff)
qed

subsection \<open>Resolving conflicting directives\<close>

definition installs :: "string \<Rightarrow> confDirective \<Rightarrow> bool" where
  "installs m d \<longleftrightarrow> cdKind d = ''install'' \<and> cdModule d = m"

lemma installLoop_last_match:
  "installLoop m ds acc =
     (case last_match (installs m) (\<lambda>d. join '' '' (cdArgs d)) ds of None \<Rightarrow> acc | Some v \<Rightarrow> (v, True))"
proof (induction ds arbitrary: acc)
  case (Cons d ds)
  have "installs m d \<longleftrightarrow> cdKind d = ''install'' \<and> cdModule d = m" by (rule installs_def)
  with Cons show ?case by (auto simp: last_match_Cons split: option.splits)
qed simp

lemma installTarget_last_match:
  "installTarget ds m =
     (case last_match (installs m) (\<lambda>d. join '' '' (cdArgs d)) ds of None \<Rightarrow> ([], False) | Some v \<Rightarrow> (v, True))"
  by (simp add: installTarget_def installLoop_last_match)

lemma isBlacklisted_iff:
  "isBlacklisted ds m \<longleftrightarrow> (\<exists>d\<in>set ds. cdKind d = ''blacklist'' \<and> cdModule d = m)"
  by (induction ds) auto

text \<open>
  The later install directive wins. A target is found exactly when some directive
  installs the module; it is the arguments of the one with no other after it; so appending a
  file's directives overrides the earlier ones exactly when that file has one for the module. A
  blacklist entry can only be added, never overridden.
\<close>

theorem install_later_wins:
  "(snd (installTarget ds m) \<longleftrightarrow> (\<exists>d\<in>set ds. installs m d))
   \<and> (installTarget ds m = (v, True) \<longleftrightarrow>
       (\<exists>us d ws. ds = us @ d # ws \<and> installs m d \<and> v = join '' '' (cdArgs d) \<and> \<not> (\<exists>w\<in>set ws. installs m w)))
   \<and> installTarget (ds @ es) m =
       (if snd (installTarget es m) then installTarget es m else installTarget ds m)
   \<and> isBlacklisted (ds @ es) m = (isBlacklisted ds m \<or> isBlacklisted es m)"
proof -
  let ?lm = "last_match (installs m) (\<lambda>d. join '' '' (cdArgs d))"
  have "snd (installTarget ds m) \<longleftrightarrow> ?lm ds \<noteq> None"
    by (simp add: installTarget_last_match split: option.splits)
  moreover have "installTarget ds m = (v, True) \<longleftrightarrow> ?lm ds = Some v"
    by (auto simp: installTarget_last_match split: option.splits)
  moreover have "installTarget (ds @ es) m =
      (if snd (installTarget es m) then installTarget es m else installTarget ds m)"
    by (auto simp: installTarget_last_match last_match_append split: option.splits)
  moreover have "isBlacklisted (ds @ es) m = (isBlacklisted ds m \<or> isBlacklisted es m)"
    by (auto simp: isBlacklisted_iff)
  moreover have "?lm ds \<noteq> None \<longleftrightarrow> (\<exists>d\<in>set ds. installs m d)"
    by (simp add: last_match_None)
  moreover have "?lm ds = Some v \<longleftrightarrow>
       (\<exists>us d ws. ds = us @ d # ws \<and> installs m d \<and> v = join '' '' (cdArgs d) \<and> \<not> (\<exists>w\<in>set ws. installs m w))"
    by (simp add: last_match_Some)
  ultimately show ?thesis by blast
qed

subsection \<open>The directory\<close>

lemma confDirLoop_concat:
  "confDirLoop fs dir ens ds errs =
     (ds @ concat (map (fst \<circ> confEntry fs dir) ens),
      errs @ List.map_filter (snd \<circ> confEntry fs dir) ens)"
  by (induction ens arbitrary: ds errs) (auto simp: map_filter_simps split: prod.splits option.splits)

text \<open>
  Property C20: the directory scan. The directives are those of the entries in the order of
  their names, whatever order the system lists them in; an entry that fails contributes what it
  parsed and its error, and every other entry is still scanned; an error is returned exactly when
  some entry had one, and it wraps them all.
\<close>

theorem conf_dir_scan:
  assumes "fsReadDir fs dir = Inr ens" and "distinct (map deName ens)"
    and "mset ens' = mset ens" and "sorted (map deName ens')"
  shows "fst (parseConfDir fs dir) = concat (map (fst \<circ> confEntry fs dir) ens')
    \<and> (snd (parseConfDir fs dir) = None \<longleftrightarrow> (\<forall>en\<in>set ens. snd (confEntry fs dir en) = None))
    \<and> (\<forall>en\<in>set ens. \<forall>s. errIsOpt (snd (confEntry fs dir en)) s \<longrightarrow> errIsOpt (snd (parseConfDir fs dir)) s)"
proof -
  have sort: "sort_key deName ens = ens'"
  proof -
    have inj: "inj_on deName (set ens)" using assms(2) by (simp add: distinct_map)
    have "sort_key deName ens = sort_key deName ens'"
      by (rule sort_key_perm_cong [OF inj]) (simp add: assms(3))
    also have "\<dots> = ens'"
      by (rule sort_key_id_if_sorted [OF assms(4)])
    finally show ?thesis .
  qed
  have sets: "set ens' = set ens" using assms(3) by (metis set_mset_mset)
  let ?errs = "List.map_filter (snd \<circ> confEntry fs dir) ens'"
  have errs: "e \<in> set ?errs \<longleftrightarrow> (\<exists>en\<in>set ens. snd (confEntry fs dir en) = Some e)" for e
    by (force simp: set_map_filter_iff sets)
  have dir: "parseConfDir fs dir =
      (concat (map (fst \<circ> confEntry fs dir) ens'), if ?errs = [] then None else Some (joinErrs ?errs))"
    by (simp add: parseConfDir_def assms(1) sort confDirLoop_concat)
  have empty: "?errs = [] \<longleftrightarrow> (\<forall>en\<in>set ens. snd (confEntry fs dir en) = None)"
    by (simp add: map_filter_Nil_iff sets)
  show ?thesis
    unfolding dir using errs empty by (auto simp: errIsOpt_def split: option.splits)
qed

theorem conf_dir_scan_witness:
  "let reg = Inr \<lparr>fiKind = KRegular, fiSize = 1, fiMode = []\<rparr>;
       b = \<lparr>deName = ''b.conf'', deInfo = reg\<rparr>; a = \<lparr>deName = ''a.conf'', deInfo = reg\<rparr>;
       fs = emptyFS\<lparr>fsReadDir := (\<lambda>_. Inr [b, a]),
         fsOpen := (\<lambda>p. if p = ''/d/b.conf'' then Inr (textReader ''blacklist x'')
                        else Inl (sentinelErr FsErrPermission))\<rparr>
   in map cdModule (fst (parseConfDir fs ''/d'')) = [''x'']
      \<and> errIsOpt (snd (parseConfDir fs ''/d'')) FsErrPermission"
proof -
  define reg :: "goerr + fileInfo" where "reg = Inr \<lparr>fiKind = KRegular, fiSize = 1, fiMode = []\<rparr>"
  define b where "b = \<lparr>deName = ''b.conf'', deInfo = reg\<rparr>"
  define a where "a = \<lparr>deName = ''a.conf'', deInfo = reg\<rparr>"
  define fs where "fs = emptyFS\<lparr>fsReadDir := (\<lambda>_. Inr [b, a]),
     fsOpen := (\<lambda>p. if p = ''/d/b.conf'' then Inr (textReader ''blacklist x'')
                    else Inl (sentinelErr FsErrPermission))\<rparr>"
  have paths: "joinPath [''/d'', ''a.conf''] = ''/d/a.conf''" "joinPath [''/d'', ''b.conf''] = ''/d/b.conf''"
    by code_simp+
  have parse: "parseConfReader (textReader ''blacklist x'') ''/d/b.conf'' =
      ([\<lparr>cdSource = ''/d/b.conf'', cdModule = ''x'', cdKind = ''blacklist'', cdArgs = [], cdLineNum = 1\<rparr>], None)"
    by code_simp
  have ea: "fst (confEntry fs ''/d'' a) = []" "errIsOpt (snd (confEntry fs ''/d'' a)) FsErrPermission"
    by (simp_all add: confEntry_def Let_def a_def reg_def confFileSuffix_def suffix_def paths
        isRegular_def parseConfFile_def fs_def emptyFS_def)
  have eb: "map cdModule (fst (confEntry fs ''/d'' b)) = [''x'']"
    by (simp add: confEntry_def Let_def b_def reg_def confFileSuffix_def suffix_def paths
        isRegular_def parseConfFile_def fs_def emptyFS_def parse)
  have "fsReadDir fs ''/d'' = Inr [b, a]" by (simp add: fs_def)
  moreover have "distinct (map deName [b, a])" by (simp add: a_def b_def)
  moreover have "mset [a, b] = mset [b, a]" by simp
  moreover have "sorted (map deName [a, b])" by (simp add: a_def b_def)
  ultimately have "fst (parseConfDir fs ''/d'') = concat (map (fst \<circ> confEntry fs ''/d'') [a, b])
    \<and> (\<forall>en\<in>set [b, a]. \<forall>s. errIsOpt (snd (confEntry fs ''/d'' en)) s \<longrightarrow> errIsOpt (snd (parseConfDir fs ''/d'')) s)"
    using conf_dir_scan [of fs "''/d''" "[b, a]" "[a, b]"] by blast
  with ea eb have "map cdModule (fst (parseConfDir fs ''/d'')) = [''x'']
      \<and> errIsOpt (snd (parseConfDir fs ''/d'')) FsErrPermission"
    by simp
  then show ?thesis by (simp add: fs_def a_def b_def reg_def Let_def)
qed

end
