(* ===== verification/ProcModules.thy ===== *)
theory ProcModules
  imports GoErrors
begin

text \<open>
  \<open>internal/kernelmod/procmodules.go\<close>: the parser of \<open>/proc/modules\<close>, the text form of its
  lines, and the theorems that parsing inverts printing, stops at the first malformed line and
  only ever returns modules in range.
\<close>

record loadedModule =
  lmName :: string
  lmState :: string
  lmUsedBy :: "string list"
  lmSize :: int
  lmRefCount :: int

definition procModulesMinFields :: nat where
  "procModulesMinFields = 5"

fun usedByLoop :: "string list \<Rightarrow> string list" where
  "usedByLoop [] = []"
| "usedByLoop (p # ps) =
     (let q = trimSpace p in if q = [] then usedByLoop ps else q # usedByLoop ps)"

definition parseUsedBy :: "string \<Rightarrow> string list" where
  "parseUsedBy field =
     (if field = ''-'' \<or> field = [] then [] else usedByLoop (splitByte CHR '','' field))"

definition parseProcModulesLine :: "string \<Rightarrow> goerr + loadedModule" where
  "parseProcModulesLine line =
     (let fs = goFields line in
      if length fs < procModulesMinFields
      then Inl (plainErr (''expected at least '' @ itoa (int procModulesMinFields) @
             '' fields, got '' @ itoa (int (length fs))))
      else case parseInt64 (fs ! 1) of
        Inl e \<Rightarrow> Inl (plainErr (''size field '' @ goQuote (fs ! 1) @ '' is not an integer: '' @
                   numErrMsg ''ParseInt'' (fs ! 1) e))
      | Inr sz \<Rightarrow>
          if sz < 0 then Inl (plainErr (''size field '' @ goQuote (fs ! 1) @ '' is negative''))
          else case parseInt64 (fs ! 2) of
            Inl e \<Rightarrow> Inl (plainErr (''refcount field '' @ goQuote (fs ! 2) @
                       '' is not an integer: '' @ numErrMsg ''Atoi'' (fs ! 2) e))
          | Inr refCount \<Rightarrow>
              if refCount < 0
              then Inl (plainErr (''refcount field '' @ goQuote (fs ! 2) @ '' is negative''))
              else Inr \<lparr>lmName = fs ! 0, lmState = fs ! 4, lmUsedBy = parseUsedBy (fs ! 3),
                        lmSize = sz, lmRefCount = refCount\<rparr>)"

definition procMalformed :: "nat \<Rightarrow> string \<Rightarrow> goerr \<Rightarrow> goerr" where
  "procMalformed n raw e =
     wrapErr2 [] (sentinelErr ErrMalformed)
       ('': line '' @ itoa (int n) @ '': '' @ goQuote raw @ '': '') e []"

text \<open>The scan loop: the modules appended to \<open>mods\<close> and the error it aborts with\<close>

fun procLoop :: "nat \<Rightarrow> string list \<Rightarrow> loadedModule list \<Rightarrow> loadedModule list \<times> goerr option" where
  "procLoop n [] mods = (mods, None)"
| "procLoop n (raw # ls) mods =
     (let trimmed = trimSpace raw in
      if trimmed = [] then procLoop (Suc n) ls mods
      else case parseProcModulesLine trimmed of
        Inl e \<Rightarrow> (mods, Some (procMalformed (Suc n) raw e))
      | Inr m \<Rightarrow> procLoop (Suc n) ls (mods @ [m]))"

definition parseProcModules :: "reader \<Rightarrow> loadedModule list \<times> goerr option" where
  "parseProcModules r =
     (case procLoop 0 (scanLines (fst r)) [] of
        (mods, Some e) \<Rightarrow> (mods, Some e)
      | (mods, None) \<Rightarrow>
          (case scannerErr r of
             Some e \<Rightarrow> (mods, Some (wrapErr ''kernelmod: read /proc/modules: '' e []))
           | None \<Rightarrow> (mods, None)))"

fun isLoaded :: "loadedModule list \<Rightarrow> string \<Rightarrow> bool" where
  "isLoaded [] name = False"
| "isLoaded (m # ms) name = (if lmName m = name then True else isLoaded ms name)"

lemma isLoaded_iff: "isLoaded ms name \<longleftrightarrow> name \<in> lmName ` set ms"
  by (induction ms) auto

subsection \<open>The text form\<close>

text \<open>
  What the kernel prints: the dependents each followed by a comma, or a dash; further columns
  (the address, taint flags) after the state.
\<close>

definition showUsedBy :: "string list \<Rightarrow> string" where
  "showUsedBy us = (if us = [] then ''-'' else concat (map (\<lambda>u. u @ '','') us))"

definition showModule :: "loadedModule \<Rightarrow> string list \<Rightarrow> string" where
  "showModule m extra = join '' ''
     ([lmName m, itoa (lmSize m), itoa (lmRefCount m), showUsedBy (lmUsedBy m), lmState m] @ extra)"

definition wfModule :: "loadedModule \<Rightarrow> bool" where
  "wfModule m \<longleftrightarrow> token (lmName m) \<and> token (lmState m)
     \<and> list_all (\<lambda>u. token u \<and> CHR '','' \<notin> set u) (lmUsedBy m)
     \<and> 0 \<le> lmSize m \<and> lmSize m < 2 ^ 63 \<and> 0 \<le> lmRefCount m \<and> lmRefCount m < 2 ^ 63"

lemma usedByLoop_filter: "usedByLoop ps = filter (\<lambda>q. q \<noteq> []) (map trimSpace ps)"
  by (induction ps) (simp_all add: Let_def)

lemma token_showUsedBy: "list_all token us \<Longrightarrow> token (showUsedBy us)"
  by (auto simp: showUsedBy_def token_def graphic_def list_all_iff)

lemma splitByte_commas:
  "\<forall>u\<in>set us. CHR '','' \<notin> set u \<Longrightarrow> splitByte CHR '','' (concat (map (\<lambda>u. u @ '','') us)) = us @ [[]]"
  by (induction us) (auto simp: splitByte_append)

lemma showUsedBy_not_dash: "us \<noteq> [] \<Longrightarrow> showUsedBy us \<noteq> ''-'' \<and> showUsedBy us \<noteq> []"
  by (cases us rule: rev_cases) (auto simp: showUsedBy_def append_eq_Cons_conv)

lemma parseUsedBy_show:
  assumes "list_all (\<lambda>u. token u \<and> CHR '','' \<notin> set u) us"
  shows "parseUsedBy (showUsedBy us) = us"
proof (cases "us = []")
  case True
  then show ?thesis by (simp add: parseUsedBy_def showUsedBy_def)
next
  case False
  have *: "filter (\<lambda>q. q \<noteq> []) (map trimSpace us) = us"
    using assms by (induction us) auto
  have "parseUsedBy (showUsedBy us) = usedByLoop (splitByte CHR '','' (showUsedBy us))"
    using showUsedBy_not_dash [OF False] by (simp add: parseUsedBy_def)
  also have "\<dots> = usedByLoop (us @ [[]])"
    using assms False by (subst showUsedBy_def) (auto simp: splitByte_commas list_all_iff)
  finally show ?thesis by (simp add: usedByLoop_filter *)
qed

lemma showModule_tokens:
  "wfModule m \<Longrightarrow> list_all token extra \<Longrightarrow>
   list_all token ([lmName m, itoa (lmSize m), itoa (lmRefCount m), showUsedBy (lmUsedBy m), lmState m] @ extra)"
  by (auto simp: wfModule_def list_all_iff intro!: token_showUsedBy)

lemma parse_showModule:
  assumes m: "wfModule m" and extra: "list_all token extra"
  shows "parseProcModulesLine (showModule m extra) = Inr m"
proof -
  let ?fs = "[lmName m, itoa (lmSize m), itoa (lmRefCount m), showUsedBy (lmUsedBy m), lmState m] @ extra"
  have "goFields (showModule m extra) = ?fs"
    unfolding showModule_def by (rule goFields_tokens) (rule showModule_tokens [OF assms])
  then show ?thesis
    using m by (simp add: parseProcModulesLine_def procModulesMinFields_def wfModule_def
        parseInt64_itoa parseUsedBy_show Let_def)
qed

lemma trim_showModule:
  "wfModule m \<Longrightarrow> list_all token extra \<Longrightarrow> trimSpace (showModule m extra) = showModule m extra"
  "wfModule m \<Longrightarrow> list_all token extra \<Longrightarrow> showModule m extra \<noteq> []"
  unfolding showModule_def
  by (rule join_tokens_trim, simp, erule (1) showModule_tokens)
    (rule join_tokens_nonempty, simp, erule (1) showModule_tokens)

subsection \<open>The loop\<close>

text \<open>What a line contributes: nothing, a module, or an error\<close>

definition procLine :: "string \<Rightarrow> (goerr + loadedModule) option" where
  "procLine raw = (if trimSpace raw = [] then None else Some (parseProcModulesLine (trimSpace raw)))"

definition procGood :: "string \<Rightarrow> bool" where
  "procGood raw \<longleftrightarrow> (case procLine raw of Some (Inl e) \<Rightarrow> False | _ \<Rightarrow> True)"

definition procModulesOf :: "string list \<Rightarrow> loadedModule list" where
  "procModulesOf ls = concat (map (\<lambda>l. case procLine l of Some (Inr m) \<Rightarrow> [m] | _ \<Rightarrow> []) ls)"

lemma procModulesOf_simps [simp]:
  "procModulesOf [] = []"
  "procModulesOf (l # ls) = (case procLine l of Some (Inr m) \<Rightarrow> [m] | _ \<Rightarrow> []) @ procModulesOf ls"
  by (simp_all add: procModulesOf_def)

lemma procLoop_good:
  "list_all procGood ls \<Longrightarrow> procLoop n ls mods = (mods @ procModulesOf ls, None)"
  by (induction ls arbitrary: n mods)
    (auto simp: procGood_def procLine_def Let_def split: sum.splits if_splits)

lemma procLoop_bad:
  "list_all procGood xs \<Longrightarrow> procLine y = Some (Inl e) \<Longrightarrow>
   procLoop n (xs @ y # ys) mods = (mods @ procModulesOf xs, Some (procMalformed (n + length xs + 1) y e))"
  by (induction xs arbitrary: n mods)
    (auto simp: procGood_def procLine_def Let_def split: sum.splits if_splits)

lemma procLoop_cases:
  obtains (good) "list_all procGood ls" "procLoop n ls mods = (mods @ procModulesOf ls, None)"
  | (bad) xs y ys e where "ls = xs @ y # ys" "list_all procGood xs" "procLine y = Some (Inl e)"
      "procLoop n ls mods = (mods @ procModulesOf xs, Some (procMalformed (n + length xs + 1) y e))"
proof (cases "list_all procGood ls")
  case True
  then show ?thesis using good procLoop_good by blast
next
  case False
  then obtain y where "y \<in> set ls" "\<not> procGood y" by (auto simp: list_all_iff)
  then obtain xs y ys where ls: "ls = xs @ y # ys" "\<not> procGood y" "\<forall>x\<in>set xs. \<not> \<not> procGood x"
    using split_list_first_propE [of ls "\<lambda>l. \<not> procGood l"] by blast
  moreover obtain e where "procLine y = Some (Inl e)"
    using ls(2) by (auto simp: procGood_def split: option.splits sum.splits)
  ultimately show ?thesis using bad [of xs y ys e] procLoop_bad [of xs y e n ys mods]
    by (simp add: list_all_iff)
qed

subsection \<open>Parsing inverts printing\<close>

text \<open>One printed line: blank lines before it, the module, its further columns\<close>

type_synonym moduleEntry = "string list \<times> loadedModule \<times> string list"

definition entryLines :: "moduleEntry \<Rightarrow> string list" where
  "entryLines en = (case en of (bs, m, extra) \<Rightarrow> bs @ [showModule m extra])"

definition wfEntry :: "moduleEntry \<Rightarrow> bool" where
  "wfEntry en = (case en of (bs, m, extra) \<Rightarrow>
     list_all (\<lambda>b. trimSpace b = []) bs \<and> wfModule m \<and> list_all token extra)"

lemma procModulesOf_append [simp]: "procModulesOf (xs @ ys) = procModulesOf xs @ procModulesOf ys"
  by (simp add: procModulesOf_def)

lemma procLine_blank: "trimSpace b = [] \<Longrightarrow> procLine b = None"
  by (simp add: procLine_def)

lemma procModulesOf_blank: "list_all (\<lambda>b. trimSpace b = []) bs \<Longrightarrow> procModulesOf bs = []"
  by (induction bs) (simp_all add: procLine_blank)

lemma procGood_blank: "list_all (\<lambda>b. trimSpace b = []) bs \<Longrightarrow> list_all procGood bs"
  by (auto simp: list_all_iff procGood_def procLine_blank)

lemma procLine_show:
  "wfModule m \<Longrightarrow> list_all token extra \<Longrightarrow> procLine (showModule m extra) = Some (Inr m)"
  by (simp add: procLine_def trim_showModule parse_showModule)

lemma entries_good:
  "list_all wfEntry ens \<Longrightarrow> list_all procGood (concat (map entryLines ens))"
  by (induction ens)
    (auto simp: wfEntry_def entryLines_def procGood_blank procLine_show procGood_def [of "showModule _ _"])

lemma entries_modules:
  "list_all wfEntry ens \<Longrightarrow> procModulesOf (concat (map entryLines ens)) = map (fst \<circ> snd) ens"
  by (induction ens) (auto simp: wfEntry_def entryLines_def procModulesOf_blank procLine_show)

text \<open>
  Property C22: parsing \<open>/proc/modules\<close> inverts printing it. Whatever modules are printed, with
  any further columns and any blank lines between, exactly they come back, in order, without an
  error, over the full range of sizes and reference counts, dependents included.
\<close>

theorem proc_modules_roundtrip:
  assumes "list_all wfEntry ens" and "list_all plainLine (concat (map entryLines ens))"
  shows "parseProcModules (textReader (unlines (concat (map entryLines ens)))) =
    (map (fst \<circ> snd) ens, None)"
  using scanLines_unlines [OF assms(2)] scannerErr_textReader [OF assms(2)]
    procLoop_good [OF entries_good [OF assms(1)], of 0 "[]"] entries_modules [OF assms(1)]
  by (simp add: parseProcModules_def textReader_def)

theorem proc_modules_roundtrip_witness:
  "parseProcModules (textReader (unlines
      [''algif_aead 48 1 af_alg,ccm, Live 0xffffffffc0a5b000'', [], ''zram 0 0 - Loading''])) =
   ([\<lparr>lmName = ''algif_aead'', lmState = ''Live'', lmUsedBy = [''af_alg'', ''ccm''], lmSize = 48,
      lmRefCount = 1\<rparr>,
     \<lparr>lmName = ''zram'', lmState = ''Loading'', lmUsedBy = [], lmSize = 0, lmRefCount = 0\<rparr>], None)"
proof -
  let ?m1 = "\<lparr>lmName = ''algif_aead'', lmState = ''Live'', lmUsedBy = [''af_alg'', ''ccm''],
    lmSize = 48, lmRefCount = 1\<rparr>"
  let ?m2 = "\<lparr>lmName = ''zram'', lmState = ''Loading'', lmUsedBy = [], lmSize = 0, lmRefCount = 0\<rparr>"
  let ?ens = "[([], ?m1, [''0xffffffffc0a5b000'']), ([[]], ?m2, [])]"
  have "list_all wfEntry ?ens" by code_simp
  moreover have "list_all plainLine (concat (map entryLines ?ens))" by code_simp
  ultimately have "parseProcModules (textReader (unlines (concat (map entryLines ?ens)))) =
      (map (fst \<circ> snd) ?ens, None)"
    using proc_modules_roundtrip [of ?ens] by simp
  moreover have "concat (map entryLines ?ens) =
      [''algif_aead 48 1 af_alg,ccm, Live 0xffffffffc0a5b000'', [], ''zram 0 0 - Loading'']"
    by code_simp
  ultimately show ?thesis by simp
qed

text \<open>
  The parser aborts at the first malformed line and says which. The modules of the
  lines before it are returned, none of the lines after it is read, and the error is
  \<open>ErrMalformed\<close> with that line's number.
\<close>

theorem proc_modules_first_error:
  assumes "scanLines (fst r) = xs @ y # ys"
    and "list_all procGood xs" and "procLine y = Some (Inl e)"
  shows "parseProcModules r = (procModulesOf xs, Some (procMalformed (length xs + 1) y e))
    \<and> errIs (procMalformed (length xs + 1) y e) ErrMalformed"
  using procLoop_bad [OF assms(2,3), of 0 ys "[]"] assms(1)
  by (simp add: parseProcModules_def procMalformed_def)

theorem proc_modules_first_error_witness:
  "fst (parseProcModules (textReader (unlines [''zram 1 0 - Live'', [], ''xfs -3 0 - Live'', ''ext4 1 0 - Live''])))
     = [\<lparr>lmName = ''zram'', lmState = ''Live'', lmUsedBy = [], lmSize = 1, lmRefCount = 0\<rparr>]"
proof -
  let ?r = "textReader (unlines [''zram 1 0 - Live'', [], ''xfs -3 0 - Live'', ''ext4 1 0 - Live''])"
  let ?e = "plainErr (''size field '' @ goQuote ''-3'' @ '' is negative'')"
  have "scanLines (fst ?r) = [''zram 1 0 - Live'', []] @ ''xfs -3 0 - Live'' # [''ext4 1 0 - Live'']"
    by code_simp
  moreover have "list_all procGood [''zram 1 0 - Live'', []]" by code_simp
  moreover have "procLine ''xfs -3 0 - Live'' = Some (Inl ?e)" by code_simp
  ultimately have "parseProcModules ?r = (procModulesOf [''zram 1 0 - Live'', []],
      Some (procMalformed (length [''zram 1 0 - Live'', []] + 1) ''xfs -3 0 - Live'' ?e))"
    by (rule proc_modules_first_error [THEN conjunct1])
  moreover have "procModulesOf [''zram 1 0 - Live'', []] =
      [\<lparr>lmName = ''zram'', lmState = ''Live'', lmUsedBy = [], lmSize = 1, lmRefCount = 0\<rparr>]"
    by code_simp
  ultimately show ?thesis by simp
qed

subsection \<open>What is returned is in range\<close>

definition moduleInRange :: "loadedModule \<Rightarrow> bool" where
  "moduleInRange m \<longleftrightarrow> 0 \<le> lmSize m \<and> lmSize m < 2 ^ 63 \<and> 0 \<le> lmRefCount m \<and> lmRefCount m < 2 ^ 63
     \<and> [] \<notin> set (lmUsedBy m)"

lemma parseUsedBy_nonempty: "[] \<notin> set (parseUsedBy f)"
  by (simp add: parseUsedBy_def usedByLoop_filter)

lemma parseProcModulesLine_range: "parseProcModulesLine l = Inr m \<Longrightarrow> moduleInRange m"
proof -
  let ?fs = "goFields l"
  assume "parseProcModulesLine l = Inr m"
  then obtain sz ref where p: "parseInt64 (?fs ! 1) = Inr sz" "parseInt64 (?fs ! 2) = Inr ref"
    and nonneg: "0 \<le> sz" "0 \<le> ref"
    and m: "m = \<lparr>lmName = ?fs ! 0, lmState = ?fs ! 4, lmUsedBy = parseUsedBy (?fs ! 3),
      lmSize = sz, lmRefCount = ref\<rparr>"
    by (simp add: parseProcModulesLine_def Let_def split: if_split_asm sum.split_asm)
  show ?thesis
    using nonneg parseInt64_range [OF p(1)] parseInt64_range [OF p(2)] parseUsedBy_nonempty
    by (simp add: m moduleInRange_def)
qed

lemma procModulesOf_range: "list_all moduleInRange (procModulesOf ls)"
  by (induction ls)
    (auto simp: procLine_def dest: parseProcModulesLine_range split: option.splits sum.splits if_splits)

text \<open>
  Whatever the reader delivers, hostile text and read errors included, every module
  returned has a size and a reference count between 0 and the largest \<open>int64\<close> and no empty
  dependent; and the list is what the lines before the first malformed one contribute.
\<close>

theorem proc_modules_in_range:
  "list_all moduleInRange (fst (parseProcModules r))
   \<and> (\<exists>n. fst (parseProcModules r) = procModulesOf (take n (scanLines (fst r))))"
proof (rule procLoop_cases [of "scanLines (fst r)" 0 "[]"])
  assume "procLoop 0 (scanLines (fst r)) [] = ([] @ procModulesOf (scanLines (fst r)), None)"
  then have eq: "fst (parseProcModules r) = procModulesOf (take (length (scanLines (fst r))) (scanLines (fst r)))"
    by (auto simp: parseProcModules_def split: option.splits)
  show ?thesis unfolding eq using procModulesOf_range by blast
next
  fix xs y ys e
  assume "scanLines (fst r) = xs @ y # ys"
    and "procLoop 0 (scanLines (fst r)) [] = ([] @ procModulesOf xs, Some (procMalformed (0 + length xs + 1) y e))"
  then have eq: "fst (parseProcModules r) = procModulesOf (take (length xs) (scanLines (fst r)))"
    by (simp add: parseProcModules_def)
  show ?thesis unfolding eq using procModulesOf_range by blast
qed

end
