(* ===== verification/Modprobe.thy ===== *)
theory Modprobe
  imports Exec
begin

text \<open>
  \<open>internal/kernelmod/modprobe.go\<close>: the dry run \<open>modprobe -n -v <module>\<close>. Here stand also the
  theorems that an unsafe module name reaches no runner, whichever it is, and that the verdict
  "blocked" is read off the first line of output that is not blank.
\<close>

record dryRun =
  drResolvedTo :: string
  drRawOutput :: string
  drBlocked :: bool

definition blockedTarget :: string where
  "blockedTarget = ''install /bin/false''"

definition zeroDryRun :: dryRun where
  "zeroDryRun = \<lparr>drResolvedTo = [], drRawOutput = [], drBlocked = False\<rparr>"

fun dryRunLoop :: "dryRun \<Rightarrow> string list \<Rightarrow> dryRun" where
  "dryRunLoop dry [] = dry"
| "dryRunLoop dry (line # ls) =
     (let trimmed = trimSpace line in
      if trimmed = [] then dryRunLoop dry ls
      else dry\<lparr>drResolvedTo := trimmed, drBlocked := (trimmed = blockedTarget)\<rparr>)"

definition parseDryRun :: "string \<Rightarrow> dryRun" where
  "parseDryRun stdout = dryRunLoop (zeroDryRun\<lparr>drRawOutput := stdout\<rparr>) (splitByte CHR 0x0A stdout)"

definition modprobeCmd :: "string \<Rightarrow> cmd" where
  "modprobeCmd module = mkCmd ''modprobe'' [Trusted ''-n'', Trusted ''-v'', Untrusted module]"

definition dryRunModule :: "'s runner \<Rightarrow> 's \<Rightarrow> string \<Rightarrow> (dryRun \<times> goerr option) \<times> 's" where
  "dryRunModule run s module =
     (case validate (Untrusted module) of
        Some e \<Rightarrow> ((zeroDryRun, Some (wrapErr (''kernelmod: modprobe -n -v '' @ goQuote module @ '': '') e [])), s)
      | None \<Rightarrow>
          (case run s (modprobeCmd module) of
             ((res, runErr), s') \<Rightarrow>
               let dry = parseDryRun (xStdout res) in
               case runErr of
                 Some e \<Rightarrow> ((dry, Some (wrapErr (''kernelmod: modprobe -n -v '' @ module @ '': '') e [])), s')
               | None \<Rightarrow> ((dry, None), s')))"

subsection \<open>The first line that is not blank\<close>

definition firstOutput :: "string \<Rightarrow> string option" where
  "firstOutput out = find (\<lambda>l. l \<noteq> []) (map trimSpace (splitByte CHR 0x0A out))"

lemma dryRunLoop_find:
  "dryRunLoop d ls = (case find (\<lambda>l. l \<noteq> []) (map trimSpace ls) of
     None \<Rightarrow> d | Some l \<Rightarrow> d\<lparr>drResolvedTo := l, drBlocked := (l = blockedTarget)\<rparr>)"
  by (induction ls) (simp_all add: Let_def)

text \<open>
  The dry run's verdict. The raw output is kept verbatim; the resolved command is
  the first line that is not blank after trimming, empty if there is none; and the module counts
  as blocked exactly when that line is \<open>install /bin/false\<close>.
\<close>

theorem dry_run_verdict:
  "parseDryRun out =
     \<lparr>drResolvedTo = (case firstOutput out of None \<Rightarrow> [] | Some l \<Rightarrow> l), drRawOutput = out,
      drBlocked = (firstOutput out = Some ''install /bin/false'')\<rparr>"
  by (simp add: parseDryRun_def firstOutput_def dryRunLoop_find zeroDryRun_def blockedTarget_def
      split: option.splits)

subsection \<open>The guard\<close>

lemma dryRunModule_unsafe:
  "\<not> safeArg m \<Longrightarrow> \<exists>e. dryRunModule run s m = ((zeroDryRun, Some e), s) \<and> errIs e ErrInvalidArg"
  using validate_unsafe [of m] by (auto simp: dryRunModule_def)

lemma dryRunModule_safe:
  "safeArg m \<Longrightarrow> dryRunModule run s m =
    (case run s (modprobeCmd m) of
       ((res, e), s') \<Rightarrow>
         ((parseDryRun (xStdout res),
           map_option (\<lambda>e. wrapErr (''kernelmod: modprobe -n -v '' @ m @ '': '') e []) e), s'))"
  by (auto simp: dryRunModule_def Let_def split: prod.splits option.splits)

context recording_runner
begin

lemma dryRun_calls:
  "calls (snd (dryRunModule run s m)) = calls s @ (if safeArg m then [modprobeCmd m] else [])"
proof (cases "safeArg m")
  case True
  then show ?thesis
    using records [of s "modprobeCmd m"]
    by (cases "run s (modprobeCmd m)") (auto simp: dryRunModule_safe split: prod.splits)
next
  case False
  with dryRunModule_unsafe [of m run s] show ?thesis by auto
qed

end

text \<open>The dry run as a command, written out: the program \<open>modprobe\<close> with the flags \<open>-n\<close> (do nothing) and \<open>-v\<close>\<close>

abbreviation dryRunCommand :: "string \<Rightarrow> cmd" where
  "dryRunCommand m \<equiv> \<lparr>cName = ''modprobe'', cArgs = [Trusted ''-n'', Trusted ''-v'', Untrusted m], cEnv = None, cTimeout = 0\<rparr>"

lemma modprobeCmd_eq: "modprobeCmd m = dryRunCommand m"
  by (simp add: modprobeCmd_def mkCmd_def)

text \<open>
  Property C21: the injection guard of the dry run. With the recording runner, a safe module name
  makes exactly one call, the program \<open>modprobe\<close> with the arguments \<open>-n\<close>, \<open>-v\<close> and the name as an untrusted one of its own,
  and an unsafe one makes none; with any runner at all a safe name runs that command once and takes the verdict from its
  output, and an unsafe one leaves the runner's state alone and the error is \<open>ErrInvalidArg\<close>.
\<close>

theorem dry_run_guard:
  "frCalls (snd (dryRunModule fakeRun f m)) = frCalls f @ (if safeArg m then
       [\<lparr>cName = ''modprobe'', cArgs = [Trusted ''-n'', Trusted ''-v'', Untrusted m], cEnv = None, cTimeout = 0\<rparr>] else [])
   \<and> (if safeArg m then
        (case run s \<lparr>cName = ''modprobe'', cArgs = [Trusted ''-n'', Trusted ''-v'', Untrusted m], cEnv = None, cTimeout = 0\<rparr> of
           ((res, e), s') \<Rightarrow> snd (dryRunModule run s m) = s' \<and> fst (fst (dryRunModule run s m)) = parseDryRun (xStdout res)
             \<and> (snd (fst (dryRunModule run s m)) = None \<longleftrightarrow> e = None))
      else snd (dryRunModule run s m) = s \<and> errIsOpt (snd (fst (dryRunModule run s m))) ErrInvalidArg)"
  using fake_runner.dryRun_calls [of f m] dryRunModule_unsafe [of m run s]
  by (cases "run s (dryRunCommand m)") (auto simp: modprobeCmd_eq dryRunModule_safe)

end
