(* ===== verification/CheckRunner.thy ===== *)
theory CheckRunner
  imports Report
begin

text \<open>
  Package \<open>check\<close>: the interface \<open>Check\<close> (\<open>check.go\<close>) and the concurrent \<open>Runner\<close>
  (\<open>runner.go\<close>). \<open>Runner.Run\<close> is a transition system: the main goroutine, the dispatcher it
  starts and one worker per dispatched check take atomic steps over the shared state, in any
  interleaving, while the parent context may be cancelled at any moment.
\<close>

subsection \<open>Checks\<close>

text \<open>
  A call of a check's method returns or panics; of the recovered value the runner uses the text
  \<open>%v\<close> prints. What a method does depends on the host and on its context at that moment, which
  is the parameter \<open>'e\<close>.
\<close>

datatype 'a outcome = Ret 'a | Panic string

record 'e check =
  ckID :: string
  ckTitle :: string
  ckDescription :: string
  ckSeverity :: Severity
  ckApplicable :: "'e \<Rightarrow> (bool \<times> string) outcome"
  ckRun :: "'e \<Rightarrow> result outcome"

text \<open>The fields every result starts from\<close>

definition stampResult :: "'e check \<Rightarrow> gotime \<Rightarrow> State \<Rightarrow> result" where
  "stampResult c t st = zeroResult\<lparr>rCheckID := ckID c, rTitle := ckTitle c,
     rSeverity := ckSeverity c, rStartedAt := t, rState := st\<rparr>"

definition panicResult :: "'e check \<Rightarrow> gotime \<Rightarrow> string \<Rightarrow> result" where
  "panicResult c t v = (stampResult c t StateError)
     \<lparr>rDetail := ''check panicked: '' @ v, rErr := ''panic: '' @ v\<rparr>"

definition fillIdentity :: "'e check \<Rightarrow> gotime \<Rightarrow> result \<Rightarrow> result" where
  "fillIdentity c t r = r
     \<lparr>rCheckID := (if rCheckID r = [] then ckID c else rCheckID r),
      rTitle := (if rTitle r = [] then ckTitle c else rTitle r),
      rSeverity := (if rSeverity r = [] then ckSeverity c else rSeverity r),
      rStartedAt := (if rStartedAt r = 0 then t else rStartedAt r)\<rparr>"

text \<open>\<open>e1\<close> is what \<open>Applicable\<close> sees, \<open>e2\<close> what \<open>Run\<close> sees.\<close>

definition executeCheck :: "'e \<Rightarrow> 'e \<Rightarrow> gotime \<Rightarrow> 'e check \<Rightarrow> result" where
  "executeCheck e1 e2 startedAt c =
     (case ckApplicable c e1 of
        Panic v \<Rightarrow> panicResult c startedAt v
      | Ret (ok, reason) \<Rightarrow>
          if \<not> ok then (stampResult c startedAt StateSkip)\<lparr>rDetail := reason\<rparr>
          else (case ckRun c e2 of
              Panic v \<Rightarrow> panicResult c startedAt v
            | Ret res \<Rightarrow> fillIdentity c startedAt res))"

text \<open>\<open>%v\<close> of an error that may be nil\<close>

definition errText :: "goerr option \<Rightarrow> string" where
  "errText e = (case e of None \<Rightarrow> ''<nil>'' | Some e \<Rightarrow> errMsg e)"

definition newCancelledResult :: "'e check \<Rightarrow> gotime \<Rightarrow> goerr option \<Rightarrow> result" where
  "newCancelledResult c now parentErr = (stampResult c now StateError)
     \<lparr>rDetail := ''runner abandoned check: '' @ errText parentErr,
      rErr := (if parentErr \<noteq> None
               then ''check: parent context canceled: '' @ errText parentErr
               else ''context canceled'')\<rparr>"

definition effConcurrency :: "int \<Rightarrow> nat \<Rightarrow> nat" where
  "effConcurrency n numCPU = (if n \<le> 0 then numCPU else nat n)"

subsection \<open>The shared state\<close>

record runState =
  rsResults :: "result list"
  rsCompleted :: "bool list"
  rsFrozen :: bool

text \<open>The worker's critical section\<close>

definition recordResult :: "nat \<Rightarrow> result \<Rightarrow> runState \<Rightarrow> runState" where
  "recordResult i r st =
     (if \<not> rsFrozen st \<and> \<not> rsCompleted st ! i
      then st\<lparr>rsResults := (rsResults st)[i := r], rsCompleted := (rsCompleted st)[i := True]\<rparr>
      else st)"

text \<open>The freezing section of \<open>Run\<close>\<close>

fun backfillLoop :: "gotime \<Rightarrow> goerr option \<Rightarrow> nat \<Rightarrow> 'e check list \<Rightarrow> runState \<Rightarrow> runState" where
  "backfillLoop now err i [] st = st"
| "backfillLoop now err i (c # cs) st =
     (if rsCompleted st ! i then backfillLoop now err (Suc i) cs st
      else backfillLoop now err (Suc i) cs
        (st\<lparr>rsResults := (rsResults st)[i := newCancelledResult c now err],
            rsCompleted := (rsCompleted st)[i := True]\<rparr>))"

definition freezeBackfill :: "gotime \<Rightarrow> goerr option \<Rightarrow> 'e check list \<Rightarrow> runState \<Rightarrow> runState" where
  "freezeBackfill now err checks st = backfillLoop now err 0 checks (st\<lparr>rsFrozen := True\<rparr>)"

subsection \<open>The goroutines\<close>

text \<open>
  A worker: not started, inside \<open>executeCheck\<close>, holding its result before the critical section,
  past it, its token released, and done (\<open>wg.Done\<close>). The deferred calls run in reverse order:
  the token is released before \<open>wg.Done\<close>.
\<close>

datatype worker = Idle | Running | Executed result | Recorded | Released | Finished

datatype dispatcher = Dispatching | Waiting | Closed

datatype mainPhase = Selecting | Selected | Frozen | Returned report

record runSys =
  sysState :: runState
  sysNext :: nat
  sysTokens :: nat
  sysWorkers :: "worker list"
  sysDisp :: dispatcher
  sysMain :: mainPhase
  sysCtx :: "goerr option"

definition emptyReport :: "gotime \<Rightarrow> result list \<Rightarrow> report" where
  "emptyReport generated rs =
     \<lparr>repGenerated = generated, repHost = \<lparr>hHostname = [], hKernelRelease = [], hOSRelease = [], hOSVersion = [], hArch = []\<rparr>,
      repTool = \<lparr>tName = [], tVersion = [], tCommit = [], tBuildDate = []\<rparr>,
      repSchemaVersion = [], repResults = rs, repSummary = newSummary rs\<rparr>"

text \<open>\<open>Run\<close> up to its \<open>select\<close>; with no checks it returns at once.\<close>

definition runInit :: "gotime \<Rightarrow> goerr option \<Rightarrow> 'e check list \<Rightarrow> runSys" where
  "runInit generated ctx checks =
     (let n = length checks in
      \<lparr>sysState = \<lparr>rsResults = replicate n zeroResult, rsCompleted = replicate n False, rsFrozen = False\<rparr>,
       sysNext = 0, sysTokens = 0, sysWorkers = replicate n Idle, sysDisp = Dispatching,
       sysMain = (if checks = [] then Returned (emptyReport generated []) else Selecting),
       sysCtx = ctx\<rparr>)"

text \<open>
  The atomic steps. \<open>W\<close> is the set of environments the host goes through during the run: each
  call of a check's method sees one of them. Taking a token and starting the worker are one step: nothing but the
  dispatcher itself acts between them. \<open>sysTokens\<close> is the number of elements in the channel
  \<open>sem\<close>, whose capacity is the concurrency \<open>k\<close>. The channel \<open>done\<close> is closed in state
  \<^const>\<open>Closed\<close>, once every started worker has called \<open>wg.Done\<close>.
\<close>

inductive runStep :: "'e set \<Rightarrow> gotime \<Rightarrow> nat \<Rightarrow> 'e check list \<Rightarrow> runSys \<Rightarrow> runSys \<Rightarrow> bool"
  for W :: "'e set" and generated :: gotime and k :: nat and checks :: "'e check list" where
  dispatch: "sysDisp s = Dispatching \<Longrightarrow> sysNext s < length checks \<Longrightarrow> sysTokens s < k \<Longrightarrow>
    runStep W generated k checks s
      (s\<lparr>sysTokens := Suc (sysTokens s), sysWorkers := (sysWorkers s)[sysNext s := Running],
         sysNext := Suc (sysNext s)\<rparr>)"
| dispatch_cancelled: "sysDisp s = Dispatching \<Longrightarrow> sysNext s < length checks \<Longrightarrow> sysCtx s \<noteq> None \<Longrightarrow>
    runStep W generated k checks s (s\<lparr>sysDisp := Waiting\<rparr>)"
| dispatch_finished: "sysDisp s = Dispatching \<Longrightarrow> sysNext s = length checks \<Longrightarrow>
    runStep W generated k checks s (s\<lparr>sysDisp := Waiting\<rparr>)"
| close_done: "sysDisp s = Waiting \<Longrightarrow> list_all (\<lambda>w. w = Idle \<or> w = Finished) (sysWorkers s) \<Longrightarrow>
    runStep W generated k checks s (s\<lparr>sysDisp := Closed\<rparr>)"
| work: "i < length checks \<Longrightarrow> sysWorkers s ! i = Running \<Longrightarrow>
    r = (executeCheck e1 e2 t (checks ! i))\<lparr>rDurationMS := d\<rparr> \<Longrightarrow> e1 \<in> W \<Longrightarrow> e2 \<in> W \<Longrightarrow>
    runStep W generated k checks s (s\<lparr>sysWorkers := (sysWorkers s)[i := Executed r]\<rparr>)"
| record_result: "i < length checks \<Longrightarrow> sysWorkers s ! i = Executed r \<Longrightarrow>
    runStep W generated k checks s
      (s\<lparr>sysWorkers := (sysWorkers s)[i := Recorded], sysState := recordResult i r (sysState s)\<rparr>)"
| release: "i < length checks \<Longrightarrow> sysWorkers s ! i = Recorded \<Longrightarrow>
    runStep W generated k checks s
      (s\<lparr>sysWorkers := (sysWorkers s)[i := Released], sysTokens := sysTokens s - 1\<rparr>)"
| wg_done: "i < length checks \<Longrightarrow> sysWorkers s ! i = Released \<Longrightarrow>
    runStep W generated k checks s (s\<lparr>sysWorkers := (sysWorkers s)[i := Finished]\<rparr>)"
| cancel: "sysCtx s = None \<Longrightarrow> runStep W generated k checks s (s\<lparr>sysCtx := Some e\<rparr>)"
| select_done: "sysMain s = Selecting \<Longrightarrow> sysDisp s = Closed \<Longrightarrow>
    runStep W generated k checks s (s\<lparr>sysMain := Selected\<rparr>)"
| select_cancelled: "sysMain s = Selecting \<Longrightarrow> sysCtx s \<noteq> None \<Longrightarrow>
    runStep W generated k checks s (s\<lparr>sysMain := Selected\<rparr>)"
| freeze: "sysMain s = Selected \<Longrightarrow>
    runStep W generated k checks s
      (s\<lparr>sysMain := Frozen, sysState := freezeBackfill now (sysCtx s) checks (sysState s)\<rparr>)"
| return: "sysMain s = Frozen \<Longrightarrow>
    runStep W generated k checks s
      (s\<lparr>sysMain := Returned (emptyReport generated (rsResults (sysState s)))\<rparr>)"

inductive_cases runStepE: "runStep W generated k checks s t"

abbreviation runReaches :: "'e set \<Rightarrow> gotime \<Rightarrow> nat \<Rightarrow> 'e check list \<Rightarrow> runSys \<Rightarrow> runSys \<Rightarrow> bool" where
  "runReaches W generated k checks \<equiv> (runStep W generated k checks)\<^sup>*\<^sup>*"

end
