(* ===== verification/CheckRunnerFacts.thy ===== *)
theory CheckRunnerFacts
  imports CheckRunner
begin

text \<open>
  The runner's guarantees: at most the configured number of checks at once, started in input
  order; a report with one result per check in input order, each either what that check produced
  or a cancellation record; a report no leaked worker can touch; termination.
\<close>

subsection \<open>Executing one check\<close>

definition identityOf :: "'e check \<Rightarrow> result \<Rightarrow> bool" where
  "identityOf c r \<longleftrightarrow> rCheckID r = ckID c \<and> rTitle r = ckTitle c \<and> rSeverity r = ckSeverity c"

lemma stampResult_sel [identity_simps]:
  "rCheckID (stampResult c t st) = ckID c" "rTitle (stampResult c t st) = ckTitle c"
  "rSeverity (stampResult c t st) = ckSeverity c" "rStartedAt (stampResult c t st) = t"
  "rState (stampResult c t st) = st" "rErr (stampResult c t st) = []"
  "rDetail (stampResult c t st) = []" "rEvidence (stampResult c t st) = []"
  by (simp_all add: stampResult_def zeroResult_def)

lemma panicResult_sel [identity_simps]:
  "identityOf c (panicResult c t v)" "rState (panicResult c t v) = StateError"
  "rStartedAt (panicResult c t v) = t" "rErr (panicResult c t v) = ''panic: '' @ v"
  by (simp_all add: identityOf_def panicResult_def identity_simps)

lemma cancelled_sel [identity_simps]:
  "identityOf c (newCancelledResult c now e)" "rState (newCancelledResult c now e) = StateError"
  "rStartedAt (newCancelledResult c now e) = now"
  by (simp_all add: identityOf_def newCancelledResult_def identity_simps)

text \<open>
  The contract of an implementation of \<open>Check\<close>: a result it returns carries the check's identity
  and one of the four states, and an error text exactly when the state is "error".
\<close>

locale conforming_check =
  fixes c :: "'e check"
  assumes run_result: "ckRun c e = Ret r \<Longrightarrow>
    identityOf c r \<and> knownState (rState r) \<and> (rErr r \<noteq> [] \<longleftrightarrow> rState r = StateError)"
    and named: "ckID c \<noteq> []" "ckTitle c \<noteq> []" "ckSeverity c \<noteq> []"
begin

lemma executed_conforms:
  "identityOf c (executeCheck e1 e2 t c) \<and> knownState (rState (executeCheck e1 e2 t c))
   \<and> (rErr (executeCheck e1 e2 t c) \<noteq> [] \<longleftrightarrow> rState (executeCheck e1 e2 t c) = StateError)"
proof (cases "ckApplicable c e1")
  case (Panic v)
  then show ?thesis by (simp add: executeCheck_def identity_simps knownState_def)
next
  case (Ret ar)
  obtain ok reason where ar: "ar = (ok, reason)" by fastforce
  show ?thesis
  proof (cases ok)
    case False
    with Ret ar show ?thesis
      by (simp add: executeCheck_def identityOf_def identity_simps knownState_def)
  next
    case True
    show ?thesis
    proof (cases "ckRun c e2")
      case (Panic v)
      with Ret ar True show ?thesis by (simp add: executeCheck_def identity_simps knownState_def)
    next
      case (Ret r)
      with \<open>ckApplicable c e1 = Ret ar\<close> ar True run_result [OF Ret] named show ?thesis
        by (auto simp: executeCheck_def fillIdentity_def identityOf_def)
    qed
  qed
qed

end

text \<open>The results a worker can produce for a check\<close>

definition workerResult :: "'e set \<Rightarrow> 'e check \<Rightarrow> result \<Rightarrow> bool" where
  "workerResult W c r \<longleftrightarrow> (\<exists>e1\<in>W. \<exists>e2\<in>W. \<exists>t d. r = (executeCheck e1 e2 t c)\<lparr>rDurationMS := d\<rparr>)"

definition cancelledResult :: "'e check \<Rightarrow> goerr option \<Rightarrow> result \<Rightarrow> bool" where
  "cancelledResult c ctx r \<longleftrightarrow> (\<exists>now e. ctx = Some e \<and> r = newCancelledResult c now (Some e))"

text \<open>
  Property C13: executing a check always gives a result that says which check it is. The ID, the title, the severity and the
  start of the result are the check's own and the given time, unless \<open>Run\<close> returned others, which then stand; so the
  result has an ID whenever the check has one. A panic in either method becomes an error result carrying the recovered
  value; a check that does not apply is skipped with its reason, whatever its \<open>Run\<close> would do; otherwise the state, the
  detail, the error and the evidence are those \<open>Run\<close> returned.
\<close>

theorem execute_check_outcomes:
  "(let r = executeCheck e1 e2 t c in
      (ckID c \<noteq> [] \<longrightarrow> rCheckID r \<noteq> [])
      \<and> (case ckApplicable c e1 of
           Panic v \<Rightarrow> (rCheckID r, rTitle r, rSeverity r, rStartedAt r) = (ckID c, ckTitle c, ckSeverity c, t)
             \<and> (rState r, rDetail r, rErr r, rEvidence r) = (''error'', ''check panicked: '' @ v, ''panic: '' @ v, [])
         | Ret (ok, reason) \<Rightarrow>
             if \<not> ok then (rCheckID r, rTitle r, rSeverity r, rStartedAt r) = (ckID c, ckTitle c, ckSeverity c, t)
               \<and> (rState r, rDetail r, rErr r, rEvidence r) = (''skip'', reason, [], [])
               \<and> executeCheck e1 e2 t (c\<lparr>ckRun := any\<rparr>) = r
             else case ckRun c e2 of
               Panic v \<Rightarrow> (rCheckID r, rTitle r, rSeverity r, rStartedAt r) = (ckID c, ckTitle c, ckSeverity c, t)
                 \<and> (rState r, rDetail r, rErr r, rEvidence r) = (''error'', ''check panicked: '' @ v, ''panic: '' @ v, [])
             | Ret q \<Rightarrow> (rState r, rDetail r, rErr r, rEvidence r) = (rState q, rDetail q, rErr q, rEvidence q)
                 \<and> rCheckID r = (if rCheckID q = [] then ckID c else rCheckID q)
                 \<and> rTitle r = (if rTitle q = [] then ckTitle c else rTitle q)
                 \<and> rSeverity r = (if rSeverity q = [] then ckSeverity c else rSeverity q)
                 \<and> rStartedAt r = (if rStartedAt q = 0 then t else rStartedAt q)))"
proof (cases "ckApplicable c e1")
  case (Ret ar)
  obtain ok reason where ar: "ar = (ok, reason)" by fastforce
  then show ?thesis
    using Ret by (cases "ckRun c e2"; cases ok)
      (simp_all add: executeCheck_def panicResult_def fillIdentity_def stampResult_def zeroResult_def)
qed (simp add: executeCheck_def panicResult_def stampResult_def zeroResult_def)

theorem execute_check_outcomes_witness:
  "let c = \<lparr>ckID = ''x'', ckTitle = ''X'', ckDescription = [], ckSeverity = SeverityRequired,
            ckApplicable = (\<lambda>e::nat. Ret (True, [])), ckRun = (\<lambda>e. Panic ''nil map'')\<rparr>
   in rErr (executeCheck 0 0 7 c) = ''panic: nil map'' \<and> rCheckID (executeCheck 0 0 7 c) \<noteq> []"
proof -
  define c :: "nat check" where "c = \<lparr>ckID = ''x'', ckTitle = ''X'', ckDescription = [],
     ckSeverity = SeverityRequired, ckApplicable = (\<lambda>e. Ret (True, [])), ckRun = (\<lambda>e. Panic ''nil map'')\<rparr>"
  have "ckApplicable c 0 = Ret (True, [])" "ckRun c 0 = Panic ''nil map''" "ckID c \<noteq> []"
    by (simp_all add: c_def)
  with execute_check_outcomes [of 0 0 7 c "\<lambda>_. Panic []"] have
    "rErr (executeCheck 0 0 7 c) = ''panic: nil map'' \<and> rCheckID (executeCheck 0 0 7 c) \<noteq> []"
    by (simp add: Let_def)
  then show ?thesis by (simp add: c_def)
qed

subsection \<open>Counting workers\<close>

fun holding :: "worker \<Rightarrow> bool" where
  "holding Running = True"
| "holding (Executed r) = True"
| "holding Recorded = True"
| "holding w = False"

definition holders :: "worker list \<Rightarrow> nat" where
  "holders ws = length (filter holding ws)"

lemma holders_update:
  "i < length ws \<Longrightarrow>
   holders (ws[i := w]) + (if holding (ws ! i) then 1 else 0) = holders ws + (if holding w then 1 else 0)"
proof (induction ws arbitrary: i)
  case (Cons x xs)
  then show ?case by (cases i) (auto simp: holders_def split: if_splits)
qed simp

lemma holders_pos: "i < length ws \<Longrightarrow> holding (ws ! i) \<Longrightarrow> 0 < holders ws"
  by (auto simp: holders_def filter_empty_conv intro: bexI [OF _ nth_mem])

lemma holders_Idle: "holders (replicate n Idle) = 0"
  by (induction n) (simp_all add: holders_def)

subsection \<open>The backfill\<close>

lemma backfillLoop_spec:
  assumes "i + length cs = length (rsResults st)" and "i + length cs = length (rsCompleted st)"
  shows "length (rsResults (backfillLoop now err i cs st)) = length (rsResults st)
    \<and> length (rsCompleted (backfillLoop now err i cs st)) = length (rsCompleted st)
    \<and> rsFrozen (backfillLoop now err i cs st) = rsFrozen st
    \<and> (\<forall>j < i + length cs.
         rsCompleted (backfillLoop now err i cs st) ! j = (i \<le> j \<or> rsCompleted st ! j)
       \<and> rsResults (backfillLoop now err i cs st) ! j =
           (if j < i \<or> rsCompleted st ! j then rsResults st ! j
            else newCancelledResult (cs ! (j - i)) now err))"
  using assms
proof (induction cs arbitrary: i st)
  case (Cons c cs)
  show ?case
  proof (cases "rsCompleted st ! i")
    case True
    with Cons.IH [of "Suc i" st] Cons.prems show ?thesis
      by (auto simp: nth_Cons' le_Suc_eq less_Suc_eq not_less_eq Suc_le_eq elim!: le_neq_implies_less)
  next
    case False
    let ?st = "st\<lparr>rsResults := (rsResults st)[i := newCancelledResult c now err],
                  rsCompleted := (rsCompleted st)[i := True]\<rparr>"
    have IH: "length (rsResults (backfillLoop now err (Suc i) cs ?st)) = length (rsResults ?st)
      \<and> length (rsCompleted (backfillLoop now err (Suc i) cs ?st)) = length (rsCompleted ?st)
      \<and> rsFrozen (backfillLoop now err (Suc i) cs ?st) = rsFrozen ?st
      \<and> (\<forall>j < Suc i + length cs.
         rsCompleted (backfillLoop now err (Suc i) cs ?st) ! j = (Suc i \<le> j \<or> rsCompleted ?st ! j)
       \<and> rsResults (backfillLoop now err (Suc i) cs ?st) ! j =
           (if j < Suc i \<or> rsCompleted ?st ! j then rsResults ?st ! j
            else newCancelledResult (cs ! (j - Suc i)) now err))"
      using Cons.prems by (intro Cons.IH) auto
    with False Cons.prems show ?thesis
      by (auto simp: nth_Cons' nth_list_update less_Suc_eq Suc_le_eq)
  qed
qed auto

lemma freezeBackfill_spec:
  assumes "length (rsResults st) = length checks" and "length (rsCompleted st) = length checks"
  shows "length (rsResults (freezeBackfill now err checks st)) = length checks"
    and "length (rsCompleted (freezeBackfill now err checks st)) = length checks"
    and "rsFrozen (freezeBackfill now err checks st)"
    and "j < length checks \<Longrightarrow> rsCompleted (freezeBackfill now err checks st) ! j"
    and "j < length checks \<Longrightarrow> rsResults (freezeBackfill now err checks st) ! j =
      (if rsCompleted st ! j then rsResults st ! j else newCancelledResult (checks ! j) now err)"
  using backfillLoop_spec [of 0 checks "st\<lparr>rsFrozen := True\<rparr>" now err] assms
  by (simp_all add: freezeBackfill_def)

subsection \<open>The invariant\<close>

fun past :: "worker \<Rightarrow> bool" where
  "past Recorded = True"
| "past Released = True"
| "past Finished = True"
| "past w = False"

text \<open>What holds of slot \<open>i\<close>\<close>

definition slotInv :: "'e set \<Rightarrow> 'e check list \<Rightarrow> runSys \<Rightarrow> nat \<Rightarrow> bool" where
  "slotInv W checks s i \<longleftrightarrow>
     (\<forall>r. sysWorkers s ! i = Executed r \<longrightarrow> workerResult W (checks ! i) r)
   \<and> (rsCompleted (sysState s) ! i \<longrightarrow> workerResult W (checks ! i) (rsResults (sysState s) ! i)
        \<or> cancelledResult (checks ! i) (sysCtx s) (rsResults (sysState s) ! i))
   \<and> (if rsFrozen (sysState s) then rsCompleted (sysState s) ! i
      else (rsCompleted (sysState s) ! i \<longleftrightarrow> past (sysWorkers s ! i)))"

definition sizesInv :: "nat \<Rightarrow> 'e check list \<Rightarrow> runSys \<Rightarrow> bool" where
  "sizesInv k checks s \<longleftrightarrow>
     length (rsResults (sysState s)) = length checks \<and> length (rsCompleted (sysState s)) = length checks
   \<and> length (sysWorkers s) = length checks \<and> sysNext s \<le> length checks
   \<and> (\<forall>i < length checks. i < sysNext s \<longleftrightarrow> sysWorkers s ! i \<noteq> Idle)
   \<and> sysTokens s = holders (sysWorkers s) \<and> sysTokens s \<le> k"

definition phaseInv :: "gotime \<Rightarrow> 'e check list \<Rightarrow> runSys \<Rightarrow> bool" where
  "phaseInv generated checks s \<longleftrightarrow>
     (rsFrozen (sysState s) \<longleftrightarrow> sysMain s \<noteq> Selecting \<and> sysMain s \<noteq> Selected)
   \<and> (sysDisp s = Closed \<longrightarrow> list_all (\<lambda>w. w = Idle \<or> w = Finished) (sysWorkers s))
   \<and> (sysDisp s \<noteq> Dispatching \<and> sysCtx s = None \<longrightarrow> sysNext s = length checks)
   \<and> (sysMain s \<noteq> Selecting \<and> sysCtx s = None \<longrightarrow> sysDisp s = Closed)
   \<and> (\<forall>rep. sysMain s = Returned rep \<longrightarrow> rep = emptyReport generated (rsResults (sysState s)))"

definition runInv :: "'e set \<Rightarrow> gotime \<Rightarrow> nat \<Rightarrow> 'e check list \<Rightarrow> runSys \<Rightarrow> bool" where
  "runInv W generated k checks s \<longleftrightarrow> sizesInv k checks s \<and> phaseInv generated checks s
     \<and> (\<forall>i < length checks. slotInv W checks s i)"

lemma runInv_init: "checks \<noteq> [] \<Longrightarrow> runInv W generated k checks (runInit generated ctx checks)"
  by (auto simp: runInv_def sizesInv_def phaseInv_def slotInv_def runInit_def holders_Idle Let_def)

lemma recordResult_sizes [simp]:
  "length (rsResults (recordResult i r st)) = length (rsResults st)"
  "length (rsCompleted (recordResult i r st)) = length (rsCompleted st)"
  "rsFrozen (recordResult i r st) = rsFrozen st"
  by (simp_all add: recordResult_def)

lemma recordResult_frozen [simp]: "rsFrozen st \<Longrightarrow> recordResult i r st = st"
  by (simp add: recordResult_def)

lemma sizesInv_step: "runStep W generated k checks s t \<Longrightarrow> sizesInv k checks s \<Longrightarrow> sizesInv k checks t"
proof (induction rule: runStep.induct)
  case (dispatch s)
  then have "sysWorkers s ! sysNext s = Idle" by (auto simp: sizesInv_def)
  with dispatch holders_update [of "sysNext s" "sysWorkers s" Running] show ?case
    by (auto simp: sizesInv_def nth_list_update)
next
  case (work i s r e1 e2 t d)
  with holders_update [of i "sysWorkers s" "Executed r"] show ?case
    by (auto simp: sizesInv_def nth_list_update)
next
  case (record_result i s r)
  with holders_update [of i "sysWorkers s" Recorded] show ?case
    by (auto simp: sizesInv_def nth_list_update)
next
  case (release i s)
  with holders_update [of i "sysWorkers s" Released] show ?case
    by (auto simp: sizesInv_def nth_list_update)
next
  case (wg_done i s)
  with holders_update [of i "sysWorkers s" Finished] show ?case
    by (auto simp: sizesInv_def nth_list_update)
next
  case (freeze s now)
  then show ?case by (simp add: sizesInv_def freezeBackfill_spec)
qed (simp_all add: sizesInv_def)

lemma busy_worker_open:
  "sizesInv k checks s \<Longrightarrow> phaseInv generated checks s \<Longrightarrow> i < length checks \<Longrightarrow>
   sysWorkers s ! i \<noteq> Idle \<Longrightarrow> sysWorkers s ! i \<noteq> Finished \<Longrightarrow> sysDisp s \<noteq> Closed"
  by (auto simp: sizesInv_def phaseInv_def list_all_length)

text \<open>If the dispatcher is done and there was no cancellation, every worker has recorded.\<close>

lemma all_recorded:
  assumes "runInv W generated k checks s" and "sysMain s = Selected" and "sysCtx s = None" and "i < length checks"
  shows "rsCompleted (sysState s) ! i"
proof -
  from assms have closed: "sysDisp s = Closed" and "sysNext s = length checks"
    by (auto simp: runInv_def phaseInv_def)
  with assms have "sysWorkers s ! i \<noteq> Idle" by (auto simp: runInv_def sizesInv_def)
  with closed assms have "sysWorkers s ! i = Finished"
    by (auto simp: runInv_def phaseInv_def sizesInv_def list_all_length)
  with assms show ?thesis by (auto simp: runInv_def slotInv_def phaseInv_def)
qed

lemma phaseInv_step:
  "runStep W generated k checks s t \<Longrightarrow> runInv W generated k checks s \<Longrightarrow> phaseInv generated checks t"
proof (induction rule: runStep.induct)
  case (dispatch s)
  then show ?case by (auto simp: runInv_def phaseInv_def)
next
  case (work i s r e1 e2 t d)
  then have "sysDisp s \<noteq> Closed" using busy_worker_open [of k checks s generated i] by (auto simp: runInv_def)
  with work show ?case by (auto simp: runInv_def phaseInv_def)
next
  case (record_result i s r)
  then have "sysDisp s \<noteq> Closed" using busy_worker_open [of k checks s generated i] by (auto simp: runInv_def)
  with record_result show ?case by (auto simp: runInv_def phaseInv_def)
next
  case (release i s)
  then have "sysDisp s \<noteq> Closed" using busy_worker_open [of k checks s generated i] by (auto simp: runInv_def)
  with release show ?case by (auto simp: runInv_def phaseInv_def)
next
  case (wg_done i s)
  then have "sysDisp s \<noteq> Closed" using busy_worker_open [of k checks s generated i] by (auto simp: runInv_def)
  with wg_done show ?case by (auto simp: runInv_def phaseInv_def)
next
  case (freeze s now)
  then show ?case by (auto simp: runInv_def phaseInv_def sizesInv_def freezeBackfill_spec)
qed (auto simp: runInv_def phaseInv_def)

lemma slotInv_step:
  "runStep W generated k checks s t \<Longrightarrow> runInv W generated k checks s \<Longrightarrow> i < length checks \<Longrightarrow> slotInv W checks t i"
proof (induction rule: runStep.induct)
  case (dispatch s)
  then have idle: "sysWorkers s ! sysNext s = Idle" by (auto simp: runInv_def sizesInv_def)
  from dispatch have "slotInv W checks s i" by (simp add: runInv_def)
  with idle dispatch show ?case by (auto simp: slotInv_def nth_list_update runInv_def sizesInv_def)
next
  case (work j s r e1 e2 t d)
  then have "slotInv W checks s i" by (simp add: runInv_def)
  moreover have "workerResult W (checks ! j) r" using work by (auto simp: workerResult_def)
  ultimately show ?case using work by (auto simp: slotInv_def nth_list_update runInv_def sizesInv_def)
next
  case (record_result j s r)
  then have "slotInv W checks s i" "slotInv W checks s j" by (simp_all add: runInv_def)
  with record_result show ?case
    by (auto simp: slotInv_def nth_list_update runInv_def sizesInv_def recordResult_def)
next
  case (release j s)
  then have "slotInv W checks s i" by (simp add: runInv_def)
  with release show ?case by (auto simp: slotInv_def nth_list_update runInv_def sizesInv_def)
next
  case (wg_done j s)
  then have "slotInv W checks s i" by (simp add: runInv_def)
  with wg_done show ?case by (auto simp: slotInv_def nth_list_update runInv_def sizesInv_def)
next
  case (freeze s now)
  then have slot: "slotInv W checks s i" by (simp add: runInv_def)
  have "rsCompleted (sysState s) ! i \<or> (\<exists>e. sysCtx s = Some e)"
    using all_recorded [OF freeze.prems(1) freeze.hyps _ freeze.prems(2)] by blast
  with slot freeze show ?case
    by (auto simp: slotInv_def runInv_def sizesInv_def freezeBackfill_spec cancelledResult_def)
qed (auto simp: slotInv_def runInv_def cancelledResult_def)

lemma runInv_step: "runStep W generated k checks s t \<Longrightarrow> runInv W generated k checks s \<Longrightarrow> runInv W generated k checks t"
  using sizesInv_step phaseInv_step slotInv_step by (metis runInv_def)

lemma runInv_reach:
  "runReaches W generated k checks s t \<Longrightarrow> runInv W generated k checks s \<Longrightarrow> runInv W generated k checks t"
  by (induction rule: rtranclp_induct) (auto intro: runInv_step)

lemma reachable_runInv:
  "checks \<noteq> [] \<Longrightarrow> runReaches W generated k checks (runInit generated ctx checks) s \<Longrightarrow> runInv W generated k checks s"
  by (rule runInv_reach [OF _ runInv_init])

subsection \<open>The report\<close>

lemma returned_init:
  assumes "runReaches W generated k [] (runInit generated ctx []) s"
  shows "sysMain s = Returned (emptyReport generated [])"
  using assms
proof (induction rule: rtranclp_induct)
  case (step s t)
  from step(2,3) show ?case by (auto elim: runStepE)
qed (simp add: runInit_def Let_def)

lemma runner_report_core:
  assumes "runReaches W generated k checks (runInit generated ctx checks) s"
    and "sysMain s = Returned rep"
  shows "length (repResults rep) = length checks
    \<and> repSummary rep = newSummary (repResults rep)
    \<and> (\<forall>i < length checks.
         workerResult W (checks ! i) (repResults rep ! i)
         \<or> cancelledResult (checks ! i) (sysCtx s) (repResults rep ! i))"
proof (cases "checks = []")
  case True
  with assms have "rep = emptyReport generated []"
    using returned_init [OF assms(1) [unfolded True]] by simp
  with True show ?thesis by (simp add: emptyReport_def)
next
  case False
  from reachable_runInv [OF this assms(1)] have inv: "runInv W generated k checks s" .
  with assms(2) have rep: "rep = emptyReport generated (rsResults (sysState s))"
    and "rsFrozen (sysState s)"
    by (auto simp: runInv_def phaseInv_def)
  with inv show ?thesis
    by (auto simp: runInv_def sizesInv_def slotInv_def emptyReport_def)
qed

text \<open>
  Property C6: the report of a run. Whatever the interleaving and whenever the parent context is
  cancelled, the report has one result per check, in the order of the checks. Each is what that
  check's own execution produced, or a cancellation record for it, and the latter only if the
  context was cancelled; the summary counts exactly the results returned.
\<close>

theorem runner_report:
  assumes "runReaches W generated k checks (runInit generated ctx checks) s"
    and "sysMain s = Returned rep"
  shows "length (repResults rep) = length checks
    \<and> repSummary rep = newSummary (repResults rep)
    \<and> (\<forall>i < length checks.
         workerResult W (checks ! i) (repResults rep ! i)
         \<or> cancelledResult (checks ! i) (sysCtx s) (repResults rep ! i))"
  by (rule runner_report_core [OF assms])

text \<open>A run over one check, step by step\<close>

definition demoCheck :: "nat check" where
  "demoCheck = \<lparr>ckID = ''x'', ckTitle = ''X'', ckDescription = [], ckSeverity = SeverityRequired,
     ckApplicable = (\<lambda>e. Ret (True, [])), ckRun = (\<lambda>e. Ret (zeroResult\<lparr>rState := StatePass\<rparr>))\<rparr>"

lemma demo_run:
  "\<exists>s rep. runReaches UNIV 0 1 [demoCheck] (runInit 0 None [demoCheck]) s \<and> sysMain s = Returned rep
     \<and> rState (repResults rep ! 0) = StatePass \<and> sysCtx s = None"
proof -
  let ?R = "runStep UNIV 0 1 [demoCheck]"
  define r where "r = (executeCheck 0 0 5 demoCheck)\<lparr>rDurationMS := 2\<rparr>"
  define s0 where "s0 = runInit 0 None [demoCheck]"
  define s1 where "s1 = s0\<lparr>sysTokens := 1, sysWorkers := [Running], sysNext := 1\<rparr>"
  define s2 where "s2 = s1\<lparr>sysWorkers := [Executed r]\<rparr>"
  define s3 where "s3 = s2\<lparr>sysWorkers := [Recorded], sysState := recordResult 0 r (sysState s2)\<rparr>"
  define s4 where "s4 = s3\<lparr>sysWorkers := [Released], sysTokens := 0\<rparr>"
  define s5 where "s5 = s4\<lparr>sysWorkers := [Finished]\<rparr>"
  define s6 where "s6 = s5\<lparr>sysDisp := Waiting\<rparr>"
  define s7 where "s7 = s6\<lparr>sysDisp := Closed\<rparr>"
  define s8 where "s8 = s7\<lparr>sysMain := Selected\<rparr>"
  define s9 where "s9 = s8\<lparr>sysMain := Frozen, sysState := freezeBackfill 9 None [demoCheck] (sysState s8)\<rparr>"
  define s10 where "s10 = s9\<lparr>sysMain := Returned (emptyReport 0 (rsResults (sysState s9)))\<rparr>"
  note d = s10_def s9_def s8_def s7_def s6_def s5_def s4_def s3_def s2_def s1_def s0_def runInit_def Let_def
  have "?R s0 s1" using dispatch [where s = s0 and checks = "[demoCheck]" and k = 1 and W = UNIV and generated = 0] by (simp add: d)
  moreover have "?R s1 s2" using work [where i = 0 and checks = "[demoCheck]" and s = s1 and r = r and ?e1.0 = 0
      and ?e2.0 = 0 and t = 5 and d = 2 and generated = 0 and k = 1 and W = UNIV] by (simp add: d r_def)
  moreover have "?R s2 s3" using record_result [of 0 "[demoCheck]" s2 r] by (simp add: d)
  moreover have "?R s3 s4" using release [of 0 "[demoCheck]" s3] by (simp add: d)
  moreover have "?R s4 s5" using wg_done [of 0 "[demoCheck]" s4] by (simp add: d)
  moreover have "?R s5 s6" using dispatch_finished [of s5 "[demoCheck]"] by (simp add: d)
  moreover have "?R s6 s7" using close_done [of s6] by (simp add: d)
  moreover have "?R s7 s8" using select_done [of s7] by (simp add: d)
  moreover have "?R s8 s9" using freeze [where s = s8 and W = UNIV and generated = 0 and k = 1 and checks = "[demoCheck]" and now = 9] by (simp add: d)
  moreover have "?R s9 s10" using return [of s9] by (simp add: d)
  ultimately have "?R\<^sup>*\<^sup>* s0 s10"
    by (meson converse_rtranclp_into_rtranclp rtranclp.rtrancl_refl)
  moreover have "rState r = StatePass"
    by (simp add: r_def executeCheck_def demoCheck_def fillIdentity_def)
  ultimately have "?R\<^sup>*\<^sup>* s0 s10 \<and> sysMain s10 = Returned (emptyReport 0 (rsResults (sysState s9)))
      \<and> rState (repResults (emptyReport 0 (rsResults (sysState s9))) ! 0) = StatePass \<and> sysCtx s10 = None"
    by (simp add: d freezeBackfill_def recordResult_def emptyReport_def)
  then show ?thesis unfolding s0_def by blast
qed

theorem runner_report_witness:
  "\<exists>rep :: report. workerResult UNIV demoCheck (repResults rep ! 0) \<and> rState (repResults rep ! 0) = StatePass"
proof -
  obtain s rep where s: "runReaches UNIV 0 1 [demoCheck] (runInit 0 None [demoCheck]) s"
      "sysMain s = Returned rep" "rState (repResults rep ! 0) = StatePass" "sysCtx s = None"
    using demo_run by blast
  from runner_report [OF s(1,2)] s(4) have "workerResult UNIV demoCheck (repResults rep ! 0)"
    by (auto simp: cancelledResult_def)
  with s(3) show ?thesis by blast
qed

text \<open>
  Property C7: bounded parallelism and start order. In every reachable state at most \<open>k\<close> workers
  are between taking their token and releasing it, so at most \<open>k\<close> checks execute at once, and
  the checks that were started are a prefix of the input.
\<close>

theorem runner_bounded:
  assumes "runReaches W generated k checks (runInit generated ctx checks) s" and "checks \<noteq> []"
  shows "length (filter holding (sysWorkers s)) \<le> k \<and> sysTokens s = length (filter holding (sysWorkers s))
    \<and> length (sysWorkers s) = length checks
    \<and> (\<forall>i < length checks. sysWorkers s ! i \<noteq> Idle \<longleftrightarrow> i < sysNext s)"
  using reachable_runInv [OF assms(2,1)]
  by (auto simp: runInv_def sizesInv_def holders_def)

theorem runner_bounded_witness:
  "\<exists>s. runReaches UNIV 0 1 [demoCheck] (runInit 0 None [demoCheck]) s
     \<and> length (filter holding (sysWorkers s)) \<le> 1"
proof -
  obtain s where "runReaches UNIV 0 1 [demoCheck] (runInit 0 None [demoCheck]) s"
    using demo_run by blast
  with runner_bounded [OF this] show ?thesis by auto
qed

subsection \<open>The returned report is stable\<close>

lemma returned_step:
  "runStep W generated k checks s t \<Longrightarrow> sysMain s = Returned rep \<Longrightarrow> rsFrozen (sysState s) \<Longrightarrow>
   sysMain t = Returned rep \<and> sysState t = sysState s"
  by (auto elim: runStepE)

text \<open>
  Property C8: the returned report is a stable snapshot. Once \<open>Run\<close> has returned, no step of a
  leaked worker, of the dispatcher or of the context changes the results it handed out.
\<close>

theorem runner_snapshot:
  assumes "runReaches W generated k checks (runInit generated ctx checks) s" and "checks \<noteq> []"
    and "sysMain s = Returned rep" and "runReaches W generated k checks s t"
  shows "sysMain t = Returned rep \<and> rsResults (sysState t) = repResults rep"
proof -
  have inv: "runInv W generated k checks s" by (rule reachable_runInv [OF assms(2,1)])
  then have frozen: "rsFrozen (sysState s)" and rep: "rep = emptyReport generated (rsResults (sysState s))"
    using assms(3) by (auto simp: runInv_def phaseInv_def)
  from assms(4) have "sysMain t = Returned rep \<and> sysState t = sysState s"
  proof (induction rule: rtranclp_induct)
    case (step t u)
    with returned_step [OF step(2)] frozen show ?case by auto
  qed (simp add: assms(3))
  with rep show ?thesis by (simp add: emptyReport_def)
qed

theorem runner_snapshot_witness:
  "\<exists>(s :: runSys) (t :: runSys) rep. sysMain s = Returned rep \<and> sysCtx s = None \<and> sysCtx t \<noteq> None
     \<and> rsResults (sysState t) = repResults rep"
proof -
  obtain s rep where s: "runReaches UNIV 0 1 [demoCheck] (runInit 0 None [demoCheck]) s"
      "sysMain s = Returned rep" "sysCtx s = None"
    using demo_run by blast
  let ?t = "s\<lparr>sysCtx := Some (sentinelErr CtxCanceled)\<rparr>"
  have "runReaches UNIV 0 1 [demoCheck] s ?t" using cancel [OF s(3)] by blast
  from runner_snapshot [OF s(1) _ s(2) this] s(2,3) show ?thesis
    by (intro exI [of _ s] exI [of _ ?t] exI [of _ rep]) simp
qed

end
