(* ===== verification/CheckRunnerProgress.thy ===== *)
theory CheckRunnerProgress
  imports CheckRunnerFacts
begin

text \<open>
  Progress of the runner. Every step uses up part of a bounded budget, so a run is finite; until
  the report is returned some step other than a cancellation is always possible (no deadlock);
  and once the context is cancelled the main goroutine alone gets to the report, however many
  workers hang.
\<close>

subsection \<open>The budget\<close>

fun workerBudget :: "worker \<Rightarrow> nat" where
  "workerBudget Idle = 5"
| "workerBudget Running = 4"
| "workerBudget (Executed r) = 3"
| "workerBudget Recorded = 2"
| "workerBudget Released = 1"
| "workerBudget Finished = 0"

fun dispBudget :: "dispatcher \<Rightarrow> nat" where
  "dispBudget Dispatching = 2"
| "dispBudget Waiting = 1"
| "dispBudget Closed = 0"

fun mainBudget :: "mainPhase \<Rightarrow> nat" where
  "mainBudget Selecting = 3"
| "mainBudget Selected = 2"
| "mainBudget Frozen = 1"
| "mainBudget (Returned rep) = 0"

definition runBudget :: "runSys \<Rightarrow> nat" where
  "runBudget s = sum_list (map workerBudget (sysWorkers s)) + dispBudget (sysDisp s)
     + mainBudget (sysMain s) + (if sysCtx s = None then 1 else 0)"

lemma budget_update:
  "i < length ws \<Longrightarrow> workerBudget w < workerBudget (ws ! i) \<Longrightarrow>
   sum_list (map workerBudget (ws[i := w])) < sum_list (map workerBudget ws)"
proof (induction ws arbitrary: i)
  case (Cons x xs)
  then show ?case by (cases i) auto
qed simp

lemma budget_decreases:
  "runStep W generated k checks s t \<Longrightarrow> sizesInv k checks s \<Longrightarrow> runBudget t < runBudget s"
proof (induction rule: runStep.induct)
  case (dispatch s)
  then have "sysWorkers s ! sysNext s = Idle" by (auto simp: sizesInv_def)
  with dispatch budget_update [of "sysNext s" "sysWorkers s" Running] show ?case
    by (auto simp: sizesInv_def runBudget_def)
next
  case (work i s r e1 e2 t d)
  with budget_update [of i "sysWorkers s" "Executed r"] show ?case
    by (auto simp: sizesInv_def runBudget_def)
next
  case (record_result i s r)
  with budget_update [of i "sysWorkers s" Recorded] show ?case
    by (auto simp: sizesInv_def runBudget_def)
next
  case (release i s)
  with budget_update [of i "sysWorkers s" Released] show ?case
    by (auto simp: sizesInv_def runBudget_def)
next
  case (wg_done i s)
  with budget_update [of i "sysWorkers s" Finished] show ?case
    by (auto simp: sizesInv_def runBudget_def)
qed (auto simp: runBudget_def)

lemma sizesInv_init: "sizesInv k checks (runInit generated ctx checks)"
  by (simp add: sizesInv_def runInit_def holders_Idle Let_def)

lemma relpow_budget:
  "(runStep W generated k checks ^^ m) s t \<Longrightarrow> sizesInv k checks s \<Longrightarrow>
   runBudget t + m \<le> runBudget s \<and> sizesInv k checks t"
proof (induction m arbitrary: t)
  case (Suc m)
  then obtain u where u: "(runStep W generated k checks ^^ m) s u" "runStep W generated k checks u t" by auto
  with Suc have "runBudget u + m \<le> runBudget s" "sizesInv k checks u" by auto
  with budget_decreases [OF u(2)] sizesInv_step [OF u(2)] show ?case by auto
qed simp

lemma runBudget_init: "runBudget (runInit generated ctx checks) \<le> 5 * length checks + 6"
  by (simp add: runBudget_def runInit_def Let_def sum_list_replicate)

subsection \<open>No deadlock\<close>

lemma step_ctx:
  "runStep W generated k checks s t \<Longrightarrow> sysCtx t = sysCtx s \<Longrightarrow>
   \<exists>t. runStep W generated k checks s t \<and> sysCtx t = sysCtx s"
  by blast

lemma busy_step:
  assumes "i < length checks" and "w = sysWorkers s ! i" and "w \<noteq> Idle" "w \<noteq> Finished" and "W \<noteq> {}"
  shows "\<exists>t. runStep W generated k checks s t \<and> sysCtx t = sysCtx s"
proof (cases w)
  case Running
  with assms show ?thesis
    using work [of i checks s, OF _ _ refl] by fastforce
next
  case (Executed r)
  with assms show ?thesis using record_result [of i checks s r] by fastforce
next
  case Recorded
  with assms show ?thesis using release [of i checks s] by fastforce
next
  case Released
  with assms show ?thesis using wg_done [of i checks s] by fastforce
qed (use assms in auto)

lemma no_holders:
  "\<forall>i < length ws. ws ! i = Idle \<or> ws ! i = Finished \<Longrightarrow> holders ws = 0"
  by (auto simp: holders_def filter_empty_conv in_set_conv_nth) (metis holding.simps(4,6))

lemma runStep_possible:
  assumes "runInv W generated k checks s" and "0 < k" and "W \<noteq> {}" and "\<forall>rep. sysMain s \<noteq> Returned rep"
  shows "\<exists>t. runStep W generated k checks s t \<and> sysCtx t = sysCtx s"
proof (cases "\<exists>i < length checks. sysWorkers s ! i \<noteq> Idle \<and> sysWorkers s ! i \<noteq> Finished")
  case True
  then show ?thesis using busy_step [OF _ refl _ _ assms(3)] by blast
next
  case False
  then have quiet: "list_all (\<lambda>w. w = Idle \<or> w = Finished) (sysWorkers s)" and free: "sysTokens s = 0"
    using assms(1) no_holders [of "sysWorkers s"]
    by (auto simp: runInv_def sizesInv_def list_all_length)
  consider "sysMain s = Selected" | "sysMain s = Frozen" | "sysMain s = Selecting"
    using assms(4) by (cases "sysMain s") auto
  then show ?thesis
  proof cases
    case 1
    show ?thesis by (rule step_ctx [OF freeze [OF 1]]) simp
  next
    case 2
    show ?thesis by (rule step_ctx [OF return [OF 2]]) simp
  next
    case 3
    show ?thesis
    proof (cases "sysDisp s")
      case Dispatching
      show ?thesis
      proof (cases "sysNext s < length checks")
        case True
        have "runStep W generated k checks s (s\<lparr>sysTokens := Suc (sysTokens s),
            sysWorkers := (sysWorkers s)[sysNext s := Running], sysNext := Suc (sysNext s)\<rparr>)"
          by (rule dispatch [OF Dispatching True]) (simp add: free assms(2))
        then show ?thesis by (rule step_ctx) simp
      next
        case False
        with assms(1) have "sysNext s = length checks" by (auto simp: runInv_def sizesInv_def)
        then show ?thesis by (intro step_ctx [OF dispatch_finished [OF Dispatching]]) simp_all
      qed
    next
      case Waiting
      then show ?thesis by (intro step_ctx [OF close_done [OF Waiting quiet]]) simp
    next
      case Closed
      then show ?thesis by (intro step_ctx [OF select_done [OF 3 Closed]]) simp
    qed
  qed
qed

lemma runs_to_report:
  "runInv W generated k checks s \<Longrightarrow> 0 < k \<Longrightarrow> W \<noteq> {} \<Longrightarrow>
   \<exists>t rep. runReaches W generated k checks s t \<and> sysMain t = Returned rep \<and> sysCtx t = sysCtx s"
proof (induction "runBudget s" arbitrary: s rule: less_induct)
  case less
  show ?case
  proof (cases "\<exists>rep. sysMain s = Returned rep")
    case False
    then obtain t where t: "runStep W generated k checks s t" "sysCtx t = sysCtx s"
      using runStep_possible [OF less.prems] by blast
    moreover have "runBudget t < runBudget s"
      using budget_decreases [OF t(1)] less.prems by (simp add: runInv_def)
    ultimately show ?thesis
      using less.hyps [of t] runInv_step [OF t(1) less.prems(1)] less.prems(2,3)
      by (metis converse_rtranclp_into_rtranclp)
  qed blast
qed

text \<open>
  Property C11: a run terminates with a report. No run takes more than \<open>5n + 6\<close> steps for \<open>n\<close>
  checks; and with at least one worker slot, a report can be reached from every reachable state
  without any cancellation (as long as checks return).
\<close>

theorem runner_terminates:
  assumes "0 < k" and "W \<noteq> {}"
  shows "((runStep W generated k checks ^^ m) (runInit generated ctx checks) s \<longrightarrow> m \<le> 5 * length checks + 6)
    \<and> (runReaches W generated k checks (runInit generated ctx checks) s \<longrightarrow>
         (\<exists>t rep. runReaches W generated k checks s t \<and> sysMain t = Returned rep \<and> sysCtx t = sysCtx s))"
proof (intro conjI impI)
  assume "(runStep W generated k checks ^^ m) (runInit generated ctx checks) s"
  from relpow_budget [OF this sizesInv_init] runBudget_init [of generated ctx checks]
  show "m \<le> 5 * length checks + 6" by simp
next
  assume reach: "runReaches W generated k checks (runInit generated ctx checks) s"
  show "\<exists>t rep. runReaches W generated k checks s t \<and> sysMain t = Returned rep \<and> sysCtx t = sysCtx s"
  proof (cases "checks = []")
    case True
    with returned_init [OF reach [unfolded True]] show ?thesis by auto
  next
    case False
    from runs_to_report [OF reachable_runInv [OF False reach] assms] show ?thesis .
  qed
qed

theorem runner_terminates_witness:
  "\<exists>t rep. runReaches UNIV 0 2 [demoCheck] (runInit 0 None [demoCheck]) t \<and> sysMain t = Returned rep"
  using runner_terminates [where W = UNIV and m = 0 and k = 2 and generated = 0 and checks = "[demoCheck]" and ctx = None
      and s = "runInit 0 None [demoCheck]"] by auto

text \<open>
  Property C12: a cancelled run still reports. From every reachable state with a cancelled context
  the report is reached by steps of the main goroutine alone: no worker moves, none needs to.
\<close>

theorem runner_cancellation:
  assumes "runReaches W generated k checks (runInit generated ctx checks) s" and "sysCtx s = Some e"
  shows "\<exists>t rep. runReaches W generated k checks s t \<and> sysMain t = Returned rep
    \<and> sysWorkers t = sysWorkers s \<and> sysDisp t = sysDisp s \<and> sysNext t = sysNext s"
proof -
  let ?R = "runStep W generated k checks"
  have ret: "\<exists>t rep. ?R\<^sup>*\<^sup>* u t \<and> sysMain t = Returned rep \<and> sysWorkers t = sysWorkers u
      \<and> sysDisp t = sysDisp u \<and> sysNext t = sysNext u" if "sysMain u = Frozen" for u
  proof -
    let ?v = "u\<lparr>sysMain := Returned (emptyReport generated (rsResults (sysState u)))\<rparr>"
    have "?R u ?v" by (rule return [OF that])
    then show ?thesis by (intro exI [of _ ?v] exI conjI r_into_rtranclp) simp_all
  qed
  have sel: "\<exists>t rep. ?R\<^sup>*\<^sup>* u t \<and> sysMain t = Returned rep \<and> sysWorkers t = sysWorkers u
      \<and> sysDisp t = sysDisp u \<and> sysNext t = sysNext u" if u: "sysMain u = Selected" for u
  proof -
    let ?v = "u\<lparr>sysMain := Frozen, sysState := freezeBackfill 0 (sysCtx u) checks (sysState u)\<rparr>"
    have "?R u ?v" by (rule freeze [OF u])
    with ret [of ?v] show ?thesis by (auto intro: converse_rtranclp_into_rtranclp)
  qed
  show ?thesis
  proof (cases "sysMain s")
    case Selecting
    let ?v = "s\<lparr>sysMain := Selected\<rparr>"
    have "?R s ?v" by (rule select_cancelled [OF Selecting]) (simp add: assms(2))
    with sel [of ?v] show ?thesis by (auto intro: converse_rtranclp_into_rtranclp)
  next
    case Selected
    then show ?thesis by (rule sel)
  next
    case Frozen
    then show ?thesis by (rule ret)
  next
    case (Returned rep)
    then show ?thesis by blast
  qed
qed

theorem runner_cancellation_witness:
  "\<exists>t rep. runReaches UNIV 0 1 [demoCheck] (runInit 0 (Some (sentinelErr CtxCanceled)) [demoCheck]) t
     \<and> sysMain t = Returned rep \<and> sysWorkers t = [Idle]"
  using runner_cancellation [where W = UNIV and generated = 0 and k = 1 and checks = "[demoCheck]"
      and ctx = "Some (sentinelErr CtxCanceled)"
      and s = "runInit 0 (Some (sentinelErr CtxCanceled)) [demoCheck]"]
  by (auto simp: runInit_def Let_def)

end
