(* ===== verification/Logging.thy ===== *)
theory Logging
  imports GoStringFacts Report
begin

text \<open>
  \<open>internal/buildinfo\<close>, whose variables the linker may override, and \<open>internal/logging\<close>: what a logger is configured
  with and which records its handler lets through. The text it prints of one is not modelled; \<open>crypto/rand\<close> is a parameter.
\<close>

section \<open>buildinfo.go\<close>

definition ToolName :: string where "ToolName = ''copyfail-validate''"

record buildVars =
  bvVersion :: string
  bvCommit :: string
  bvBuildDate :: string

definition defaultBuildVars :: buildVars where
  "defaultBuildVars = \<lparr>bvVersion = ''v0.0.0-dev'', bvCommit = ''unknown'', bvBuildDate = ''unknown''\<rparr>"

definition buildInfo :: "buildVars \<Rightarrow> toolInfo" where
  "buildInfo b = \<lparr>tName = ToolName, tVersion = bvVersion b, tCommit = bvCommit b, tBuildDate = bvBuildDate b\<rparr>"

section \<open>logging.go\<close>

definition runIDByteLen :: nat where "runIDByteLen = 16"
definition debugVerbosity :: int where "debugVerbosity = 2"
definition infoVerbosity :: int where "infoVerbosity = 1"

text \<open>The levels of \<open>log/slog\<close>, in increasing order, with their numbers\<close>

datatype slogLevel = LevelDebug | LevelInfo | LevelWarn | LevelError

fun levelNumber :: "slogLevel \<Rightarrow> int" where
  "levelNumber LevelDebug = - 4"
| "levelNumber LevelInfo = 0"
| "levelNumber LevelWarn = 4"
| "levelNumber LevelError = 8"

definition levelAndSource :: "int \<Rightarrow> slogLevel \<times> bool" where
  "levelAndSource verbosity =
     (if debugVerbosity \<le> verbosity then (LevelDebug, True)
      else if infoVerbosity \<le> verbosity then (LevelInfo, False)
      else (LevelWarn, False))"

text \<open>\<open>rand.Read\<close> of 16 bytes, or its error\<close>

definition generateRunID :: "goerr + string \<Rightarrow> string" where
  "generateRunID randRead = (case randRead of Inl _ \<Rightarrow> replicate 32 CHR ''0'' | Inr buf \<Rightarrow> hexEncode buf)"

record 'w logOptions =
  loWriter :: "'w option"
  loRunID :: string
  loVerbosity :: int

record 'w logger =
  lgWriter :: 'w
  lgLevel :: slogLevel
  lgAddSource :: bool
  lgAttrs :: "(string \<times> string) list"

definition newLogger :: "'w \<Rightarrow> goerr + string \<Rightarrow> buildVars \<Rightarrow> 'w logOptions \<Rightarrow> 'w logger" where
  "newLogger stderr randRead vars opts =
     (let writer = (case loWriter opts of None \<Rightarrow> stderr | Some w \<Rightarrow> w);
          runID = (if loRunID opts = [] then generateRunID randRead else loRunID opts);
          (level, addSource) = levelAndSource (loVerbosity opts)
      in \<lparr>lgWriter = writer, lgLevel = level, lgAddSource = addSource,
          lgAttrs = [(''tool'', ToolName), (''version'', bvVersion vars), (''run_id'', runID)]\<rparr>)"

text \<open>Whether the handler lets a record through\<close>

definition logEnabled :: "'w logger \<Rightarrow> slogLevel \<Rightarrow> bool" where
  "logEnabled l lv \<longleftrightarrow> levelNumber (lgLevel l) \<le> levelNumber lv"

text \<open>What goes to standard error: printed text, or a record that the handler of the logger let through\<close>

datatype stderrItem = Printed string | Logged slogLevel string "(string \<times> string) list"

definition logRecord :: "'w logger \<Rightarrow> slogLevel \<Rightarrow> string \<Rightarrow> (string \<times> string) list \<Rightarrow> stderrItem list" where
  "logRecord l lv msg attrs = (if logEnabled l lv then [Logged lv msg (lgAttrs l @ attrs)] else [])"

section \<open>Run identifiers and levels\<close>

lemma hexDigit_isHex: "d < 16 \<Longrightarrow> hexDigit d \<in> set ''0123456789abcdef''"
proof -
  have "list_all (\<lambda>d. hexDigit d \<in> set ''0123456789abcdef'') [0..<16]" by code_simp
  then show "d < 16 \<Longrightarrow> ?thesis" unfolding list_all_iff by simp
qed

lemma hexEncode_shape: "length (hexEncode bs) = 2 * length bs \<and> set (hexEncode bs) \<subseteq> set ''0123456789abcdef''"
proof (induction bs)
  case (Cons c bs)
  have "byte c div 16 < 16" "byte c mod 16 < 16" by (simp_all add: div_less_iff_less_mult)
  then have "set (hexByte c) \<subseteq> set ''0123456789abcdef''" "length (hexByte c) = 2"
    using hexDigit_isHex by (simp_all add: hexByte_def)
  with Cons show ?case by (simp add: hexEncode_def)
qed (simp add: hexEncode_def)

text \<open>
  The run ID of every logger that was given none has 32 hexadecimal digits, whether or not the random source fails, and
  more \<open>-v\<close> never hides a record.
\<close>

lemma newLogger_runID:
  assumes "loRunID opts = []" "\<And>buf. randRead = Inr buf \<Longrightarrow> length buf = runIDByteLen"
  shows "\<exists>runID. map_of (lgAttrs (newLogger stderr randRead vars opts)) ''run_id'' = Some runID \<and> length runID = 32
    \<and> set runID \<subseteq> set ''0123456789abcdef''"
proof -
  have "length (generateRunID randRead) = 32 \<and> set (generateRunID randRead) \<subseteq> set ''0123456789abcdef''"
    using assms(2) hexEncode_shape by (cases randRead) (auto simp: generateRunID_def runIDByteLen_def)
  with assms(1) show ?thesis by (simp add: newLogger_def Let_def split: prod.split)
qed

lemma newLogger_level: "lgLevel (newLogger stderr rand vars opts) = fst (levelAndSource (loVerbosity opts))"
  by (simp add: newLogger_def Let_def split: prod.split)

lemma logEnabled_mono:
  "loVerbosity opts \<le> loVerbosity opts' \<Longrightarrow> logEnabled (newLogger stderr rand vars opts) lv \<Longrightarrow>
    logEnabled (newLogger stderr rand vars opts') lv"
  by (auto simp: logEnabled_def newLogger_level levelAndSource_def debugVerbosity_def infoVerbosity_def split: if_splits)

text \<open>No verbosity filters out an error record.\<close>

lemma error_always_logged: "logRecord (l :: 'w logger) LevelError msg attrs = [Logged LevelError msg (lgAttrs l @ attrs)]"
  by (cases "lgLevel l") (simp_all add: logRecord_def logEnabled_def)

end
