(* ===== verification/GoTime.thy ===== *)
theory GoTime
  imports Report
begin

text \<open>
  The text Go's \<open>time\<close> package gives to an instant in UTC, as \<open>RFC3339\<close> and \<open>RFC3339Nano\<close> print it. An instant is a
  number of nanoseconds since the start of the year 1; the calendar is the proleptic Gregorian one.
\<close>

definition leapYear :: "int \<Rightarrow> bool" where
  "leapYear y \<longleftrightarrow> y mod 4 = 0 \<and> (y mod 100 \<noteq> 0 \<or> y mod 400 = 0)"

definition daysBeforeYear :: "int \<Rightarrow> int" where
  "daysBeforeYear y = 365 * (y - 1) + (y - 1) div 4 - (y - 1) div 100 + (y - 1) div 400"

text \<open>Day number to year and day of the year, by cycles of 400, 100, 4 and 1 years\<close>

definition yearAndDay :: "int \<Rightarrow> int \<times> int" where
  "yearAndDay d =
     (let n400 = d div 146097; r400 = d mod 146097;
          n100 = min 3 (r400 div 36524); r100 = r400 - 36524 * n100;
          n4 = r100 div 1461; r4 = r100 mod 1461;
          n1 = min 3 (r4 div 365)
      in (400 * n400 + 100 * n100 + 4 * n4 + n1 + 1, r4 - 365 * n1))"

definition monthLengths :: "bool \<Rightarrow> int list" where
  "monthLengths leap = [31, if leap then 29 else 28, 31, 30, 31, 30, 31, 31, 30, 31, 30, 31]"

fun monthLoop :: "int \<Rightarrow> int list \<Rightarrow> int \<Rightarrow> int \<times> int" where
  "monthLoop m [] d = (m, d + 1)"
| "monthLoop m (l # ls) d = (if d < l then (m, d + 1) else monthLoop (m + 1) ls (d - l))"

text \<open>\<open>appendInt\<close>: a number with leading zeros\<close>

definition padInt :: "nat \<Rightarrow> int \<Rightarrow> string" where
  "padInt w i =
     (let ds = showNat (nat \<bar>i\<bar>) in (if i < 0 then ''-'' else []) @ replicate (w - length ds) (CHR ''0'') @ ds)"

definition nanosPerSecond :: int where "nanosPerSecond = 1000000000"

text \<open>The fraction of a second with its trailing zeros removed, and nothing for a whole second\<close>

definition fracSecond :: "int \<Rightarrow> string" where
  "fracSecond ns = (if ns = 0 then [] else ''.'' @ trimRightSet (\<lambda>c. c = CHR ''0'') (padInt 9 ns))"

definition formatRFC3339 :: "bool \<Rightarrow> gotime \<Rightarrow> string" where
  "formatRFC3339 nanos t =
     (let secs = t div nanosPerSecond; sod = secs mod 86400;
          (year, yday) = yearAndDay (secs div 86400);
          (month, day) = monthLoop 1 (monthLengths (leapYear year)) yday
      in padInt 4 year @ ''-'' @ padInt 2 month @ ''-'' @ padInt 2 day @ ''T''
         @ padInt 2 (sod div 3600) @ '':'' @ padInt 2 (sod div 60 mod 60) @ '':'' @ padInt 2 (sod mod 60)
         @ (if nanos then fracSecond (t mod nanosPerSecond) else []) @ ''Z'')"

definition goYear :: "gotime \<Rightarrow> int" where
  "goYear t = fst (yearAndDay (t div nanosPerSecond div 86400))"

text \<open>\<open>Time.MarshalJSON\<close> refuses a year that does not have four digits\<close>

definition timeEncodable :: "gotime \<Rightarrow> bool" where
  "timeEncodable t \<longleftrightarrow> 0 \<le> goYear t \<and> goYear t \<le> 9999"

section \<open>The calendar\<close>

lemma yearAndDay_day:
  assumes "yearAndDay d = (y, n)"
  shows "daysBeforeYear y + n = d \<and> 0 \<le> n \<and> n < (if leapYear y then 366 else 365)"
proof -
  define n400 r400 where "n400 = d div 146097" and "r400 = d mod 146097"
  define n100 where "n100 = min 3 (r400 div 36524)"
  define r100 where "r100 = r400 - 36524 * n100"
  define n4 r4 where "n4 = r100 div 1461" and "r4 = r100 mod 1461"
  define n1 where "n1 = min 3 (r4 div 365)"
  have y: "y - 1 = 400 * n400 + 100 * n100 + 4 * n4 + n1" "n = r4 - 365 * n1"
    using assms unfolding yearAndDay_def Let_def n400_def r400_def n100_def r100_def n4_def r4_def n1_def by auto
  have r400: "0 \<le> r400" "r400 < 146097" "d = 146097 * n400 + r400" by (simp_all add: n400_def r400_def)
  then have n100: "0 \<le> n100" "n100 \<le> 3" by (simp_all add: n100_def)
  define q where "q = r400 div 36524"
  have q: "36524 * q \<le> r400" "r400 < 36524 * q + 36524" unfolding q_def by linarith+
  have "n100 = min 3 q" by (simp add: n100_def q_def)
  then have "n100 \<le> q" "n100 < 3 \<Longrightarrow> n100 = q" "n100 \<le> 3" by linarith+
  with q r400 have r100: "0 \<le> r100" "n100 < 3 \<Longrightarrow> r100 < 36524" "r100 \<le> 36524"
    unfolding r100_def by linarith+
  have n4: "0 \<le> n4" "n4 \<le> 24" using r100 unfolding n4_def by linarith+
  have r4: "0 \<le> r4" "r4 < 1461" "r100 = 1461 * n4 + r4" by (simp_all add: n4_def r4_def)
  have n4': "n100 < 3 \<Longrightarrow> n4 = 24 \<Longrightarrow> r4 < 1460" using r100(2) r4(3) by linarith
  from r4 have n1: "0 \<le> n1" "n1 \<le> 3" "n < 365 \<or> n1 = 3 \<and> n = 365" "0 \<le> n"
    unfolding n1_def y(2) by (linarith | simp add: min_def split: if_splits)+
  have c4: "(y - 1) div 4 = 100 * n400 + 25 * n100 + n4" using y(1) n1 by linarith
  have c100: "(y - 1) div 100 = 4 * n400 + n100" using y(1) n1 n4 by linarith
  have c400: "(y - 1) div 400 = n400" using y(1) n1 n4 n100 by linarith
  have "daysBeforeYear y + n = d"
    using c4 c100 c400 y r4(3) r400(3) r100_def by (simp add: daysBeforeYear_def)
  moreover have "leapYear y" if "n = 365"
  proof -
    have "n1 = 3" using n1 that by simp
    then have yy: "y = 400 * n400 + 100 * n100 + 4 * (n4 + 1)" using y(1) by simp
    have "n4 = 24 \<Longrightarrow> n100 = 3" using n4' n100 that y(2) \<open>n1 = 3\<close> by linarith
    show ?thesis
    proof (cases "n4 = 24")
      case True
      with \<open>n4 = 24 \<Longrightarrow> n100 = 3\<close> yy show ?thesis by (simp add: leapYear_def)
    next
      case False
      have "y = 4 * (n4 + 1) + 100 * (4 * n400 + n100)" using yy by simp
      then have "y mod 100 = 4 * (n4 + 1) mod 100" by (metis mod_mult_self2)
      with False n4 have "y mod 100 = 4 * (n4 + 1)" by simp
      with yy n4 show ?thesis by (simp add: leapYear_def)
    qed
  qed
  ultimately show ?thesis using n1(3,4) by (auto split: if_splits)
qed

lemma monthLoop_day:
  assumes "monthLoop m ls d = (m', d')" "0 \<le> d" "d < sum_list ls" "list_all (\<lambda>l. 0 < l) ls"
  shows "m \<le> m' \<and> m' < m + int (length ls) \<and> 1 \<le> d' \<and> d' \<le> ls ! nat (m' - m)
    \<and> sum_list (take (nat (m' - m)) ls) + d' = d + 1"
  using assms
proof (induction m ls d rule: monthLoop.induct)
  case (2 m l ls d)
  show ?case
  proof (cases "d < l")
    case False
    with 2 have "m + 1 \<le> m' \<and> m' < m + 1 + int (length ls) \<and> 1 \<le> d' \<and> d' \<le> ls ! nat (m' - (m + 1))
        \<and> sum_list (take (nat (m' - (m + 1))) ls) + d' = d - l + 1" by simp
    moreover from this have "nat (m' - m) = Suc (nat (m' - (m + 1)))" by linarith
    ultimately show ?thesis by simp
  qed (use 2 in auto)
qed simp

end
