(* ===== verification/RunnerLog.thy ===== *)
theory RunnerLog
  imports CheckRunnerProgress Logging GoTime
begin

text \<open>
  What the \<open>Runner\<close> of \<open>check/runner.go\<close> writes to its logger while the goroutines of \<open>CheckRunner\<close> run: the transition
  system of that theory with the records of \<open>slog\<close>, and the lemmas that relate the two. A record is kept as an event that
  carries the values the code logs; \<open>eventLines\<close> are the records the handler lets through.
\<close>

section \<open>The runner's configuration\<close>

text \<open>A \<open>Timeout\<close> in nanoseconds and a \<open>Concurrency\<close> that are not positive stand for the defaults, a nil \<open>Logger\<close> for none.\<close>

record 'w checkRunner =
  ruLogger :: "'w logger option"
  ruTimeout :: int
  ruConcurrency :: int

definition defaultCheckTimeout :: int where "defaultCheckTimeout = 30 * nanosPerSecond"

definition effTimeout :: "int \<Rightarrow> int" where
  "effTimeout t = (if t \<le> 0 then defaultCheckTimeout else t)"

text \<open>\<open>Duration.Milliseconds\<close>, which truncates towards zero, of a positive duration\<close>

definition milliseconds :: "int \<Rightarrow> int" where "milliseconds d = d div 1000000"

section \<open>Records\<close>

text \<open>The trace \<open>runtime.Stack\<close> has is a parameter; \<open>captureStack\<close> keeps what fits its buffer.\<close>

definition stackBufBytes :: nat where "stackBufBytes = 64 * 1024"

definition captureStack :: "string \<Rightarrow> string" where
  "captureStack trace = take stackBufBytes trace"

datatype runEvent =
    RunStarting nat nat int
  | CheckPanicked nat string string string
  | CheckCompleted nat result
  | RunCompleted summary

definition runnerLogf :: "'w logger option \<Rightarrow> slogLevel \<Rightarrow> string \<Rightarrow> (string \<times> string) list \<Rightarrow> stderrItem list" where
  "runnerLogf lg lv msg attrs = (case lg of None \<Rightarrow> [] | Some l \<Rightarrow> logRecord l lv msg attrs)"

fun eventLines :: "'w logger option \<Rightarrow> runEvent \<Rightarrow> stderrItem list" where
  "eventLines lg (RunStarting n k ms) = runnerLogf lg LevelInfo ''runner starting''
     [(''total_checks'', showNat n), (''concurrency'', showNat k), (''timeout_ms'', itoa ms)]"
| "eventLines lg (CheckPanicked i cid v stack) = runnerLogf lg LevelError ''check panicked''
     [(''check_id'', cid), (''panic'', v), (''index'', showNat i), (''stack'', stack)]"
| "eventLines lg (CheckCompleted i r) = runnerLogf lg LevelInfo ''check completed''
     [(''check_id'', rCheckID r), (''state'', rState r), (''severity'', rSeverity r),
      (''duration_ms'', itoa (rDurationMS r))]"
| "eventLines lg (RunCompleted s) = runnerLogf lg LevelInfo ''runner completed''
     [(''total'', showNat (sTotal s)), (''pass'', showNat (sPass s)), (''fail'', showNat (sFail s)),
      (''skip'', showNat (sSkip s)), (''error'', showNat (sError s))]"

definition logLines :: "'w logger option \<Rightarrow> runEvent list \<Rightarrow> stderrItem list" where
  "logLines lg evs = concat (map (eventLines lg) evs)"

text \<open>The record of the deferred \<open>recover\<close> in \<open>executeCheck\<close>\<close>

definition panicEvents :: "'e \<Rightarrow> 'e \<Rightarrow> nat \<Rightarrow> string \<Rightarrow> 'e check \<Rightarrow> runEvent list" where
  "panicEvents e1 e2 i trace c =
     (case ckApplicable c e1 of
        Panic v \<Rightarrow> [CheckPanicked i (ckID c) v (captureStack trace)]
      | Ret (ok, reason) \<Rightarrow>
          if \<not> ok then []
          else (case ckRun c e2 of
              Panic v \<Rightarrow> [CheckPanicked i (ckID c) v (captureStack trace)]
            | Ret res \<Rightarrow> []))"

section \<open>The steps\<close>

text \<open>
  \<open>lsOwed\<close> maps a worker that has left the critical section, and found \<open>frozen\<close> unset there, to the result whose completion
  it still has to log before its deferred calls run.
\<close>

record logSys =
  lsSys :: runSys
  lsLog :: "runEvent list"
  lsOwed :: "nat \<rightharpoonup> result"

definition logInit :: "gotime \<Rightarrow> goerr option \<Rightarrow> nat \<Rightarrow> int \<Rightarrow> 'e check list \<Rightarrow> logSys" where
  "logInit generated ctx k timeout checks =
     \<lparr>lsSys = runInit generated ctx checks,
      lsLog = (if checks = [] then [] else [RunStarting (length checks) k (milliseconds (effTimeout timeout))]),
      lsOwed = Map.empty\<rparr>"

text \<open>The steps that log nothing: no worker executes a check, records or releases, and \<open>Run\<close> does not return.\<close>

fun quietMove :: "worker \<Rightarrow> worker \<Rightarrow> bool" where
  "quietMove Idle w = (w = Idle \<or> w = Running)"
| "quietMove Released w = (w = Released \<or> w = Finished)"
| "quietMove v w = (v = w)"

definition quiet :: "runSys \<Rightarrow> runSys \<Rightarrow> bool" where
  "quiet s t \<longleftrightarrow> list_all2 quietMove (sysWorkers s) (sysWorkers t) \<and> (sysMain s \<noteq> Frozen \<or> sysMain t = Frozen)"

inductive logStep :: "'e set \<Rightarrow> gotime \<Rightarrow> nat \<Rightarrow> 'e check list \<Rightarrow> logSys \<Rightarrow> logSys \<Rightarrow> bool"
  for W :: "'e set" and generated :: gotime and k :: nat and checks :: "'e check list" where
  log_quiet: "runStep W generated k checks (lsSys s) t \<Longrightarrow> quiet (lsSys s) t \<Longrightarrow>
    logStep W generated k checks s (s\<lparr>lsSys := t\<rparr>)"
| log_work: "i < length checks \<Longrightarrow> sysWorkers (lsSys s) ! i = Running \<Longrightarrow>
    r = (executeCheck e1 e2 t (checks ! i))\<lparr>rDurationMS := d\<rparr> \<Longrightarrow> e1 \<in> W \<Longrightarrow> e2 \<in> W \<Longrightarrow>
    logStep W generated k checks s
      (s\<lparr>lsSys := (lsSys s)\<lparr>sysWorkers := (sysWorkers (lsSys s))[i := Executed r]\<rparr>,
         lsLog := lsLog s @ panicEvents e1 e2 i stack (checks ! i)\<rparr>)"
| log_record: "i < length checks \<Longrightarrow> sysWorkers (lsSys s) ! i = Executed r \<Longrightarrow>
    logStep W generated k checks s
      (s\<lparr>lsSys := (lsSys s)\<lparr>sysWorkers := (sysWorkers (lsSys s))[i := Recorded],
                          sysState := recordResult i r (sysState (lsSys s))\<rparr>,
         lsOwed := (lsOwed s)(i := if rsFrozen (sysState (lsSys s)) then None else Some r)\<rparr>)"
| log_completed: "lsOwed s i = Some r \<Longrightarrow>
    logStep W generated k checks s
      (s\<lparr>lsLog := lsLog s @ [CheckCompleted i r], lsOwed := (lsOwed s)(i := None)\<rparr>)"
| log_release: "i < length checks \<Longrightarrow> sysWorkers (lsSys s) ! i = Recorded \<Longrightarrow> lsOwed s i = None \<Longrightarrow>
    logStep W generated k checks s
      (s\<lparr>lsSys := (lsSys s)\<lparr>sysWorkers := (sysWorkers (lsSys s))[i := Released],
                          sysTokens := sysTokens (lsSys s) - 1\<rparr>\<rparr>)"
| log_return: "sysMain (lsSys s) = Frozen \<Longrightarrow> rep = emptyReport generated (rsResults (sysState (lsSys s))) \<Longrightarrow>
    logStep W generated k checks s
      (s\<lparr>lsSys := (lsSys s)\<lparr>sysMain := Returned rep\<rparr>, lsLog := lsLog s @ [RunCompleted (repSummary rep)]\<rparr>)"

inductive_cases logStepE: "logStep W generated k checks s t"

abbreviation logReaches :: "'e set \<Rightarrow> gotime \<Rightarrow> nat \<Rightarrow> 'e check list \<Rightarrow> logSys \<Rightarrow> logSys \<Rightarrow> bool" where
  "logReaches W generated k checks \<equiv> (logStep W generated k checks)\<^sup>*\<^sup>*"

section \<open>Logging does not change the run\<close>

lemma quietMove_refl [simp]: "quietMove w w"
  by (cases w) simp_all

lemma quiet_update:
  "i < length ws \<Longrightarrow> quietMove (ws ! i) w \<Longrightarrow> list_all2 quietMove ws (ws[i := w])"
  by (simp add: list_all2_conv_all_nth nth_list_update)

lemma quiet_same: "list_all2 quietMove ws ws"
  by (simp add: list_all2_conv_all_nth)

lemma logStep_runStep:
  "logStep W generated k checks s t \<Longrightarrow> runStep W generated k checks (lsSys s) (lsSys t) \<or> lsSys t = lsSys s"
proof (induction rule: logStep.induct)
  case (log_work i s r d e1 e2 t stack)
  then show ?case by (auto intro: work)
next
  case (log_record i s r)
  then show ?case by (auto intro: record_result)
next
  case (log_release i s)
  then show ?case using release [of i checks "lsSys s"] by simp
next
  case (log_return s rep)
  then show ?case by (auto intro: return)
qed simp_all

lemma logReaches_runReaches:
  "logReaches W generated k checks s t \<Longrightarrow> runReaches W generated k checks (lsSys s) (lsSys t)"
proof (induction rule: rtranclp_induct)
  case (step t u)
  from logStep_runStep [OF step(2)] step(3) show ?case by (auto intro: rtranclp.rtrancl_into_rtrancl)
qed simp

text \<open>A step of the run is followed by the logged run, which first writes the line the worker owes.\<close>

lemma log_one: "logStep W generated k checks s u \<Longrightarrow> lsSys u = t \<Longrightarrow> \<exists>u. logReaches W generated k checks s u \<and> lsSys u = t"
  by blast

lemma quiet_one:
  "runStep W generated k checks (lsSys s) t \<Longrightarrow> quiet (lsSys s) t \<Longrightarrow>
    \<exists>u. logReaches W generated k checks s u \<and> lsSys u = t"
  by (rule log_one [OF log_quiet]) simp_all

lemma runStep_logReaches:
  assumes "runStep W generated k checks (lsSys s) t" and "sizesInv k checks (lsSys s)"
  shows "\<exists>u. logReaches W generated k checks s u \<and> lsSys u = t"
  using assms(1)
proof (cases rule: runStep.cases)
  case (work i r d e1 e2 st)
  show ?thesis by (rule log_one [OF log_work [OF work(2-6), where stack = "[]"]]) (simp add: work(1))
next
  case (record_result i r)
  show ?thesis by (rule log_one [OF log_record [OF record_result(2,3)]]) (simp add: record_result(1))
next
  case (release i)
  define s' where "s' = (case lsOwed s i of None \<Rightarrow> s
     | Some r \<Rightarrow> s\<lparr>lsLog := lsLog s @ [CheckCompleted i r], lsOwed := (lsOwed s)(i := None)\<rparr>)"
  have s1: "logReaches W generated k checks s s'"
    by (auto simp: s'_def intro: log_completed split: option.split)
  have s': "lsSys s' = lsSys s" "lsOwed s' i = None" by (auto simp: s'_def split: option.split)
  obtain u where u: "logReaches W generated k checks s' u" "lsSys u = t"
    using log_one [OF log_release [of i checks s' W generated k]] release s' by auto
  show ?thesis by (rule exI [of _ u]) (use rtranclp_trans [OF s1 u(1)] u(2) in simp)
next
  case return
  show ?thesis by (rule log_one [OF log_return [OF return(2) refl]]) (simp add: return(1))
next
  case dispatch
  then have "quiet (lsSys s) t" using assms(2) by (auto simp: quiet_def sizesInv_def intro!: quiet_update)
  with quiet_one [OF assms(1)] show ?thesis .
next
  case (wg_done i)
  then have "quiet (lsSys s) t" using assms(2) by (auto simp: quiet_def sizesInv_def intro!: quiet_update)
  with quiet_one [OF assms(1)] show ?thesis .
qed (use quiet_one [OF assms(1)] in \<open>simp_all add: quiet_def quiet_same\<close>)

lemma logged_run:
  "runReaches W generated k checks (runInit generated ctx checks) t \<Longrightarrow>
    \<exists>u. logReaches W generated k checks (logInit generated ctx k timeout checks) u \<and> lsSys u = t"
proof (induction rule: rtranclp_induct)
  case base
  show ?case by (rule exI [of _ "logInit generated ctx k timeout checks"]) (simp add: logInit_def)
next
  case (step t t')
  then obtain u where u: "logReaches W generated k checks (logInit generated ctx k timeout checks) u" "lsSys u = t"
    by blast
  have "sizesInv k checks t"
    using step(1) by (induction rule: rtranclp_induct) (simp_all add: sizesInv_init sizesInv_step)
  with runStep_logReaches [of W generated k checks u t'] step(2) u show ?case by (meson rtranclp_trans)
qed

end
