(* ===== verification/RunnerLogFacts.thy ===== *)
theory RunnerLogFacts
  imports RunnerLog
begin

text \<open>
  The runner's log agrees with the report, for every interleaving and every moment of cancellation; and the one order the
  comments of \<open>runner.go\<close> promise that the code does not keep.
\<close>

section \<open>The invariant\<close>

fun completedIndex :: "runEvent \<Rightarrow> nat option" where
  "completedIndex (CheckCompleted i r) = Some i"
| "completedIndex _ = None"

definition completions :: "runEvent list \<Rightarrow> nat list" where
  "completions evs = List.map_filter completedIndex evs"

fun closing :: "runEvent \<Rightarrow> bool" where
  "closing (RunCompleted s) = True"
| "closing _ = False"

lemma completions_append [simp]: "completions (xs @ ys) = completions xs @ completions ys"
  by (simp add: completions_def List.map_filter_def)

lemma completions_simps [simp]:
  "completions [] = []"
  "completions [RunStarting n k ms] = []" "completions [RunCompleted sm] = []"
  "completions [CheckCompleted i r] = [i]"
  by (simp_all add: completions_def List.map_filter_def)

lemma panicEvents_neutral [simp]:
  "completions (panicEvents e1 e2 i stack c) = []"
  "CheckCompleted j r \<notin> set (panicEvents e1 e2 i stack c)"
  "RunCompleted sm \<notin> set (panicEvents e1 e2 i stack c)"
  "filter closing (panicEvents e1 e2 i stack c) = []"
  by (auto simp: panicEvents_def completions_def List.map_filter_def split: outcome.split prod.split)

lemma in_completions: "i \<in> set (completions evs) \<longleftrightarrow> (\<exists>r. CheckCompleted i r \<in> set evs)"
proof (induction evs)
  case (Cons ev evs)
  then show ?case by (cases ev) (auto simp: completions_def List.map_filter_def)
qed simp

definition owedInv :: "'e check list \<Rightarrow> logSys \<Rightarrow> bool" where
  "owedInv checks s \<longleftrightarrow>
     (\<forall>i r. lsOwed s i = Some r \<longrightarrow> i < length checks \<and> sysWorkers (lsSys s) ! i = Recorded
        \<and> rsCompleted (sysState (lsSys s)) ! i \<and> rsResults (sysState (lsSys s)) ! i = r
        \<and> i \<notin> set (completions (lsLog s)))"

definition linesInv :: "'e check list \<Rightarrow> logSys \<Rightarrow> bool" where
  "linesInv checks s \<longleftrightarrow> distinct (completions (lsLog s))
     \<and> (\<forall>i r. CheckCompleted i r \<in> set (lsLog s) \<longrightarrow> i < length checks \<and> past (sysWorkers (lsSys s) ! i)
          \<and> rsCompleted (sysState (lsSys s)) ! i \<and> rsResults (sysState (lsSys s)) ! i = r)
     \<and> (sysCtx (lsSys s) = None \<longrightarrow> (\<forall>i < length checks. past (sysWorkers (lsSys s) ! i) \<longrightarrow>
          lsOwed s i \<noteq> None \<or> i \<in> set (completions (lsLog s))))"

definition closingInv :: "nat \<Rightarrow> int \<Rightarrow> 'e check list \<Rightarrow> logSys \<Rightarrow> bool" where
  "closingInv k timeout checks s \<longleftrightarrow>
     (\<exists>evs. lsLog s = RunStarting (length checks) k (milliseconds (effTimeout timeout)) # evs)
     \<and> filter closing (lsLog s) =
         (case sysMain (lsSys s) of Returned rep \<Rightarrow> [RunCompleted (repSummary rep)] | _ \<Rightarrow> [])
     \<and> (\<forall>rep. sysCtx (lsSys s) = None \<and> sysMain (lsSys s) = Returned rep \<longrightarrow>
          last (lsLog s) = RunCompleted (repSummary rep))"

text \<open>What a quiet step leaves as it is\<close>

lemma quietMove_past: "quietMove v w \<Longrightarrow> past w = past v \<and> (v = Recorded \<longrightarrow> w = Recorded)"
  by (cases v) auto

lemma quiet_step:
  assumes "runStep W generated k checks s t" "quiet s t" "sizesInv k checks s" "i < length checks"
  shows "past (sysWorkers t ! i) = past (sysWorkers s ! i)"
    and "sysWorkers s ! i = Recorded \<Longrightarrow> sysWorkers t ! i = Recorded"
    and "rsCompleted (sysState s) ! i \<Longrightarrow>
      rsCompleted (sysState t) ! i \<and> rsResults (sysState t) ! i = rsResults (sysState s) ! i"
proof -
  have "quietMove (sysWorkers s ! i) (sysWorkers t ! i)"
    using assms(2-4) by (auto simp: quiet_def sizesInv_def list_all2_conv_all_nth)
  then show "past (sysWorkers t ! i) = past (sysWorkers s ! i)"
    and "sysWorkers s ! i = Recorded \<Longrightarrow> sysWorkers t ! i = Recorded"
    using quietMove_past by blast+
  show "rsCompleted (sysState s) ! i \<Longrightarrow>
      rsCompleted (sysState t) ! i \<and> rsResults (sysState t) ! i = rsResults (sysState s) ! i"
    using assms(1,3,4)
    by (cases rule: runStep.cases) (auto simp: sizesInv_def freezeBackfill_spec recordResult_def nth_list_update)
qed

lemma quiet_main:
  assumes "runStep W generated k checks s t" "quiet s t"
  shows "sysMain t = Returned rep \<longleftrightarrow> sysMain s = Returned rep" and "sysCtx t = None \<Longrightarrow> sysCtx s = None"
  using assms by (auto simp: quiet_def elim!: runStepE)

lemma owedInv_quiet:
  "runStep W generated k checks (lsSys s) t \<Longrightarrow> quiet (lsSys s) t \<Longrightarrow> sizesInv k checks (lsSys s) \<Longrightarrow>
    owedInv checks s \<Longrightarrow> owedInv checks (s\<lparr>lsSys := t\<rparr>)"
  using quiet_step [of W generated k checks "lsSys s" t] by (fastforce simp: owedInv_def)

lemma linesInv_quiet:
  "runStep W generated k checks (lsSys s) t \<Longrightarrow> quiet (lsSys s) t \<Longrightarrow> sizesInv k checks (lsSys s) \<Longrightarrow>
    linesInv checks s \<Longrightarrow> linesInv checks (s\<lparr>lsSys := t\<rparr>)"
  using quiet_step [of W generated k checks "lsSys s" t] quiet_main [of W generated k checks "lsSys s" t]
  by (fastforce simp: linesInv_def)

lemma quiet_closing:
  assumes "runStep W generated k checks s t" "quiet s t"
  shows "(case sysMain t of Returned rep \<Rightarrow> f rep | _ \<Rightarrow> z) = (case sysMain s of Returned rep \<Rightarrow> f rep | _ \<Rightarrow> z)"
proof (cases "\<exists>rep. sysMain s = Returned rep")
  case False
  with quiet_main(1) [OF assms] show ?thesis by (cases "sysMain s"; cases "sysMain t") auto
next
  case True
  then obtain rep where "sysMain s = Returned rep" by blast
  with quiet_main(1) [OF assms, of rep] show ?thesis by simp
qed

lemma closingInv_quiet:
  "runStep W generated k checks (lsSys s) t \<Longrightarrow> quiet (lsSys s) t \<Longrightarrow>
    closingInv k timeout checks s \<Longrightarrow> closingInv k timeout checks (s\<lparr>lsSys := t\<rparr>)"
  using quiet_main [of W generated k checks "lsSys s" t]
  by (simp add: closingInv_def quiet_closing [of W generated k checks "lsSys s" t])

text \<open>While the context lives, no worker acts after \<open>Run\<close> has frozen the results.\<close>

lemma active_unfrozen:
  assumes "runInv W generated k checks s" "i < length checks"
    and "sysWorkers s ! i \<noteq> Idle" "sysWorkers s ! i \<noteq> Finished" "sysCtx s = None"
  shows "sysMain s = Selecting"
  using assms busy_worker_open [of k checks s generated i] by (auto simp: runInv_def phaseInv_def)

definition logInv :: "'e set \<Rightarrow> gotime \<Rightarrow> nat \<Rightarrow> int \<Rightarrow> 'e check list \<Rightarrow> logSys \<Rightarrow> bool" where
  "logInv W generated k timeout checks s \<longleftrightarrow>
     runInv W generated k checks (lsSys s) \<and> owedInv checks s \<and> linesInv checks s \<and> closingInv k timeout checks s"

lemma logInv_init:
  "checks \<noteq> [] \<Longrightarrow> logInv W generated k timeout checks (logInit generated ctx k timeout checks)"
  using runInv_init [of checks W generated k ctx]
  by (simp add: logInv_def owedInv_def linesInv_def closingInv_def logInit_def) (simp add: runInit_def Let_def)

lemma not_owed: "owedInv checks s \<Longrightarrow> sysWorkers (lsSys s) ! i \<noteq> Recorded \<Longrightarrow> lsOwed s i = None"
  by (cases "lsOwed s i") (auto simp: owedInv_def)

lemma not_logged: "linesInv checks s \<Longrightarrow> \<not> past (sysWorkers (lsSys s) ! i) \<Longrightarrow> CheckCompleted i r \<notin> set (lsLog s)"
  by (auto simp: linesInv_def)

lemma recordResult_keep:
  "rsCompleted st ! j \<Longrightarrow> rsCompleted (recordResult i r st) ! j \<and> rsResults (recordResult i r st) ! j = rsResults st ! j"
  by (cases "j < length (rsCompleted st)"; cases "i = j") (auto simp: recordResult_def nth_list_update)

lemma owedInv_step:
  "logStep W generated k checks s t \<Longrightarrow> logInv W generated k timeout checks s \<Longrightarrow> owedInv checks t"
proof (induction rule: logStep.induct)
  case (log_quiet s t)
  then show ?case using owedInv_quiet by (auto simp: logInv_def runInv_def)
next
  case (log_work i s r d e1 e2 t stack)
  then have "lsOwed s i = None" using not_owed [of checks s i] by (simp add: logInv_def)
  with log_work show ?case
    by (auto simp: owedInv_def logInv_def runInv_def sizesInv_def nth_list_update)
next
  case (log_record i s r)
  then have new: "i \<notin> set (completions (lsLog s))"
    using not_logged [of checks s i] by (simp add: logInv_def in_completions)
  have slot: "\<not> rsFrozen (sysState (lsSys s)) \<Longrightarrow> \<not> rsCompleted (sysState (lsSys s)) ! i"
    using log_record by (auto simp: logInv_def runInv_def slotInv_def)
  from log_record new slot show ?case
    by (auto simp: owedInv_def logInv_def runInv_def sizesInv_def recordResult_def nth_list_update)
next
  case (log_completed s i r)
  then show ?case by (auto simp: owedInv_def logInv_def)
next
  case (log_release i s)
  then show ?case by (auto simp: owedInv_def logInv_def runInv_def sizesInv_def nth_list_update)
next
  case (log_return s rep)
  then show ?case by (auto simp: owedInv_def logInv_def)
qed

lemma linesInv_step:
  "logStep W generated k checks s t \<Longrightarrow> logInv W generated k timeout checks s \<Longrightarrow> linesInv checks t"
proof (induction rule: logStep.induct)
  case (log_quiet s t)
  then show ?case using linesInv_quiet by (auto simp: logInv_def runInv_def)
next
  case (log_work i s r d e1 e2 t stack)
  then have "CheckCompleted i r \<notin> set (lsLog s)" for r using not_logged [of checks s i] by (simp add: logInv_def)
  with log_work show ?case
    by (auto simp: linesInv_def logInv_def runInv_def sizesInv_def nth_list_update)
next
  case (log_record i s r)
  let ?st = "sysState (lsSys s)"
  have open': "sysCtx (lsSys s) = None \<Longrightarrow> \<not> rsFrozen ?st"
  proof -
    assume "sysCtx (lsSys s) = None"
    moreover have "runInv W generated k checks (lsSys s)" using log_record by (simp add: logInv_def)
    ultimately have "sysMain (lsSys s) = Selecting" "phaseInv generated checks (lsSys s)"
      using log_record(1,2) active_unfrozen [of W generated k checks "lsSys s" i] by (simp_all add: runInv_def)
    then show "\<not> rsFrozen ?st" by (simp add: phaseInv_def)
  qed
  have inv: "linesInv checks s" "length (sysWorkers (lsSys s)) = length checks"
    using log_record by (simp_all add: logInv_def runInv_def sizesInv_def)
  have kept: "j < length checks \<and> past ((sysWorkers (lsSys s))[i := Recorded] ! j)
      \<and> rsCompleted (recordResult i r ?st) ! j \<and> rsResults (recordResult i r ?st) ! j = r'"
    if "CheckCompleted j r' \<in> set (lsLog s)" for j r'
  proof -
    have "i \<noteq> j" using not_logged [OF inv(1), of i] log_record(2) that by auto
    with inv(1) that recordResult_keep [of ?st j i r] show ?thesis by (auto simp: linesInv_def)
  qed
  have "j = i \<or> lsOwed s j \<noteq> None \<or> j \<in> set (completions (lsLog s))"
    if "sysCtx (lsSys s) = None" "j < length checks" "past ((sysWorkers (lsSys s))[i := Recorded] ! j)" for j
    using inv that by (cases "i = j") (simp_all add: linesInv_def)
  with kept open' inv(1) show ?case by (simp add: linesInv_def)
next
  case (log_completed s i r)
  then show ?case by (auto simp: linesInv_def owedInv_def logInv_def)
next
  case (log_release i s)
  then show ?case by (auto simp: linesInv_def logInv_def runInv_def sizesInv_def nth_list_update)
next
  case (log_return s rep)
  then show ?case by (auto simp: linesInv_def logInv_def)
qed

lemma closingInv_step:
  "logStep W generated k checks s t \<Longrightarrow> logInv W generated k timeout checks s \<Longrightarrow> closingInv k timeout checks t"
proof (induction rule: logStep.induct)
  case (log_quiet s t)
  then show ?case using closingInv_quiet by (auto simp: logInv_def)
next
  case (log_work i s r d e1 e2 t stack)
  then have "sysCtx (lsSys s) = None \<Longrightarrow> sysMain (lsSys s) = Selecting"
    using active_unfrozen [of W generated k checks "lsSys s" i] by (auto simp: logInv_def)
  with log_work show ?case by (auto simp: closingInv_def logInv_def)
next
  case (log_record i s r)
  then show ?case by (auto simp: closingInv_def logInv_def)
next
  case (log_completed s i r)
  then have "i < length checks" "sysWorkers (lsSys s) ! i = Recorded" by (auto simp: logInv_def owedInv_def)
  then have "sysCtx (lsSys s) = None \<Longrightarrow> sysMain (lsSys s) = Selecting"
    using log_completed active_unfrozen [of W generated k checks "lsSys s" i] by (auto simp: logInv_def)
  with log_completed show ?case by (auto simp: closingInv_def logInv_def)
next
  case (log_release i s)
  then show ?case by (auto simp: closingInv_def logInv_def)
next
  case (log_return s rep)
  then show ?case by (auto simp: closingInv_def logInv_def)
qed

lemma runInv_logStep:
  "logStep W generated k checks s t \<Longrightarrow> runInv W generated k checks (lsSys s) \<Longrightarrow> runInv W generated k checks (lsSys t)"
  using logStep_runStep [of W generated k checks s t] runInv_step [of W generated k checks "lsSys s" "lsSys t"] by auto

lemma logInv_reach:
  assumes "checks \<noteq> []" "logReaches W generated k checks (logInit generated ctx k timeout checks) s"
  shows "logInv W generated k timeout checks s"
  using assms(2)
proof (induction rule: rtranclp_induct)
  case (step s t)
  from owedInv_step [OF step(2,3)] linesInv_step [OF step(2,3)] closingInv_step [OF step(2,3)]
    runInv_logStep [OF step(2)] step(3)
  show ?case by (simp add: logInv_def)
qed (rule logInv_init [OF assms(1)])

section \<open>Panics\<close>

text \<open>\<open>r\<close> is what an execution of the check gave whose panic, if it had one, is in the log.\<close>

definition traced :: "'e set \<Rightarrow> runEvent list \<Rightarrow> nat \<Rightarrow> 'e check \<Rightarrow> result \<Rightarrow> bool" where
  "traced W evs i c r \<longleftrightarrow> (\<exists>e1\<in>W. \<exists>e2\<in>W. \<exists>t d stack.
     r = (executeCheck e1 e2 t c)\<lparr>rDurationMS := d\<rparr> \<and> set (panicEvents e1 e2 i stack c) \<subseteq> set evs)"

definition tracedSlot :: "'e set \<Rightarrow> 'e check list \<Rightarrow> logSys \<Rightarrow> nat \<Rightarrow> bool" where
  "tracedSlot W checks s i \<longleftrightarrow>
     (\<forall>r. sysWorkers (lsSys s) ! i = Executed r \<longrightarrow> traced W (lsLog s) i (checks ! i) r)
   \<and> (rsCompleted (sysState (lsSys s)) ! i \<longrightarrow>
        traced W (lsLog s) i (checks ! i) (rsResults (sysState (lsSys s)) ! i)
        \<or> cancelledResult (checks ! i) (sysCtx (lsSys s)) (rsResults (sysState (lsSys s)) ! i))"

lemma traced_append: "traced W evs i c r \<Longrightarrow> traced W (evs @ evs') i c r"
  by (fastforce simp: traced_def)

lemma traced_new:
  "e1 \<in> W \<Longrightarrow> e2 \<in> W \<Longrightarrow>
    traced W (evs @ panicEvents e1 e2 i stack c) i c ((executeCheck e1 e2 t c)\<lparr>rDurationMS := d\<rparr>)"
  unfolding traced_def
  by (rule bexI [of _ e1], rule bexI [of _ e2], rule exI [of _ t], rule exI [of _ d], rule exI [of _ stack]) simp_all

lemma quiet_executed:
  assumes "quiet s t" "sizesInv k checks s" "i < length checks" "sysWorkers t ! i = Executed r"
  shows "sysWorkers s ! i = Executed r"
proof -
  have "quietMove (sysWorkers s ! i) (sysWorkers t ! i)"
    using assms(1-3) by (auto simp: quiet_def sizesInv_def list_all2_conv_all_nth)
  with assms(4) show ?thesis by (cases "sysWorkers s ! i") auto
qed

lemma quiet_results:
  assumes "runStep W generated k checks s t" "quiet s t" "runInv W generated k checks s" "i < length checks"
    and "rsCompleted (sysState t) ! i"
  shows "rsCompleted (sysState s) ! i \<and> rsResults (sysState t) ! i = rsResults (sysState s) ! i
    \<or> cancelledResult (checks ! i) (sysCtx t) (rsResults (sysState t) ! i)"
  using assms(1)
proof (cases rule: runStep.cases)
  case (record_result j r)
  then have "j < length (sysWorkers s)" using assms(3) by (simp add: runInv_def sizesInv_def)
  then have "quietMove (Executed r) Recorded"
    using record_result assms(2) by (auto simp: quiet_def list_all2_conv_all_nth)
  then show ?thesis by simp
next
  case (freeze now)
  have sizes: "sizesInv k checks s" using assms(3) by (simp add: runInv_def)
  show ?thesis
  proof (cases "rsCompleted (sysState s) ! i")
    case True
    with freeze sizes assms(4) show ?thesis by (simp add: sizesInv_def freezeBackfill_spec)
  next
    case False
    then have "sysCtx s \<noteq> None" using all_recorded [OF assms(3) freeze(2) _ assms(4)] by blast
    with False freeze sizes assms(4) show ?thesis
      by (auto simp: sizesInv_def freezeBackfill_spec cancelledResult_def)
  qed
qed (use assms(5) in simp_all)

lemma quiet_cancelled:
  "runStep W generated k checks s t \<Longrightarrow> cancelledResult c (sysCtx s) r \<Longrightarrow> cancelledResult c (sysCtx t) r"
  by (auto simp: cancelledResult_def elim!: runStepE)

lemma tracedSlot_step:
  "logStep W generated k checks s t \<Longrightarrow> logInv W generated k timeout checks s \<Longrightarrow> i < length checks \<Longrightarrow>
    tracedSlot W checks s i \<Longrightarrow> tracedSlot W checks t i"
proof (induction rule: logStep.induct)
  case (log_quiet s t)
  then have inv: "runInv W generated k checks (lsSys s)" "sizesInv k checks (lsSys s)"
    by (simp_all add: logInv_def runInv_def)
  have kept: "sysWorkers t ! i = Executed r \<Longrightarrow> sysWorkers (lsSys s) ! i = Executed r" for r
    by (rule quiet_executed [OF log_quiet(2) inv(2) log_quiet(4)])
  show ?case
    using log_quiet(5) kept quiet_results [OF log_quiet(1,2) inv(1) log_quiet(4)] quiet_cancelled [OF log_quiet(1)]
    by (auto simp: tracedSlot_def dest: quiet_cancelled [OF log_quiet(1)])
next
  case (log_work j s r d e1 e2 t stack)
  have new: "traced W (lsLog s @ panicEvents e1 e2 j stack (checks ! j)) j (checks ! j) r"
    unfolding log_work(3) by (rule traced_new [OF log_work(4,5)])
  have "length (sysWorkers (lsSys s)) = length checks" using log_work by (simp add: logInv_def runInv_def sizesInv_def)
  with log_work(1,7,8) new show ?case
    by (cases "i = j") (auto simp: tracedSlot_def intro: traced_append)
next
  case (log_record j s r)
  have sizes: "sizesInv k checks (lsSys s)" using log_record by (simp add: logInv_def runInv_def)
  show ?case
  proof (cases "i = j")
    case True
    with log_record sizes show ?thesis by (auto simp: tracedSlot_def sizesInv_def recordResult_def)
  next
    case False
    with log_record sizes show ?thesis by (auto simp: tracedSlot_def sizesInv_def recordResult_def)
  qed
next
  case (log_completed s j r)
  then show ?case by (auto simp: tracedSlot_def intro: traced_append)
next
  case (log_release j s)
  then have "length (sysWorkers (lsSys s)) = length checks" by (simp add: logInv_def runInv_def sizesInv_def)
  with log_release show ?case by (cases "i = j") (auto simp: tracedSlot_def)
next
  case (log_return s rep)
  then show ?case by (auto simp: tracedSlot_def intro: traced_append)
qed

lemma tracedSlot_reach:
  assumes "checks \<noteq> []" "logReaches W generated k checks (logInit generated ctx k timeout checks) s" "i < length checks"
  shows "tracedSlot W checks s i"
  using assms(2)
proof (induction rule: rtranclp_induct)
  case base
  show ?case using assms(3) by (simp add: tracedSlot_def logInit_def runInit_def Let_def)
next
  case (step s t)
  show ?case by (rule tracedSlot_step [OF step(2) logInv_reach [OF assms(1) step(1)] assms(3) step(3)])
qed

section \<open>The log and the report\<close>

text \<open>
  Property C10: the log agrees with the report. For every interleaving and whenever the context is cancelled: the log starts
  with the starting line; a check has at most one completion line, and whenever that line is written it carries the result that
  the report has at the check's position; there is exactly one closing line once \<open>Run\<close> has returned, with the summary of the
  report, and none before; and if the context lives, every check has its completion line and the closing line is the last.
\<close>

theorem runner_log:
  assumes "checks \<noteq> []" "logReaches W generated k checks (logInit generated ctx k timeout checks) s"
  shows "(\<exists>evs. lsLog s = RunStarting (length checks) k (milliseconds (effTimeout timeout)) # evs)
    \<and> distinct (completions (lsLog s))
    \<and> (\<forall>i r. CheckCompleted i r \<in> set (lsLog s) \<longrightarrow> i < length checks \<and> rsResults (sysState (lsSys s)) ! i = r)
    \<and> filter closing (lsLog s) =
        (case sysMain (lsSys s) of Returned rep \<Rightarrow> [RunCompleted (repSummary rep)] | _ \<Rightarrow> [])
    \<and> (\<forall>rep. sysMain (lsSys s) = Returned rep \<longrightarrow> repResults rep = rsResults (sysState (lsSys s)))
    \<and> (\<forall>rep. sysMain (lsSys s) = Returned rep \<and> sysCtx (lsSys s) = None \<longrightarrow>
         set (completions (lsLog s)) = {..<length checks} \<and> last (lsLog s) = RunCompleted (repSummary rep))"
proof -
  note inv = logInv_reach [OF assms]
  then have run: "runInv W generated k checks (lsSys s)" and lns: "linesInv checks s" and owed: "owedInv checks s"
    by (simp_all add: logInv_def)
  have rep: "repResults rep = rsResults (sysState (lsSys s))" if "sysMain (lsSys s) = Returned rep" for rep
    using run that by (simp add: runInv_def phaseInv_def emptyReport_def)
  have all: "set (completions (lsLog s)) = {..<length checks}"
    if "sysMain (lsSys s) = Returned rep" "sysCtx (lsSys s) = None" for rep
  proof -
    have "i \<in> set (completions (lsLog s))" if "i < length checks" for i
    proof -
      from run \<open>sysMain (lsSys s) = Returned rep\<close> \<open>sysCtx (lsSys s) = None\<close>
      have "sysDisp (lsSys s) = Closed" "sysNext (lsSys s) = length checks" by (auto simp: runInv_def phaseInv_def)
      with run \<open>i < length checks\<close> have "sysWorkers (lsSys s) ! i \<noteq> Idle" "sysWorkers (lsSys s) ! i = Finished"
        by (auto simp: runInv_def sizesInv_def phaseInv_def list_all_length)
      then have "past (sysWorkers (lsSys s) ! i)" "lsOwed s i = None" using not_owed [OF owed, of i] by simp_all
      with lns \<open>sysCtx (lsSys s) = None\<close> \<open>i < length checks\<close> show ?thesis by (auto simp: linesInv_def)
    qed
    moreover have "i < length checks" if "i \<in> set (completions (lsLog s))" for i
      using lns that by (auto simp: linesInv_def in_completions)
    ultimately show ?thesis by auto
  qed
  from inv rep all show ?thesis by (simp add: logInv_def linesInv_def closingInv_def)
qed

lemma demo_logged:
  "\<exists>s rep. logReaches UNIV 0 1 [demoCheck] (logInit 0 None 1 0 [demoCheck]) s \<and> sysMain (lsSys s) = Returned rep
     \<and> sysCtx (lsSys s) = None"
proof -
  obtain t rep where t: "runReaches UNIV 0 1 [demoCheck] (runInit 0 None [demoCheck]) t" "sysMain t = Returned rep" "sysCtx t = None"
    using demo_run by blast
  from logged_run [OF t(1), of 0] t(2,3) show ?thesis by blast
qed

theorem runner_log_witness:
  "\<exists>(s :: logSys) rep. sysMain (lsSys s) = Returned rep \<and> completions (lsLog s) = [0] \<and> hd (lsLog s) = RunStarting 1 1 30000
     \<and> last (lsLog s) = RunCompleted (repSummary rep)"
proof -
  obtain s rep where s: "logReaches UNIV 0 1 [demoCheck] (logInit 0 None 1 0 [demoCheck]) s" "sysMain (lsSys s) = Returned rep"
    "sysCtx (lsSys s) = None"
    using demo_logged by blast
  from runner_log [OF _ s(1)] s(2,3) have log: "distinct (completions (lsLog s))" "set (completions (lsLog s)) = {..<1}"
    "last (lsLog s) = RunCompleted (repSummary rep)" "hd (lsLog s) = RunStarting 1 1 (milliseconds (effTimeout 0))"
    by auto
  have "completions (lsLog s) = [0]"
    using log(1,2) sorted_list_of_set_unique [of "{..<1::nat}"] distinct_card [OF log(1)]
    by (cases "completions (lsLog s)"; cases "tl (completions (lsLog s))") auto
  with s(2) log(3,4) show ?thesis
    by (intro exI [of _ s] exI [of _ rep]) (simp add: effTimeout_def defaultCheckTimeout_def nanosPerSecond_def milliseconds_def)
qed

text \<open>Every result of a report is of an execution whose panic was logged, or tells of the cancellation.\<close>

lemma panics_logged:
  assumes "checks \<noteq> []" "logReaches W generated k checks (logInit generated ctx k timeout checks) s"
    and "sysMain (lsSys s) = Returned rep" "i < length checks"
  shows "traced W (lsLog s) i (checks ! i) (repResults rep ! i)
    \<or> cancelledResult (checks ! i) (sysCtx (lsSys s)) (repResults rep ! i)"
  using tracedSlot_reach [OF assms(1,2,4)] logInv_reach [OF assms(1,2)] assms(3,4)
  by (auto simp: tracedSlot_def logInv_def runInv_def phaseInv_def slotInv_def emptyReport_def)

text \<open>A stack trace in the log never exceeds the buffer.\<close>

lemma panic_stack: "CheckPanicked j cid v stack \<in> set (panicEvents e1 e2 i trace c) \<Longrightarrow> length stack \<le> stackBufBytes"
  by (auto simp: panicEvents_def captureStack_def split: outcome.splits prod.splits if_splits)

text \<open>A nil logger gets nothing; below \<open>-v\<close> a logger gets the panics, and it gets them at every verbosity.\<close>

lemma eventLines_nil: "eventLines None ev = []"
  by (cases ev) (simp_all add: runnerLogf_def)

lemma logLines_nil: "logLines None evs = []"
  by (simp add: logLines_def eventLines_nil)

lemma panic_line:
  assumes "CheckPanicked i cid v stack \<in> set evs"
  shows "Logged LevelError ''check panicked''
      (lgAttrs l @ [(''check_id'', cid), (''panic'', v), (''index'', showNat i), (''stack'', stack)]) \<in> set (logLines (Some l) evs)"
  using assms by (induction evs) (auto simp: logLines_def runnerLogf_def error_always_logged)

lemma quiet_lines:
  assumes "lgLevel l = LevelWarn" "x \<in> set (logLines (Some l) evs)"
  shows "\<exists>attrs. x = Logged LevelError ''check panicked'' attrs"
proof -
  obtain ev where "ev \<in> set evs" "x \<in> set (eventLines (Some l) ev)" using assms(2) by (auto simp: logLines_def)
  with assms(1) show ?thesis by (cases ev) (simp_all add: runnerLogf_def logRecord_def logEnabled_def)
qed

section \<open>The runs of the logged system\<close>

lemma logged_runs:
  "(\<exists>s. logReaches W generated k checks (logInit generated ctx k timeout checks) s \<and> lsSys s = t)
     \<longleftrightarrow> runReaches W generated k checks (runInit generated ctx checks) t"
  using logged_run [of W generated k checks ctx t timeout] logReaches_runReaches [of W generated k checks "logInit generated ctx k timeout checks"]
  by (auto simp: logInit_def)

section \<open>A line after the closing line\<close>

text \<open>
  The code decides under the lock whether a worker logs its completion, and logs after it has left it. So if the context is
  cancelled in between, the completion line may follow the line "runner completed".
\<close>

lemma late_completion:
  "\<exists>s sm r. logReaches UNIV 0 1 [demoCheck] (logInit 0 None 1 0 [demoCheck]) s
     \<and> lsLog s = [RunStarting 1 1 30000, RunCompleted sm, CheckCompleted 0 r]"
proof -
  let ?R = "logStep UNIV 0 1 [demoCheck]"
  define e :: goerr where "e = plainErr []"
  define r where "r = (executeCheck 0 0 5 demoCheck)\<lparr>rDurationMS := 2\<rparr>"
  define s0 where "s0 = logInit 0 None 1 0 [demoCheck]"
  define s1 where "s1 = s0\<lparr>lsSys := (lsSys s0)\<lparr>sysTokens := 1, sysWorkers := [Running], sysNext := 1\<rparr>\<rparr>"
  define s2 where "s2 = s1\<lparr>lsSys := (lsSys s1)\<lparr>sysWorkers := [Executed r]\<rparr>\<rparr>"
  define s3 where "s3 = s2\<lparr>lsSys := (lsSys s2)\<lparr>sysWorkers := [Recorded], sysState := recordResult 0 r (sysState (lsSys s2))\<rparr>,
    lsOwed := [0 \<mapsto> r]\<rparr>"
  define s4 where "s4 = s3\<lparr>lsSys := (lsSys s3)\<lparr>sysCtx := Some e\<rparr>\<rparr>"
  define s5 where "s5 = s4\<lparr>lsSys := (lsSys s4)\<lparr>sysMain := Selected\<rparr>\<rparr>"
  define s6 where "s6 = s5\<lparr>lsSys := (lsSys s5)\<lparr>sysMain := Frozen, sysState := freezeBackfill 9 (Some e) [demoCheck] (sysState (lsSys s5))\<rparr>\<rparr>"
  define rep where "rep = emptyReport 0 (rsResults (sysState (lsSys s6)))"
  define s7 where "s7 = s6\<lparr>lsSys := (lsSys s6)\<lparr>sysMain := Returned rep\<rparr>, lsLog := lsLog s6 @ [RunCompleted (repSummary rep)]\<rparr>"
  define s8 where "s8 = s7\<lparr>lsLog := lsLog s7 @ [CheckCompleted 0 r], lsOwed := Map.empty\<rparr>"
  note d = s8_def s7_def s6_def s5_def s4_def s3_def s2_def s1_def s0_def logInit_def runInit_def Let_def
  have pan: "panicEvents (0::nat) 0 0 [] demoCheck = []" by (simp add: panicEvents_def demoCheck_def)
  have "?R s0 s1"
    using log_quiet [OF dispatch [of "lsSys s0" "[demoCheck]" 1 UNIV 0]] by (simp add: d quiet_def)
  moreover have "?R s1 s2"
    using log_work [of 0 "[demoCheck]" s1 r 2 0 0 5 UNIV 0 1 "[]"] pan by (simp add: d r_def)
  moreover have "?R s2 s3" using log_record [of 0 "[demoCheck]" s2 r UNIV 0 1] by (simp add: d)
  moreover have "?R s3 s4" using log_quiet [OF cancel [of "lsSys s3" UNIV 0 1 "[demoCheck]" e]] by (simp add: d quiet_def)
  moreover have "?R s4 s5" using log_quiet [OF select_cancelled [of "lsSys s4" UNIV 0 1 "[demoCheck]"]] by (simp add: d quiet_def)
  moreover have "?R s5 s6" using log_quiet [OF freeze [of "lsSys s5" UNIV 0 1 "[demoCheck]" 9]] by (simp add: d quiet_def)
  moreover have "?R s6 s7" using log_return [of s6 rep 0 UNIV 1 "[demoCheck]"] by (simp add: d rep_def)
  moreover have "?R s7 s8" using log_completed [of s7 0 r UNIV 0 1 "[demoCheck]"] by (simp add: d)
  ultimately have "?R\<^sup>*\<^sup>* s0 s8"
    by (meson converse_rtranclp_into_rtranclp rtranclp.rtrancl_refl)
  moreover have "lsLog s0 = [RunStarting 1 1 30000]"
    by (simp add: s0_def logInit_def effTimeout_def defaultCheckTimeout_def nanosPerSecond_def milliseconds_def)
  moreover have "lsLog s6 = lsLog s0" unfolding s6_def s5_def s4_def s3_def s2_def s1_def by simp
  moreover have "lsLog s8 = lsLog s6 @ [RunCompleted (repSummary rep), CheckCompleted 0 r]"
    unfolding s8_def s7_def by simp
  ultimately have "?R\<^sup>*\<^sup>* s0 s8 \<and> lsLog s8 = [RunStarting 1 1 30000, RunCompleted (repSummary rep), CheckCompleted 0 r]"
    by (metis append_Cons append_Nil)
  then show ?thesis unfolding s0_def by blast
qed

end
