(* ===== verification/Preset.thy ===== *)
theory Preset
  imports CheckRunnerFacts ConfProps ProcModules Modprobe
begin

text \<open>
  Package \<open>preset/copyfail\<close>: the five required checks and \<open>AllWithOptions\<close>. What a check sees when
  it runs is a \<open>hostEnv\<close>: the file system, the state of the runner's outside world and the clock
  at that moment. The evidence map is an association list, updated in place.
\<close>

record 's hostEnv =
  heFS :: hostFS
  heWorld :: 's
  heNow :: gotime

fun evUpdate :: "string \<Rightarrow> evidence \<Rightarrow> (string \<times> evidence) list \<Rightarrow> (string \<times> evidence) list" where
  "evUpdate k v [] = [(k, v)]"
| "evUpdate k v ((k', v') # ev) = (if k' = k then (k, v) # ev else (k', v') # evUpdate k v ev)"

text \<open>\<open>res.Evidence[k] = v\<close>\<close>

definition evPut :: "string \<Rightarrow> evidence \<Rightarrow> result \<Rightarrow> result" where
  "evPut k v r = r\<lparr>rEvidence := evUpdate k v (rEvidence r)\<rparr>"

lemma evPut_sel [simp]:
  "rCheckID (evPut k v r) = rCheckID r" "rTitle (evPut k v r) = rTitle r"
  "rSeverity (evPut k v r) = rSeverity r" "rState (evPut k v r) = rState r"
  "rErr (evPut k v r) = rErr r" "rDetail (evPut k v r) = rDetail r" "rStartedAt (evPut k v r) = rStartedAt r"
  by (simp_all add: evPut_def)

abbreviation dquote :: string where "dquote \<equiv> [CHR 0x22]"
abbreviation emDash :: string where "emDash \<equiv> [CHR 0xE2, CHR 0x80, CHR 0x94]"

text \<open>The result literal every \<open>Run\<close> starts from, given the check's identity\<close>

definition presetResult :: "string \<Rightarrow> string \<Rightarrow> gotime \<Rightarrow> (string \<times> evidence) list \<Rightarrow> result" where
  "presetResult i title t ev = zeroResult\<lparr>rCheckID := i, rTitle := title,
     rSeverity := SeverityRequired, rStartedAt := t, rEvidence := ev\<rparr>"

lemma presetResult_sel [simp, identity_simps]:
  "rCheckID (presetResult i title t ev) = i" "rTitle (presetResult i title t ev) = title"
  "rSeverity (presetResult i title t ev) = SeverityRequired" "rState (presetResult i title t ev) = []"
  "rErr (presetResult i title t ev) = []" "rStartedAt (presetResult i title t ev) = t"
  by (simp_all add: presetResult_def zeroResult_def)

definition requiredInstallTarget :: string where
  "requiredInstallTarget = ''/bin/false''"

definition alwaysApplicable :: "'s hostEnv \<Rightarrow> (bool \<times> string) outcome" where
  "alwaysApplicable e = Ret (True, [])"

subsection \<open>modprobe.conf_present\<close>

definition confPresentTitle :: string where
  "confPresentTitle = ''Modprobe blocklist file present''"

definition confPresentRun :: "string \<Rightarrow> 's hostEnv \<Rightarrow> result" where
  "confPresentRun confPath e =
     (let res = presetResult ''modprobe.conf_present'' confPresentTitle (heNow e) [(''path'', EvStr confPath)] in
      case fsStat (heFS e) confPath of
        Inl err \<Rightarrow>
          if errIs err FsErrNotExist
          then evPut ''exists'' (EvBool False)
                 (res\<lparr>rState := StateFail, rDetail := ''blocklist file does not exist: '' @ confPath\<rparr>)
          else evPut ''exists'' (EvBool False)
                 (res\<lparr>rState := StateError, rDetail := ''stat '' @ confPath @ '': '' @ errMsg err,
                      rErr := errMsg (wrapErr (''copyfail: stat '' @ confPath @ '': '') err [])\<rparr>)
      | Inr info \<Rightarrow>
          let res1 = evPut ''size_bytes'' (EvInt (fiSize info))
                       (evPut ''is_regular'' (EvBool (isRegular info)) (evPut ''exists'' (EvBool True) res)) in
          if \<not> isRegular info
          then res1\<lparr>rState := StateFail, rDetail := ''blocklist path is not a regular file (mode='' @
                 fiMode info @ ''): '' @ confPath\<rparr>
          else res1\<lparr>rState := StatePass, rDetail := ''blocklist file present at '' @ confPath @ '' ('' @
                 itoa (fiSize info) @ '' bytes)''\<rparr>)"

definition confPresentCheck :: "string \<Rightarrow> 's hostEnv check" where
  "confPresentCheck confPath =
     \<lparr>ckID = ''modprobe.conf_present'', ckTitle = confPresentTitle,
      ckDescription = ''Verifies that the /etc/modprobe.d/*.conf file containing the AF_ALG-family '' @
        ''module blocklist directives exists on disk and is a regular file. A missing or '' @
        ''non-regular blocklist file means the modprobe-level mitigation for CVE-2026-31431 '' @
        ''is not deployed; remediate by writing the canonical blocklist to the path shown '' @
        ''in Evidence.path.'',
      ckSeverity = SeverityRequired, ckApplicable = alwaysApplicable,
      ckRun = (\<lambda>e. Ret (confPresentRun confPath e))\<rparr>"

subsection \<open>modprobe.conf_correct\<close>

definition confCorrectTitle :: string where
  "confCorrectTitle = ''Blocklist contains both install /bin/false and blacklist directives''"

definition confCorrectRun :: "string \<Rightarrow> string \<Rightarrow> 's hostEnv \<Rightarrow> result" where
  "confCorrectRun confPath module e =
     (let res = presetResult ''modprobe.conf_correct'' confCorrectTitle (heNow e)
                  [(''path'', EvStr confPath), (''module'', EvStr module)] in
      case parseConfFile (heFS e) confPath of
        (directives, Some err) \<Rightarrow>
          if errIs err FsErrNotExist
          then evPut ''directive_count'' (EvInt 0)
                 (res\<lparr>rState := StateFail, rDetail := ''blocklist file does not exist: '' @ confPath\<rparr>)
          else evPut ''directive_count'' (EvInt (int (length directives)))
                 (res\<lparr>rState := StateError, rDetail := ''parse '' @ confPath @ '': '' @ errMsg err,
                      rErr := errMsg (wrapErr (''copyfail: parse '' @ confPath @ '': '') err [])\<rparr>)
      | (directives, None) \<Rightarrow>
          let (target, hasInstall) = installTarget directives module;
              blacklisted = isBlacklisted directives module;
              res1 = evPut ''blacklisted'' (EvBool blacklisted) (evPut ''install_target'' (EvStr target)
                       (evPut ''directive_count'' (EvInt (int (length directives))) res));
              missing =
                (if \<not> hasInstall \<or> target \<noteq> requiredInstallTarget
                 then [''install '' @ module @ '' '' @ requiredInstallTarget] else []) @
                (if \<not> blacklisted then [''blacklist '' @ module] else [])
          in if missing \<noteq> []
             then res1\<lparr>rState := StateFail,
                       rDetail := ''missing required directive(s): '' @ join '', '' missing\<rparr>
             else res1\<lparr>rState := StatePass,
                       rDetail := ''both required directives present for module '' @ goQuote module\<rparr>)"

definition confCorrectCheck :: "string \<Rightarrow> string \<Rightarrow> 's hostEnv check" where
  "confCorrectCheck confPath module =
     \<lparr>ckID = ''modprobe.conf_correct'', ckTitle = confCorrectTitle,
      ckDescription = ''Parses the blocklist conf file and verifies it contains both the canonical '' @
        dquote @ ''install <module> /bin/false'' @ dquote @ '' directive (so modprobe resolves the module to a '' @
        ''no-op) AND the matching '' @ dquote @ ''blacklist <module>'' @ dquote @ '' directive (so the module cannot be '' @
        ''loaded via an alias). Both directives are required by the recommended mitigation '' @
        ''for CVE-2026-31431; missing either leaves a window for the module to load.'',
      ckSeverity = SeverityRequired, ckApplicable = alwaysApplicable,
      ckRun = (\<lambda>e. Ret (confCorrectRun confPath module e))\<rparr>"

subsection \<open>modprobe.dry_run\<close>

definition dryRunTitle :: string where
  "dryRunTitle = ''modprobe -n -v resolves the module to /bin/false''"

definition dryRunErrDetail :: "string \<Rightarrow> goerr \<Rightarrow> string" where
  "dryRunErrDetail module err =
     (if errIs err ErrCommandNotFound then ''modprobe binary not available on this host''
      else if errIs err ErrCommandDenied then ''modprobe binary is not on the exec allowlist''
      else if errIs err ErrInvalidArg then ''module name '' @ goQuote module @ '' rejected by argument validator''
      else if errIs err ErrTimeout then ''modprobe -n -v '' @ module @ '' timed out''
      else ''modprobe -n -v '' @ module @ '': '' @ errMsg err)"

definition dryRunCheckRun :: "'s runner \<Rightarrow> string \<Rightarrow> 's hostEnv \<Rightarrow> result" where
  "dryRunCheckRun run module e =
     (let res = presetResult ''modprobe.dry_run'' dryRunTitle (heNow e)
                  [(''command'', EvStr (''modprobe -n -v '' @ module)), (''module'', EvStr module)] in
      case fst (dryRunModule run (heWorld e) module) of (dry, err) \<Rightarrow>
        let res1 = evPut ''blocked'' (EvBool (drBlocked dry)) (evPut ''resolved_to'' (EvStr (drResolvedTo dry))
                     (evPut ''raw_output'' (EvStr (drRawOutput dry)) res)) in
        case err of
          Some er \<Rightarrow> res1\<lparr>rState := StateError, rErr := errMsg (wrapErr ''copyfail: modprobe dry-run: '' er []),
                         rDetail := dryRunErrDetail module er\<rparr>
        | None \<Rightarrow>
            if drBlocked dry
            then res1\<lparr>rState := StatePass, rDetail := ''modprobe -n -v resolves to '' @ goQuote (drResolvedTo dry)\<rparr>
            else res1\<lparr>rState := StateFail,
                      rDetail := (if drResolvedTo dry = []
                        then ''modprobe -n -v produced no output (module may be unknown to modprobe)''
                        else ''modprobe -n -v resolved to: '' @ drResolvedTo dry)\<rparr>)"

definition dryRunCheck :: "'s runner \<Rightarrow> string \<Rightarrow> 's hostEnv check" where
  "dryRunCheck run module =
     \<lparr>ckID = ''modprobe.dry_run'', ckTitle = dryRunTitle,
      ckDescription = ''Invokes `modprobe -n -v <module>` (dry run + verbose) and verifies the first '' @
        ''non-blank line of stdout is exactly '' @ dquote @ ''install /bin/false'' @ dquote @ ''. This confirms '' @
        ''modprobe'' @ [CHR 0x27] @ ''s runtime resolution agrees with the conf-file contents '' @ emDash @ '' a separate '' @
        ''signal from the static parse so a configuration that LOOKS correct on disk but '' @
        ''is shadowed by a higher-priority override still surfaces as a failure.'',
      ckSeverity = SeverityRequired, ckApplicable = alwaysApplicable,
      ckRun = (\<lambda>e. Ret (dryRunCheckRun run module e))\<rparr>"

subsection \<open>modprobe.dependency_chain\<close>

definition chainTitle :: string where
  "chainTitle = ''No later-sorting modprobe.d file overrides the blocklist''"

fun lastInstallLoop :: "string \<Rightarrow> confDirective list \<Rightarrow> string \<times> string \<times> bool \<Rightarrow> string \<times> string \<times> bool" where
  "lastInstallLoop module [] acc = acc"
| "lastInstallLoop module (d # ds) acc =
     (if cdKind d \<noteq> ''install'' \<or> cdModule d \<noteq> module then lastInstallLoop module ds acc
      else lastInstallLoop module ds
             (join '' '' (cdArgs d), cdSource d @ '':'' @ itoa (int (cdLineNum d)), True))"

definition lastInstallDirective :: "confDirective list \<Rightarrow> string \<Rightarrow> string \<times> string \<times> bool" where
  "lastInstallDirective ds module = lastInstallLoop module ds ([], [], False)"

definition chainRun :: "string \<Rightarrow> string \<Rightarrow> 's hostEnv \<Rightarrow> result" where
  "chainRun dir module e =
     (let res = presetResult ''modprobe.dependency_chain'' chainTitle (heNow e)
                  [(''dir'', EvStr dir), (''module'', EvStr module)] in
      case parseConfDir (heFS e) dir of
        (directives, Some err) \<Rightarrow>
          let res1 = evPut ''directive_count'' (EvInt (int (length directives))) res in
          if errIs err FsErrNotExist
          then res1\<lparr>rState := StateFail, rDetail := dir @ '' directory missing''\<rparr>
          else res1\<lparr>rState := StateError, rDetail := ''scan '' @ dir @ '': '' @ errMsg err,
                    rErr := errMsg (wrapErr (''copyfail: scan '' @ dir @ '': '') err [])\<rparr>
      | (directives, None) \<Rightarrow>
          let res1 = evPut ''directive_count'' (EvInt (int (length directives))) res;
              (lastTarget, lastSource, found) = lastInstallDirective directives module;
              res2 = evPut ''last_install_source'' (EvStr lastSource)
                       (evPut ''last_install_target'' (EvStr lastTarget) res1)
          in if \<not> found
             then res2\<lparr>rState := StateFail, rDetail := ''no install directive for '' @ goQuote module @
                         '' in any file under '' @ dir\<rparr>
             else if lastTarget \<noteq> requiredInstallTarget
             then evPut ''override_target'' (EvStr lastTarget) (evPut ''override_source'' (EvStr lastSource)
                    (res2\<lparr>rState := StateFail,
                          rDetail := ''blocklist overridden by later directive in '' @ lastSource @
                            '' (resolves to '' @ goQuote lastTarget @ '', want '' @
                            goQuote requiredInstallTarget @ '')''\<rparr>))
             else res2\<lparr>rState := StatePass, rDetail := ''last install directive for '' @ goQuote module @
                         '' in '' @ lastSource @ '' resolves to '' @ requiredInstallTarget\<rparr>)"

definition chainCheck :: "string \<Rightarrow> string \<Rightarrow> 's hostEnv check" where
  "chainCheck dir module =
     \<lparr>ckID = ''modprobe.dependency_chain'', ckTitle = chainTitle,
      ckDescription = ''Scans every *.conf file in the modprobe.d directory in alphabetical order '' @
        ''and verifies the LAST install directive for the configured module resolves to '' @
        ''/bin/false. modprobe applies later-sorting files on top of earlier ones, so a '' @
        ''single override directive in 99-experimental.conf silently defeats the baseline '' @
        ''blocklist. This check is the defense-in-depth complement to modprobe.conf_correct.'',
      ckSeverity = SeverityRequired, ckApplicable = alwaysApplicable,
      ckRun = (\<lambda>e. Ret (chainRun dir module e))\<rparr>"

subsection \<open>module.not_loaded\<close>

definition procModulesPath :: string where
  "procModulesPath = ''/proc/modules''"

definition notLoadedTitle :: string where
  "notLoadedTitle = ''Target module is not currently loaded''"

definition zeroModule :: loadedModule where
  "zeroModule = \<lparr>lmName = [], lmState = [], lmUsedBy = [], lmSize = 0, lmRefCount = 0\<rparr>"

fun matchedModule :: "loadedModule list \<Rightarrow> string \<Rightarrow> loadedModule" where
  "matchedModule [] name = zeroModule"
| "matchedModule (m # ms) name = (if lmName m = name then m else matchedModule ms name)"

definition runWithSource :: "string \<Rightarrow> string \<Rightarrow> 's hostEnv \<Rightarrow> result" where
  "runWithSource module path e =
     (let res = presetResult ''module.not_loaded'' notLoadedTitle (heNow e)
                  [(''source'', EvStr path), (''module'', EvStr module)] in
      case fsOpen (heFS e) path of
        Inl err \<Rightarrow>
          if errIs err FsErrNotExist
          then res\<lparr>rState := StateError,
                   rDetail := ''/proc not mounted (cannot enumerate loaded modules)'',
                   rErr := errMsg (wrapErr (''copyfail: open '' @ path @ '': '') err [])\<rparr>
          else res\<lparr>rState := StateError, rDetail := ''open '' @ path @ '': '' @ errMsg err,
                   rErr := errMsg (wrapErr (''copyfail: open '' @ path @ '': '') err [])\<rparr>
      | Inr f \<Rightarrow>
          case parseProcModules f of (modules, parseErr) \<Rightarrow>
            let res1 = evPut ''total_modules'' (EvInt (int (length modules))) res in
            case parseErr of
              Some er \<Rightarrow> res1\<lparr>rState := StateError, rDetail := ''parse '' @ path @ '': '' @ errMsg er,
                             rErr := errMsg (wrapErr (''copyfail: parse '' @ path @ '': '') er [])\<rparr>
            | None \<Rightarrow>
                if \<not> isLoaded modules module
                then evPut ''is_loaded'' (EvBool False)
                       (res1\<lparr>rState := StatePass, rDetail := ''module '' @ goQuote module @
                             '' is not loaded (scanned '' @ itoa (int (length modules)) @ '' modules)''\<rparr>)
                else
                  let matched = matchedModule modules module in
                  (evPut ''matched'' (EvMap [(''name'', EvStr (lmName matched)), (''size'', EvInt (lmSize matched)),
                       (''refcount'', EvInt (lmRefCount matched)), (''state'', EvStr (lmState matched))])
                    (evPut ''is_loaded'' (EvBool True) res1))
                  \<lparr>rState := StateFail, rDetail := lmName matched @ '' is currently loaded (refcount='' @
                      itoa (lmRefCount matched) @ '', state='' @ lmState matched @ '')''\<rparr>)"

definition notLoadedCheck :: "string \<Rightarrow> 's hostEnv check" where
  "notLoadedCheck module =
     \<lparr>ckID = ''module.not_loaded'', ckTitle = notLoadedTitle,
      ckDescription = ''Reads /proc/modules and verifies the configured module name does NOT appear '' @
        ''in the kernel'' @ [CHR 0x27] @ ''s currently-loaded table. Even with a correct blocklist on disk, a '' @
        ''module that was loaded BEFORE the blocklist took effect (or was loaded manually '' @
        ''by an operator) remains active until the next reboot or explicit `rmmod`. This '' @
        ''check catches that gap.'',
      ckSeverity = SeverityRequired, ckApplicable = alwaysApplicable,
      ckRun = (\<lambda>e. Ret (runWithSource module procModulesPath e))\<rparr>"

subsection \<open>The bundle\<close>

definition defaultModule :: string where "defaultModule = ''algif_aead''"
definition defaultConfPath :: string where "defaultConfPath = ''/etc/modprobe.d/disable-algif-aead.conf''"
definition defaultModprobeDir :: string where "defaultModprobeDir = ''/etc/modprobe.d''"

record 's presetOptions =
  poRunner :: "'s runner option"
  poModule :: string
  poConfPath :: string
  poModprobeDir :: string

text \<open>\<open>env\<close> is the operating system the production runner would use.\<close>

definition allWithOptions :: "'s osEnv \<Rightarrow> 's presetOptions \<Rightarrow> 's hostEnv check list" where
  "allWithOptions env opts =
     (let module = (if poModule opts = [] then defaultModule else poModule opts);
          confPath = (if poConfPath opts = [] then defaultConfPath else poConfPath opts);
          dir = (if poModprobeDir opts = [] then defaultModprobeDir else poModprobeDir opts);
          run = (case poRunner opts of None \<Rightarrow> osRun env | Some r \<Rightarrow> r)
      in [confPresentCheck confPath, confCorrectCheck confPath module, dryRunCheck run module,
          chainCheck dir module, notLoadedCheck module])"

definition allChecks :: "'s osEnv \<Rightarrow> 's hostEnv check list" where
  "allChecks env = allWithOptions env \<lparr>poRunner = None, poModule = [], poConfPath = [], poModprobeDir = []\<rparr>"

end
