(* ===== verification/PresetFacts.thy ===== *)
theory PresetFacts
  imports Preset
begin

text \<open>
  What the five checks of \<open>preset/copyfail\<close> establish: each conforms to the contract of \<open>Check\<close>
  (the interpretations of \<open>conforming_check\<close>), and each passes exactly when the host is in the
  state its description promises.
\<close>

subsection \<open>Conformance\<close>

lemmas checkDefs = confPresentCheck_def confCorrectCheck_def dryRunCheck_def chainCheck_def notLoadedCheck_def
lemmas titleDefs = confPresentTitle_def confCorrectTitle_def dryRunTitle_def chainTitle_def notLoadedTitle_def

lemma check_sel [simp]:
  "ckID (confPresentCheck p) = ''modprobe.conf_present''" "ckID (confCorrectCheck p m) = ''modprobe.conf_correct''"
  "ckID (dryRunCheck run m) = ''modprobe.dry_run''" "ckID (chainCheck d m) = ''modprobe.dependency_chain''"
  "ckID (notLoadedCheck m) = ''module.not_loaded''"
  "ckTitle (confPresentCheck p) = confPresentTitle" "ckTitle (confCorrectCheck p m) = confCorrectTitle"
  "ckTitle (dryRunCheck run m) = dryRunTitle" "ckTitle (chainCheck d m) = chainTitle"
  "ckTitle (notLoadedCheck m) = notLoadedTitle"
  "ckSeverity (confPresentCheck p) = SeverityRequired" "ckSeverity (confCorrectCheck p m) = SeverityRequired"
  "ckSeverity (dryRunCheck run m) = SeverityRequired" "ckSeverity (chainCheck d m) = SeverityRequired"
  "ckSeverity (notLoadedCheck m) = SeverityRequired"
  "ckApplicable (confPresentCheck p) = alwaysApplicable" "ckApplicable (confCorrectCheck p m) = alwaysApplicable"
  "ckApplicable (dryRunCheck run m) = alwaysApplicable" "ckApplicable (chainCheck d m) = alwaysApplicable"
  "ckApplicable (notLoadedCheck m) = alwaysApplicable"
  by (simp_all only: checkDefs check.select_convs)

lemma check_run [simp]:
  "ckRun (confPresentCheck p) e = Ret (confPresentRun p e)" "ckRun (confCorrectCheck p m) e = Ret (confCorrectRun p m e)"
  "ckRun (dryRunCheck run m) e = Ret (dryRunCheckRun run m e)" "ckRun (chainCheck d m) e = Ret (chainRun d m e)"
  "ckRun (notLoadedCheck m) e = Ret (runWithSource m procModulesPath e)"
  by (simp_all only: checkDefs check.select_convs)

text \<open>A result that is the starting literal with one of the four states and a matching error text\<close>

definition presetShape :: "string \<Rightarrow> string \<Rightarrow> result \<Rightarrow> bool" where
  "presetShape i title r \<longleftrightarrow> rCheckID r = i \<and> rTitle r = title \<and> rSeverity r = SeverityRequired
     \<and> (rState r = StatePass \<or> rState r = StateFail \<or> rState r = StateError)
     \<and> (rErr r \<noteq> [] \<longleftrightarrow> rState r = StateError)"

lemma confPresent_shape: "presetShape ''modprobe.conf_present'' confPresentTitle (confPresentRun p e)"
  by (simp add: confPresentRun_def presetShape_def Let_def split: sum.split)

lemma confCorrect_shape: "presetShape ''modprobe.conf_correct'' confCorrectTitle (confCorrectRun p m e)"
  by (simp add: confCorrectRun_def presetShape_def Let_def split: prod.split option.split)

lemma dryRun_shape: "presetShape ''modprobe.dry_run'' dryRunTitle (dryRunCheckRun run m e)"
  by (simp add: dryRunCheckRun_def presetShape_def Let_def split: prod.split option.split)

lemma chain_shape: "presetShape ''modprobe.dependency_chain'' chainTitle (chainRun d m e)"
  by (simp add: chainRun_def presetShape_def Let_def split: prod.split option.split)

lemma notLoaded_shape: "presetShape ''module.not_loaded'' notLoadedTitle (runWithSource m p e)"
  by (simp add: runWithSource_def presetShape_def Let_def split: sum.split prod.split option.split)

lemmas preset_shapes = confPresent_shape confCorrect_shape dryRun_shape chain_shape notLoaded_shape

lemma conforming_from_shape:
  assumes "\<And>e. ckRun c e = Ret (f e)" and "\<And>e. presetShape (ckID c) (ckTitle c) (f e)"
    and "ckSeverity c = SeverityRequired" and "ckID c \<noteq> []" "ckTitle c \<noteq> []"
  shows "conforming_check c"
proof
  fix e r
  assume "ckRun c e = Ret r"
  then have "r = f e" using assms(1) by simp
  with assms(2) [of e] assms(3)
  show "identityOf c r \<and> knownState (rState r) \<and> (rErr r \<noteq> []) = (rState r = StateError)"
    by (auto simp: presetShape_def identityOf_def knownState_def)
qed (use assms in simp_all)

interpretation conf_present: conforming_check "confPresentCheck p" for p
  by (rule conforming_from_shape [where f = "confPresentRun p"])
    (simp_all add: titleDefs confPresent_shape [unfolded titleDefs])

interpretation conf_correct: conforming_check "confCorrectCheck p m" for p m
  by (rule conforming_from_shape [where f = "confCorrectRun p m"])
    (simp_all add: titleDefs confCorrect_shape [unfolded titleDefs])

interpretation dry_run: conforming_check "dryRunCheck run m" for run m
  by (rule conforming_from_shape [where f = "dryRunCheckRun run m"])
    (simp_all add: titleDefs dryRun_shape [unfolded titleDefs])

interpretation dependency_chain: conforming_check "chainCheck d m" for d m
  by (rule conforming_from_shape [where f = "chainRun d m"])
    (simp_all add: titleDefs chain_shape [unfolded titleDefs])

interpretation not_loaded: conforming_check "notLoadedCheck m" for m
  by (rule conforming_from_shape [where f = "runWithSource m procModulesPath"])
    (simp_all add: titleDefs notLoaded_shape [unfolded titleDefs])

subsection \<open>When each check passes\<close>

definition blocks :: "confDirective list \<Rightarrow> string \<Rightarrow> bool" where
  "blocks ds m \<longleftrightarrow> installTarget ds m = (''/bin/false'', True)"

lemma confPresent_pass:
  "rState (confPresentRun p e) = StatePass \<longleftrightarrow> (\<exists>info. fsStat (heFS e) p = Inr info \<and> isRegular info)"
  by (simp add: confPresentRun_def Let_def split: sum.split)

lemma confCorrect_pass:
  "rState (confCorrectRun p m e) = StatePass \<longleftrightarrow>
     (\<exists>ds. parseConfFile (heFS e) p = (ds, None) \<and> blocks ds m \<and> isBlacklisted ds m)"
  by (auto simp: confCorrectRun_def Let_def blocks_def requiredInstallTarget_def
      split: prod.split option.split)

lemma dryRun_pass:
  "rState (dryRunCheckRun run m e) = StatePass \<longleftrightarrow>
     (\<exists>res s'. safeArg m \<and> run (heWorld e) (dryRunCommand m) = ((res, None), s')
        \<and> firstOutput (xStdout res) = Some ''install /bin/false'')"
proof (cases "safeArg m")
  case True
  then show ?thesis
    by (auto simp: dryRunCheckRun_def Let_def dryRunModule_safe modprobeCmd_eq parseDryRun_def firstOutput_def
        dryRunLoop_find zeroDryRun_def blockedTarget_def split: prod.split option.split)
next
  case False
  then show ?thesis
    using dryRunModule_unsafe [of m run "heWorld e"] by (auto simp: dryRunCheckRun_def Let_def)
qed

lemma lastInstallLoop_target:
  "fst acc1 = fst acc2 \<Longrightarrow> snd (snd acc1) = snd acc2 \<Longrightarrow>
   fst (lastInstallLoop m ds acc1) = fst (installLoop m ds acc2)
   \<and> snd (snd (lastInstallLoop m ds acc1)) = snd (installLoop m ds acc2)"
  by (induction ds arbitrary: acc1 acc2) auto

text \<open>The check's own walk over the directives finds what \<open>InstallTarget\<close> finds.\<close>

lemma lastInstall_installTarget:
  "lastInstallDirective ds m = (t, src, found) \<Longrightarrow> installTarget ds m = (t, found)"
  using lastInstallLoop_target [of "([], [], False)" "([], False)" m ds]
  by (cases "installTarget ds m") (simp add: lastInstallDirective_def installTarget_def)

lemma chain_pass:
  "rState (chainRun d m e) = StatePass \<longleftrightarrow>
     (\<exists>ds. parseConfDir (heFS e) d = (ds, None) \<and> blocks ds m)"
proof (cases "parseConfDir (heFS e) d")
  case (Pair ds err)
  obtain t src found where last: "lastInstallDirective ds m = (t, src, found)"
    using prod_cases3 by blast
  then show ?thesis
    using Pair lastInstall_installTarget [OF last]
    by (cases err) (auto simp: chainRun_def Let_def blocks_def requiredInstallTarget_def)
qed

lemma notLoaded_pass:
  "rState (runWithSource m p e) = StatePass \<longleftrightarrow>
     (\<exists>f ms. fsOpen (heFS e) p = Inr f \<and> parseProcModules f = (ms, None) \<and> m \<notin> lmName ` set ms)"
  by (auto simp: runWithSource_def Let_def isLoaded_iff split: sum.split prod.split option.split)

text \<open>
  Property C15: what each check's "pass" certifies. The blocklist file is a regular file; it
  parses and contains both the effective install directive and the blacklist; the dry run was
  made, succeeded, and resolved to \<open>install /bin/false\<close>; no file of the directory failed to parse
  and the last install directive of them all is \<open>/bin/false\<close>; \<open>/proc/modules\<close> was read to its end
  and does not list the module. In every other case the check does not pass.
\<close>

theorem preset_pass_conditions:
  "(rState (confPresentRun p e) = StatePass \<longleftrightarrow> (\<exists>info. fsStat (heFS e) p = Inr info \<and> isRegular info))
   \<and> (rState (confCorrectRun p m e) = StatePass \<longleftrightarrow>
        (\<exists>ds. parseConfFile (heFS e) p = (ds, None) \<and> blocks ds m \<and> isBlacklisted ds m))
   \<and> (rState (dryRunCheckRun run m e) = StatePass \<longleftrightarrow>
        (\<exists>res s'. safeArg m \<and> run (heWorld e) (dryRunCommand m) = ((res, None), s')
           \<and> firstOutput (xStdout res) = Some ''install /bin/false''))
   \<and> (rState (chainRun d m e) = StatePass \<longleftrightarrow>
        (\<exists>ds. parseConfDir (heFS e) d = (ds, None) \<and> blocks ds m))
   \<and> (rState (runWithSource m q e) = StatePass \<longleftrightarrow>
        (\<exists>f ms. fsOpen (heFS e) q = Inr f \<and> parseProcModules f = (ms, None) \<and> m \<notin> lmName ` set ms))"
  by (rule conjI confPresent_pass confCorrect_pass dryRun_pass chain_pass notLoaded_pass)+

subsection \<open>The bundle\<close>

definition conformingRun :: "'e \<Rightarrow> 'e \<Rightarrow> gotime \<Rightarrow> 'e check \<Rightarrow> bool" where
  "conformingRun e1 e2 t c \<longleftrightarrow> identityOf c (executeCheck e1 e2 t c)
     \<and> rState (executeCheck e1 e2 t c) \<in> {StatePass, StateFail, StateError}
     \<and> (rErr (executeCheck e1 e2 t c) \<noteq> [] \<longleftrightarrow> rState (executeCheck e1 e2 t c) = StateError)
     \<and> isRequired (ckSeverity c)"

lemma executeCheck_preset:
  "ckApplicable c = alwaysApplicable \<Longrightarrow> ckRun c e2 = Ret r \<Longrightarrow> rState (executeCheck e1 e2 t c) = rState r"
  by (simp add: executeCheck_def alwaysApplicable_def fillIdentity_def)

lemma conformingRunI:
  assumes "conforming_check c" and "ckApplicable c = alwaysApplicable" and "ckRun c e2 = Ret r"
    and "presetShape i title r" and "ckSeverity c = SeverityRequired"
  shows "conformingRun e1 e2 t c"
proof -
  note exec = conforming_check.executed_conforms [OF assms(1), of e1 e2 t]
  have "rState (executeCheck e1 e2 t c) \<in> {StatePass, StateFail, StateError}"
    using assms(4) executeCheck_preset [OF assms(2,3)] by (auto simp: presetShape_def)
  with exec assms(5) show ?thesis by (simp add: conformingRun_def isRequired_def)
qed

lemma preset_runs:
  "conformingRun e1 e2 t (confPresentCheck p)" "conformingRun e1 e2 t (confCorrectCheck p m)"
  "conformingRun e1 e2 t (dryRunCheck run m)" "conformingRun e1 e2 t (chainCheck d m)"
  "conformingRun e1 e2 t (notLoadedCheck m)"
  by (rule conformingRunI [OF conf_present.conforming_check_axioms _ _ confPresent_shape]
        conformingRunI [OF conf_correct.conforming_check_axioms _ _ confCorrect_shape]
        conformingRunI [OF dry_run.conforming_check_axioms _ _ dryRun_shape]
        conformingRunI [OF dependency_chain.conforming_check_axioms _ _ chain_shape]
        conformingRunI [OF not_loaded.conforming_check_axioms _ _ notLoaded_shape], simp_all)+

text \<open>
  The bundle conforms. Whatever the options and whatever the runner and the host do,
  executing any of the five checks gives a result with that check's ID, title and severity, a
  state that is pass, fail or error (never skip, never empty), and an error text exactly for the
  state error; and the five IDs are distinct and in this order.
\<close>

theorem preset_conforming:
  "list_all (conformingRun e1 e2 t) (allWithOptions env opts)
   \<and> map ckID (allWithOptions env opts) =
       [''modprobe.conf_present'', ''modprobe.conf_correct'', ''modprobe.dry_run'',
        ''modprobe.dependency_chain'', ''module.not_loaded'']
   \<and> distinct (map ckID (allWithOptions env opts))"
proof -
  have "list_all (conformingRun e1 e2 t) (allWithOptions env opts)"
    by (simp add: allWithOptions_def Let_def preset_runs)
  moreover have "map ckID (allWithOptions env opts) =
       [''modprobe.conf_present'', ''modprobe.conf_correct'', ''modprobe.dry_run'',
        ''modprobe.dependency_chain'', ''module.not_loaded'']"
    by (simp add: allWithOptions_def Let_def)
  ultimately show ?thesis by simp
qed

subsection \<open>A dangling link\<close>

lemma parseConfDir_entry_error:
  assumes "fsReadDir fs dir = Inr ens" and "en \<in> set ens" and "errIsOpt (snd (confEntry fs dir en)) s"
  shows "\<exists>e. snd (parseConfDir fs dir) = Some e \<and> errIs e s"
proof -
  obtain e where e: "snd (confEntry fs dir en) = Some e" "errIs e s"
    using assms(3) by (auto simp: errIsOpt_def split: option.splits)
  have "e \<in> set (List.map_filter (snd \<circ> confEntry fs dir) (sort_key deName ens))"
    using assms(2) e(1) by (auto simp: set_map_filter_iff)
  with e(2) show ?thesis
    by (auto simp: parseConfDir_def assms(1) confDirLoop_concat)
qed

text \<open>
  Property C16: one dangling link makes the directory check say the directory is missing. The
  directory is there and was listed, but since a \<open>.conf\<close> entry is a link whose target does not
  exist, the joined error of the scan wraps \<open>fs.ErrNotExist\<close>, and the check reports the state
  "fail" with the detail "directory missing", whatever the other files say (also when they block
  the module), instead of the state "error" its partial-scan branch is for.
\<close>

theorem chain_dangling_link:
  assumes "fsReadDir (heFS e) dir = Inr ens" and "en \<in> set ens"
    and "suffix ''.conf'' (deName en)" and "deInfo en = Inr info" and "fiKind info = KSymlink"
    and "fsStat (heFS e) (joinPath [dir, deName en]) = Inl err" and "errIs err FsErrNotExist"
  shows "rState (chainRun dir m e) = StateFail \<and> rDetail (chainRun dir m e) = dir @ '' directory missing''"
proof -
  have "errIsOpt (snd (confEntry (heFS e) dir en)) FsErrNotExist"
    using assms(3-7) by (simp add: confEntry_def confFileSuffix_def Let_def)
  then obtain e' where "snd (parseConfDir (heFS e) dir) = Some e'" "errIs e' FsErrNotExist"
    using parseConfDir_entry_error [OF assms(1,2)] by blast
  then show ?thesis
    by (cases "parseConfDir (heFS e) dir") (simp add: chainRun_def Let_def)
qed

theorem chain_dangling_link_witness:
  "let link = \<lparr>deName = ''old.conf'', deInfo = Inr \<lparr>fiKind = KSymlink, fiSize = 9, fiMode = []\<rparr>\<rparr>;
       e = \<lparr>heFS = emptyFS\<lparr>fsReadDir := (\<lambda>_. Inr [link])\<rparr>, heWorld = (), heNow = 1\<rparr>
   in rDetail (chainRun ''/etc/modprobe.d'' ''algif_aead'' e) = ''/etc/modprobe.d directory missing''"
proof -
  define link where "link = \<lparr>deName = ''old.conf'', deInfo = Inr \<lparr>fiKind = KSymlink, fiSize = 9, fiMode = []\<rparr>\<rparr>"
  define e :: "unit hostEnv" where
    "e = \<lparr>heFS = emptyFS\<lparr>fsReadDir := (\<lambda>_. Inr [link])\<rparr>, heWorld = (), heNow = 1\<rparr>"
  have "fsReadDir (heFS e) ''/etc/modprobe.d'' = Inr [link]" by (simp add: e_def)
  from chain_dangling_link [OF this, of link] have "rDetail (chainRun ''/etc/modprobe.d'' ''algif_aead'' e) =
      ''/etc/modprobe.d'' @ '' directory missing''"
    by (simp add: link_def e_def emptyFS_def suffix_def)
  then show ?thesis by (simp add: e_def link_def)
qed

end
