(* ===== verification/Cli.thy ===== *)
theory Cli
  imports PresetFacts CheckRunnerProgress
begin

text \<open>
  \<open>cmd/copyfail-validate\<close>: the exit codes (\<open>exit.go\<close>) and \<open>run\<close> with its helpers (\<open>main.go\<close>).
  \<open>run\<close> is a relation, because the runner's interleaving is not determined. The theorems say what
  an exit code tells an operator about the host.
\<close>

subsection \<open>Exit codes\<close>

definition exitOK :: int where "exitOK = 0"
definition exitMitigationGap :: int where "exitMitigationGap = 2"
definition exitToolError :: int where "exitToolError = 3"
definition exitCheckError :: int where "exitCheckError = 4"
definition exitUsage :: int where "exitUsage = 64"
definition exitInterrupted :: int where "exitInterrupted = 130"
definition exitTerminated :: int where "exitTerminated = 143"

lemmas exitCodes = exitOK_def exitMitigationGap_def exitToolError_def exitCheckError_def exitUsage_def
  exitInterrupted_def exitTerminated_def

definition computeExit :: "report \<Rightarrow> int" where
  "computeExit rep =
     (if bFail (sRequired (repSummary rep)) > 0 then exitMitigationGap
      else if bError (sRequired (repSummary rep)) > 0 then exitCheckError
      else exitOK)"

definition signalExitCode :: "goerr option \<Rightarrow> int" where
  "signalExitCode ctxErr =
     (case ctxErr of None \<Rightarrow> 0
      | Some e \<Rightarrow> if \<not> errIs e CtxCanceled then 0 else exitTerminated)"

subsection \<open>The filters\<close>

definition toSet :: "string list \<Rightarrow> string set" where
  "toSet ids = set ids"

fun filterOnly :: "string set \<Rightarrow> 'e check list \<Rightarrow> 'e check list" where
  "filterOnly S [] = []"
| "filterOnly S (c # cs) = (if ckID c \<in> S then c # filterOnly S cs else filterOnly S cs)"

fun filterSkip :: "string set \<Rightarrow> 'e check list \<Rightarrow> 'e check list" where
  "filterSkip S [] = []"
| "filterSkip S (c # cs) = (if ckID c \<in> S then filterSkip S cs else c # filterSkip S cs)"

text \<open>\<open>%v\<close> of a slice of strings\<close>

definition showSlice :: "string list \<Rightarrow> string" where
  "showSlice ss = ''['' @ join '' '' ss @ '']''"

definition filterChecks :: "'e check list \<Rightarrow> string list \<Rightarrow> string list \<Rightarrow> goerr + 'e check list" where
  "filterChecks checks only skip =
     (if length only > 0 then
        let out = filterOnly (toSet only) checks in
        if length out = 0 then Inl (plainErr (''no checks match --only filter '' @ showSlice only))
        else Inr out
      else if length skip > 0 then Inr (filterSkip (toSet skip) checks)
      else Inr checks)"

subsection \<open>\<open>run\<close>\<close>

definition stdoutSentinel :: string where
  "stdoutSentinel = ''-''"

text \<open>
  The writers: standard output, and opening a file for the report (create, write only, truncate,
  mode 0600). Closing a file whose error is dropped is not modelled.
\<close>

record 'w outputs =
  outStdout :: 'w
  outOpenFile :: "string \<Rightarrow> goerr + 'w"

definition openOutput :: "'w outputs \<Rightarrow> string \<Rightarrow> goerr + 'w" where
  "openOutput os path =
     (if path = stdoutSentinel then Inr (outStdout os)
      else case outOpenFile os path of
        Inl e \<Rightarrow> Inl (wrapErr (''open '' @ path @ '': '') e [])
      | Inr f \<Rightarrow> Inr f)"

record options =
  opFormat :: Format
  opOutput :: string
  opModule :: string
  opConf :: string
  opOnly :: "string list"
  opSkip :: "string list"
  opTimeout :: int
  opConcurrency :: int
  opVerbosity :: int
  opNoColor :: bool

definition stampReport :: "hostInfo \<Rightarrow> toolInfo \<Rightarrow> gotime \<Rightarrow> report \<Rightarrow> report" where
  "stampReport host tool now rep =
     rep\<lparr>repSchemaVersion := schemaVersionCurrent, repTool := tool, repHost := host, repGenerated := now\<rparr>"

text \<open>
  From the assembled report to the exit code; the second component is the writer after
  rendering, if one was opened. \<open>ctxErr\<close> is the context's error when \<open>signalExitCode\<close> reads it.
\<close>

definition finishRun ::
    "'w renderer registry \<Rightarrow> 'w outputs \<Rightarrow> options \<Rightarrow> goerr option \<Rightarrow> report \<Rightarrow> int \<times> 'w option" where
  "finishRun g os opts ctxErr rep =
     (case openOutput os (opOutput opts) of
        Inl e \<Rightarrow> (exitToolError, None)
      | Inr out \<Rightarrow>
          (case writeTo g rep out (opFormat opts) of
             ((n, Some e), out') \<Rightarrow> (exitToolError, Some out')
           | ((n, None), out') \<Rightarrow>
               (if signalExitCode ctxErr \<noteq> 0 then signalExitCode ctxErr else computeExit rep, Some out')))"

text \<open>
  What \<open>run\<close> is given: whether setting \<open>NO_COLOR\<close> fails, the operating system of the production
  runner, the number of CPUs, the host description that was gathered (possibly degraded, its
  error is only logged), the build identity and the clock. A failure of \<open>hostinfo.Gather\<close> does
  not end the run.
\<close>

record ('s, 'w) runEnv =
  reSetenv :: "goerr option"
  reOS :: "'s osEnv"
  reNumCPU :: nat
  reHost :: hostInfo
  reTool :: toolInfo
  reNow :: gotime
  reOutputs :: "'w outputs"
  reRegistry :: "'w renderer registry"

definition cliOptions :: "options \<Rightarrow> 's osEnv \<Rightarrow> 's presetOptions" where
  "cliOptions opts env =
     \<lparr>poRunner = Some (osRun env), poModule = opModule opts, poConfPath = opConf opts, poModprobeDir = []\<rparr>"

definition cliChecks :: "('s, 'w) runEnv \<Rightarrow> options \<Rightarrow> goerr + 's hostEnv check list" where
  "cliChecks re opts =
     filterChecks (allWithOptions (reOS re) (cliOptions opts (reOS re))) (opOnly opts) (opSkip opts)"

inductive cliRun :: "'s hostEnv set \<Rightarrow> ('s, 'w) runEnv \<Rightarrow> options \<Rightarrow> int \<Rightarrow> bool"
  for W :: "'s hostEnv set" and re :: "('s, 'w) runEnv" and opts :: options where
  cli_setenv: "opNoColor opts \<Longrightarrow> reSetenv re \<noteq> None \<Longrightarrow> cliRun W re opts exitToolError"
| cli_filter: "\<not> (opNoColor opts \<and> reSetenv re \<noteq> None) \<Longrightarrow> cliChecks re opts = Inl e \<Longrightarrow>
    cliRun W re opts exitUsage"
| cli_finish: "\<not> (opNoColor opts \<and> reSetenv re \<noteq> None) \<Longrightarrow> cliChecks re opts = Inr checks \<Longrightarrow>
    runReaches W gen (effConcurrency (opConcurrency opts) (reNumCPU re)) checks (runInit gen ctx checks) s \<Longrightarrow>
    sysMain s = Returned rep \<Longrightarrow>
    finishRun (reRegistry re) (reOutputs re) opts (sysCtx s)
      (stampReport (reHost re) (reTool re) (reNow re) rep) = (code, out) \<Longrightarrow>
    cliRun W re opts code"

inductive_cases cliRunE: "cliRun W re opts code"

subsection \<open>Verdicts\<close>

text \<open>
  What the exit code is meant to be: the worst verdict of the required checks, a known gap being
  worse than an unknown posture.
\<close>

datatype verdict = Mitigated | Unknown | Gap

fun verdictRank :: "verdict \<Rightarrow> nat" where
  "verdictRank Mitigated = 0"
| "verdictRank Unknown = 1"
| "verdictRank Gap = 2"

lemma verdictRank_inj: "verdictRank a = verdictRank b \<Longrightarrow> a = b"
  by (cases a; cases b) simp_all

instantiation verdict :: linorder
begin

definition less_eq_verdict :: "verdict \<Rightarrow> verdict \<Rightarrow> bool" where
  "less_eq_verdict a b \<longleftrightarrow> verdictRank a \<le> verdictRank b"

definition less_verdict :: "verdict \<Rightarrow> verdict \<Rightarrow> bool" where
  "less_verdict a b \<longleftrightarrow> verdictRank a < verdictRank b"

instance
  by standard (auto simp: less_eq_verdict_def less_verdict_def dest: verdictRank_inj)

end

fun verdictCode :: "verdict \<Rightarrow> int" where
  "verdictCode Mitigated = 0"
| "verdictCode Unknown = 4"
| "verdictCode Gap = 2"

definition resultVerdict :: "result \<Rightarrow> verdict" where
  "resultVerdict r =
     (if \<not> isRequired (rSeverity r) then Mitigated
      else if rState r = StateFail then Gap
      else if rState r = StateError then Unknown
      else Mitigated)"

definition worstVerdict :: "result list \<Rightarrow> verdict" where
  "worstVerdict rs = Max (insert Mitigated (resultVerdict ` set rs))"

lemma verdict_le [simp]: "Mitigated \<le> v" "v \<le> Gap" "\<not> Gap \<le> Unknown" "\<not> Gap \<le> Mitigated" "\<not> Unknown \<le> Mitigated"
  by (cases v; simp add: less_eq_verdict_def)+

lemma worstVerdict_Gap: "worstVerdict rs = Gap \<longleftrightarrow> (\<exists>r\<in>set rs. resultVerdict r = Gap)"
proof
  assume "worstVerdict rs = Gap"
  moreover have "worstVerdict rs \<in> insert Mitigated (resultVerdict ` set rs)"
    unfolding worstVerdict_def by (rule Max_in) auto
  ultimately have "Gap \<in> resultVerdict ` set rs" by simp
  then show "\<exists>r\<in>set rs. resultVerdict r = Gap" by (metis imageE)
next
  assume "\<exists>r\<in>set rs. resultVerdict r = Gap"
  then have "Gap \<le> worstVerdict rs" unfolding worstVerdict_def by (metis Max_ge finite.insertI finite_imageI
      finite_set imageI insertI2)
  then show "worstVerdict rs = Gap" by (simp add: antisym)
qed

lemma worstVerdict_Mitigated: "worstVerdict rs = Mitigated \<longleftrightarrow> (\<forall>r\<in>set rs. resultVerdict r = Mitigated)"
proof
  assume a: "worstVerdict rs = Mitigated"
  show "\<forall>r\<in>set rs. resultVerdict r = Mitigated"
  proof
    fix r assume "r \<in> set rs"
    then have "resultVerdict r \<le> worstVerdict rs" unfolding worstVerdict_def by auto
    with a show "resultVerdict r = Mitigated" by (cases "resultVerdict r") auto
  qed
next
  assume "\<forall>r\<in>set rs. resultVerdict r = Mitigated"
  then have "insert Mitigated (resultVerdict ` set rs) = {Mitigated}" by auto
  then show "worstVerdict rs = Mitigated" unfolding worstVerdict_def by (simp only: Max_singleton)
qed

lemma resultVerdict_Gap: "resultVerdict r = Gap \<longleftrightarrow> isRequired (rSeverity r) \<and> rState r = StateFail"
  by (simp add: resultVerdict_def)

lemma resultVerdict_Mitigated:
  "resultVerdict r = Mitigated \<longleftrightarrow>
     (isRequired (rSeverity r) \<longrightarrow> rState r \<noteq> StateFail \<and> rState r \<noteq> StateError)"
  by (simp add: resultVerdict_def)

lemma computeExit_cases:
  assumes "repSummary rep = newSummary (repResults rep)"
  shows "computeExit rep = verdictCode (worstVerdict (repResults rep))"
proof -
  let ?rs = "repResults rep"
  have gap: "tallyReq StateFail ?rs > 0 \<longleftrightarrow> worstVerdict ?rs = Gap"
    using tallyReq_0_iff [of StateFail ?rs] by (metis neq0_conv resultVerdict_Gap worstVerdict_Gap)
  have ok: "tallyReq StateFail ?rs = 0 \<and> tallyReq StateError ?rs = 0 \<longleftrightarrow> worstVerdict ?rs = Mitigated"
    using tallyReq_0_iff [of StateFail ?rs] tallyReq_0_iff [of StateError ?rs]
    by (auto simp: worstVerdict_Mitigated resultVerdict_Mitigated)
  show ?thesis
    using gap ok by (cases "worstVerdict ?rs") (auto simp: computeExit_def assms newSummary_tally exitCodes)
qed

subsection \<open>Properties\<close>

text \<open>
  Property C14: the exit code is the worst verdict. A required failure is worth more than a
  required error, which is worth more than a pass; advisory results, skips and the order of the
  results do not count; and the code is one of 0, 2 and 4.
\<close>

theorem compute_exit_worst:
  "computeExit (rep\<lparr>repSummary := newSummary (repResults rep)\<rparr>) =
     verdictCode (worstVerdict (repResults rep))
   \<and> (computeExit (rep\<lparr>repSummary := newSummary (repResults rep)\<rparr>) = exitMitigationGap \<longleftrightarrow>
        (\<exists>r. r \<in> set (repResults rep) \<and> isRequired (rSeverity r) \<and> rState r = StateFail))
   \<and> computeExit rep \<in> {exitOK, exitMitigationGap, exitCheckError}"
proof -
  have eq: "computeExit (rep\<lparr>repSummary := newSummary (repResults rep)\<rparr>) =
      verdictCode (worstVerdict (repResults rep))"
    using computeExit_cases [of "rep\<lparr>repSummary := newSummary (repResults rep)\<rparr>"] by simp
  moreover have "verdictCode (worstVerdict (repResults rep)) = exitMitigationGap \<longleftrightarrow>
      worstVerdict (repResults rep) = Gap"
    by (cases "worstVerdict (repResults rep)") (simp_all add: exitCodes)
  ultimately show ?thesis
    by (auto simp: worstVerdict_Gap resultVerdict_Gap computeExit_def)
qed

lemma filterOnly_filter: "filterOnly S cs = filter (\<lambda>c. ckID c \<in> S) cs"
  by (induction cs) auto

lemma filterSkip_filter: "filterSkip S cs = filter (\<lambda>c. ckID c \<notin> S) cs"
  by (induction cs) auto

text \<open>
  The check filters. \<open>--only\<close> keeps exactly the named checks in their order and is an
  error when it names none of them; \<open>--skip\<close> drops exactly the named ones, possibly all; without
  either every check runs.
\<close>

theorem filter_checks_spec:
  "filterChecks checks only skip =
     (if only \<noteq> [] then
        (if set (map ckID checks) \<inter> set only = {}
         then Inl (plainErr (''no checks match --only filter '' @ showSlice only))
         else Inr (filter (\<lambda>c. ckID c \<in> set only) checks))
      else Inr (filter (\<lambda>c. ckID c \<notin> set skip) checks))"
proof -
  have "filter (\<lambda>c. ckID c \<in> set only) checks = [] \<longleftrightarrow> set (map ckID checks) \<inter> set only = {}"
    by (auto simp: filter_empty_conv)
  then show ?thesis
    by (simp add: filterChecks_def filterOnly_filter filterSkip_filter toSet_def Let_def)
qed

subsection \<open>What exit code 0 certifies\<close>

definition effModule :: "options \<Rightarrow> string" where
  "effModule opts = (if opModule opts = [] then defaultModule else opModule opts)"

definition effConf :: "options \<Rightarrow> string" where
  "effConf opts = (if opConf opts = [] then defaultConfPath else opConf opts)"

lemma cli_all_checks:
  "allWithOptions env (cliOptions opts env) =
     [confPresentCheck (effConf opts), confCorrectCheck (effConf opts) (effModule opts),
      dryRunCheck (osRun env) (effModule opts), chainCheck defaultModprobeDir (effModule opts),
      notLoadedCheck (effModule opts)]"
  by (simp add: allWithOptions_def cliOptions_def effModule_def effConf_def Let_def)

lemma finishRun_zero:
  "finishRun g os opts ctxErr rep = (0, out) \<Longrightarrow> computeExit rep = 0"
  by (auto simp: finishRun_def exitCodes signalExitCode_def split: sum.splits prod.splits option.splits if_splits)

lemma computeExit_stamp [simp]: "computeExit (stampReport host tool now rep) = computeExit rep"
proof -
  have "repSummary (stampReport host tool now rep) = repSummary rep" by (simp add: stampReport_def)
  then show ?thesis by (simp only: computeExit_def)
qed

text \<open>In a run that exits with 0, a check of the bundle that was run was executed and passed.\<close>

lemma slot_passed:
  assumes "workerResult W c r \<or> cancelledResult c ctx r" and "conforming_check c"
    and "ckApplicable c = alwaysApplicable" "ckSeverity c = SeverityRequired"
    and "\<And>e. ckRun c e = Ret (f e)" and "\<And>e. presetShape i title (f e)"
    and "resultVerdict r = Mitigated"
  shows "\<exists>e\<in>W. rState (f e) = StatePass"
  using assms(1)
proof
  assume "cancelledResult c ctx r"
  then have "rState r = StateError" "rSeverity r = ckSeverity c"
    by (auto simp: cancelledResult_def identity_simps newCancelledResult_def)
  with assms(4,7) show ?thesis by (simp add: resultVerdict_def isRequired_def)
next
  assume "workerResult W c r"
  then obtain e1 e2 t d where e: "e2 \<in> W" "r = (executeCheck e1 e2 t c)\<lparr>rDurationMS := d\<rparr>"
    by (auto simp: workerResult_def)
  have run: "conformingRun e1 e2 t c"
    by (rule conformingRunI [OF assms(2,3,5,6,4)])
  then have "rState r \<in> {StatePass, StateFail, StateError}" "isRequired (rSeverity r)"
    using e assms(4) by (auto simp: conformingRun_def identityOf_def isRequired_def)
  with assms(7) have "rState r = StatePass" by (auto simp: resultVerdict_def split: if_splits)
  with e executeCheck_preset [OF assms(3,5)] show ?thesis by auto
qed

lemma zero_all_slots:
  assumes "cliRun W re opts 0" and "opOnly opts = []" "opSkip opts = []"
  shows "\<exists>ctx rs. length rs = 5 \<and> list_all (\<lambda>r. resultVerdict r = Mitigated) rs
    \<and> (\<forall>i < 5. let c = allWithOptions (reOS re) (cliOptions opts (reOS re)) ! i in
         workerResult W c (rs ! i) \<or> cancelledResult c ctx (rs ! i))"
  using assms(1)
proof (cases rule: cliRun.cases)
  case (cli_finish checks gen ctx s rep out)
  have checks: "checks = allWithOptions (reOS re) (cliOptions opts (reOS re))"
    using cli_finish assms(2,3) by (simp add: cliChecks_def filterChecks_def)
  then have len: "length checks = 5" by (simp add: cli_all_checks)
  from runner_report_core [OF cli_finish(3,4)] len
  have rep: "length (repResults rep) = 5" "repSummary rep = newSummary (repResults rep)"
    "\<forall>i<5. workerResult W (checks ! i) (repResults rep ! i)
        \<or> cancelledResult (checks ! i) (sysCtx s) (repResults rep ! i)"
    by simp_all
  have "computeExit (stampReport (reHost re) (reTool re) (reNow re) rep) = 0"
    by (rule finishRun_zero [OF cli_finish(5)])
  then have "computeExit rep = 0" by simp
  with rep(2) have "verdictCode (worstVerdict (repResults rep)) = 0"
    by (simp add: computeExit_cases)
  then have "worstVerdict (repResults rep) = Mitigated"
    by (cases "worstVerdict (repResults rep)") simp_all
  with rep checks show ?thesis
    by (intro exI [of _ "sysCtx s"] exI [of _ "repResults rep"])
      (simp add: worstVerdict_Mitigated list_all_iff Let_def)
qed (simp_all add: exitCodes)

subsection \<open>A mitigated host\<close>

text \<open>The five conditions of the mitigation, all of them in one environment\<close>

definition mitigatedEnv :: "('s, 'w) runEnv \<Rightarrow> options \<Rightarrow> 's hostEnv \<Rightarrow> bool" where
  "mitigatedEnv re opts e \<longleftrightarrow>
     (\<exists>info. fsStat (heFS e) (effConf opts) = Inr info \<and> isRegular info)
   \<and> (\<exists>ds. parseConfFile (heFS e) (effConf opts) = (ds, None)
          \<and> blocks ds (effModule opts) \<and> isBlacklisted ds (effModule opts))
   \<and> (\<exists>res s'. safeArg (effModule opts)
          \<and> osRun (reOS re) (heWorld e) (dryRunCommand (effModule opts)) = ((res, None), s')
          \<and> firstOutput (xStdout res) = Some ''install /bin/false'')
   \<and> (\<exists>ds. parseConfDir (heFS e) ''/etc/modprobe.d'' = (ds, None) \<and> blocks ds (effModule opts))
   \<and> (\<exists>f ms. fsOpen (heFS e) ''/proc/modules'' = Inr f \<and> parseProcModules f = (ms, None)
          \<and> effModule opts \<notin> lmName ` set ms)"

lemma mitigated_passes: "mitigatedEnv re opts e \<longleftrightarrow>
     rState (confPresentRun (effConf opts) e) = StatePass
   \<and> rState (confCorrectRun (effConf opts) (effModule opts) e) = StatePass
   \<and> rState (dryRunCheckRun (osRun (reOS re)) (effModule opts) e) = StatePass
   \<and> rState (chainRun defaultModprobeDir (effModule opts) e) = StatePass
   \<and> rState (runWithSource (effModule opts) procModulesPath e) = StatePass"
  by (simp only: mitigatedEnv_def confPresent_pass confCorrect_pass dryRun_pass chain_pass notLoaded_pass
      defaultModprobeDir_def procModulesPath_def)

lemma worker_state:
  assumes "workerResult W c r" and "ckApplicable c = alwaysApplicable"
    and "\<And>e. ckRun c e = Ret (f e)" and "\<And>e. e \<in> W \<Longrightarrow> rState (f e) = StatePass"
  shows "rState r = StatePass"
proof -
  obtain e1 e2 t d where e: "e2 \<in> W" "r = (executeCheck e1 e2 t c)\<lparr>rDurationMS := d\<rparr>"
    using assms(1) by (auto simp: workerResult_def)
  with executeCheck_preset [OF assms(2,3)] assms(4) show ?thesis by simp
qed

text \<open>Without a cancellation, every report on a mitigated host is clean.\<close>

lemma mitigated_report:
  assumes "runReaches W gen k checks (runInit gen ctx checks) s" and "sysMain s = Returned rep" "sysCtx s = None"
    and "checks = allWithOptions (reOS re) (cliOptions opts (reOS re))"
    and "\<forall>e\<in>W. mitigatedEnv re opts e"
  shows "computeExit rep = 0"
proof -
  have len: "length checks = 5" by (simp add: assms(4) cli_all_checks)
  from runner_report_core [OF assms(1,2)] len assms(3)
  have rep: "length (repResults rep) = 5" "repSummary rep = newSummary (repResults rep)"
    and slot: "i < 5 \<Longrightarrow> workerResult W (checks ! i) (repResults rep ! i)" for i
    by (auto simp: cancelledResult_def)
  note slot' = slot [unfolded assms(4) cli_all_checks]
  have "rState (repResults rep ! 0) = StatePass"
    by (rule worker_state [OF slot' [of 0], where f = "confPresentRun (effConf opts)"])
      (use assms(5) in \<open>auto simp: mitigated_passes\<close>)
  moreover have "rState (repResults rep ! 1) = StatePass"
    by (rule worker_state [OF slot' [of 1], where f = "confCorrectRun (effConf opts) (effModule opts)"])
      (use assms(5) in \<open>auto simp: mitigated_passes\<close>)
  moreover have "rState (repResults rep ! 2) = StatePass"
    by (rule worker_state [OF slot' [of 2], where f = "dryRunCheckRun (osRun (reOS re)) (effModule opts)"])
      (use assms(5) in \<open>auto simp: mitigated_passes\<close>)
  moreover have "rState (repResults rep ! 3) = StatePass"
    by (rule worker_state [OF slot' [of 3], where f = "chainRun defaultModprobeDir (effModule opts)"])
      (use assms(5) in \<open>auto simp: mitigated_passes\<close>)
  moreover have "rState (repResults rep ! 4) = StatePass"
    by (rule worker_state [OF slot' [of 4], where f = "runWithSource (effModule opts) procModulesPath"])
      (use assms(5) in \<open>auto simp: mitigated_passes\<close>)
  ultimately have "list_all (\<lambda>r. rState r = StatePass) (repResults rep)"
    using rep(1) by (auto simp: list_all_length less_Suc_eq numeral_eq_Suc)
  then have "\<forall>r\<in>set (repResults rep). resultVerdict r = Mitigated"
    by (auto simp: list_all_iff resultVerdict_Mitigated)
  then have "worstVerdict (repResults rep) = Mitigated" by (simp add: worstVerdict_Mitigated)
  with rep(2) show ?thesis by (simp add: computeExit_cases)
qed

text \<open>The report can be written.\<close>

definition writable :: "('s, 'w) runEnv \<Rightarrow> options \<Rightarrow> bool" where
  "writable re opts \<longleftrightarrow> (\<exists>out. openOutput (reOutputs re) (opOutput opts) = Inr out
     \<and> (\<forall>rep. snd (fst (writeTo (reRegistry re) rep out (opFormat opts))) = None))"

lemma finishRun_clean:
  "writable re opts \<Longrightarrow> computeExit rep = 0 \<Longrightarrow>
   \<exists>out. finishRun (reRegistry re) (reOutputs re) opts None rep = (0, out)"
proof -
  assume "writable re opts" and exit: "computeExit rep = 0"
  then obtain out where "openOutput (reOutputs re) (opOutput opts) = Inr out"
      and ok: "snd (fst (writeTo (reRegistry re) rep out (opFormat opts))) = None"
    by (auto simp: writable_def)
  moreover obtain n e out' where "writeTo (reRegistry re) rep out (opFormat opts) = ((n, e), out')"
    by (metis prod.collapse)
  ultimately show ?thesis using exit by (simp add: finishRun_def signalExitCode_def)
qed

lemma mitigated_exits_zero:
  assumes "\<forall>e\<in>W. mitigatedEnv re opts e" and "W \<noteq> {}" and "0 < effConcurrency (opConcurrency opts) (reNumCPU re)"
    and "opOnly opts = []" "opSkip opts = []" and "\<not> opNoColor opts" and "writable re opts"
  shows "cliRun W re opts 0"
proof -
  define checks where "checks = allWithOptions (reOS re) (cliOptions opts (reOS re))"
  let ?k = "effConcurrency (opConcurrency opts) (reNumCPU re)"
  have ne: "checks \<noteq> []" by (simp add: checks_def cli_all_checks)
  have init: "runInv W 0 ?k checks (runInit 0 None checks)" by (rule runInv_init [OF ne])
  obtain s rep where s: "runReaches W 0 ?k checks (runInit 0 None checks) s" "sysMain s = Returned rep"
      "sysCtx s = sysCtx (runInit 0 None checks)"
    using runs_to_report [OF init assms(3,2)] by blast
  then have ctx: "sysCtx s = None" by (simp add: runInit_def Let_def)
  have "computeExit rep = 0"
    by (rule mitigated_report [OF s(1,2) ctx checks_def assms(1)])
  then obtain out where out: "finishRun (reRegistry re) (reOutputs re) opts (sysCtx s)
      (stampReport (reHost re) (reTool re) (reNow re) rep) = (0, out)"
    using finishRun_clean [OF assms(7), of "stampReport (reHost re) (reTool re) (reNow re) rep"] ctx
    by auto
  have "cliChecks re opts = Inr checks"
    by (simp add: cliChecks_def filterChecks_def assms(4,5) checks_def)
  from cli_finish [OF _ this s(1,2) out] assms(6) show ?thesis by blast
qed

text \<open>A concrete mitigated host, with a renderer that writes nothing\<close>

definition demoEnv :: "unit hostEnv" where
  "demoEnv = \<lparr>heFS = emptyFS
      \<lparr>fsStat := (\<lambda>p. Inr \<lparr>fiKind = KRegular, fiSize = 50, fiMode = ''-rw-r--r--''\<rparr>),
       fsReadDir := (\<lambda>p. Inr [\<lparr>deName = ''disable-algif-aead.conf'',
          deInfo = Inr \<lparr>fiKind = KRegular, fiSize = 50, fiMode = []\<rparr>\<rparr>]),
       fsOpen := (\<lambda>p. Inr (textReader (if p = ''/proc/modules'' then unlines [''zram 1 0 - Live'']
          else unlines [''install algif_aead /bin/false'', ''blacklist algif_aead''])))\<rparr>,
     heWorld = (), heNow = 7\<rparr>"

definition demoRunEnv :: "(unit, string) runEnv" where
  "demoRunEnv = \<lparr>reSetenv = None,
     reOS = \<lparr>statOK = (\<lambda>_. True), lookPath = (\<lambda>_. Inl (plainErr [])), pathVar = [],
       spawn = (\<lambda>n p as vs t. (\<lparr>poStdout = [''install /bin/false '' @ [CHR 0x0A]], poStderr = [],
         poRunErr = None, poExit = Some 0, poDeadline = False, poDuration = 5\<rparr>, n))\<rparr>,
     reNumCPU = 4, reHost = \<lparr>hHostname = [], hKernelRelease = [], hOSRelease = [], hOSVersion = [], hArch = []\<rparr>,
     reTool = \<lparr>tName = [], tVersion = [], tCommit = [], tBuildDate = []\<rparr>, reNow = 9,
     reOutputs = \<lparr>outStdout = [], outOpenFile = (\<lambda>_. Inl (plainErr []))\<rparr>,
     reRegistry = register FormatJSON (\<lambda>w rep. ((0, None), w)) emptyRegistry\<rparr>"

definition demoOptions :: options where
  "demoOptions = \<lparr>opFormat = FormatJSON, opOutput = ''-'', opModule = [], opConf = [], opOnly = [], opSkip = [],
     opTimeout = 0, opConcurrency = 0, opVerbosity = 0, opNoColor = False\<rparr>"

lemma demo_mitigated: "\<forall>e\<in>{demoEnv}. mitigatedEnv demoRunEnv demoOptions e"
proof -
  have "mitigatedEnv demoRunEnv demoOptions demoEnv" unfolding mitigated_passes by code_simp
  then show ?thesis by simp
qed

lemma demo_writable: "writable demoRunEnv demoOptions"
  by (auto simp: writable_def demoRunEnv_def demoOptions_def openOutput_def stdoutSentinel_def writeTo_def
      knownFormat_def)

lemma demo_conditions:
  "0 < effConcurrency (opConcurrency demoOptions) (reNumCPU demoRunEnv)" "opOnly demoOptions = []"
  "opSkip demoOptions = []" "\<not> opNoColor demoOptions"
  by (simp_all add: demoOptions_def demoRunEnv_def effConcurrency_def)

text \<open>The five conditions of the mitigation, each held by some environment of the run\<close>

definition certified :: "'s hostEnv set \<Rightarrow> ('s, 'w) runEnv \<Rightarrow> options \<Rightarrow> bool" where
  "certified W re opts \<longleftrightarrow>
    (\<exists>e\<in>W. \<exists>info. fsStat (heFS e) (effConf opts) = Inr info \<and> isRegular info)
    \<and> (\<exists>e\<in>W. \<exists>ds. parseConfFile (heFS e) (effConf opts) = (ds, None)
          \<and> blocks ds (effModule opts) \<and> isBlacklisted ds (effModule opts))
    \<and> (\<exists>e\<in>W. \<exists>res s'. safeArg (effModule opts)
          \<and> osRun (reOS re) (heWorld e) (dryRunCommand (effModule opts)) = ((res, None), s')
          \<and> firstOutput (xStdout res) = Some ''install /bin/false'')
    \<and> (\<exists>e\<in>W. \<exists>ds. parseConfDir (heFS e) ''/etc/modprobe.d'' = (ds, None) \<and> blocks ds (effModule opts))
    \<and> (\<exists>e\<in>W. \<exists>f ms. fsOpen (heFS e) ''/proc/modules'' = Inr f \<and> parseProcModules f = (ms, None)
          \<and> effModule opts \<notin> lmName ` set ms)"

lemma cli_zero_certified:
  assumes "cliRun W re opts 0" and "opOnly opts = []" and "opSkip opts = []"
  shows "certified W re opts"
proof -
  obtain ctx rs where rs: "length rs = 5" "list_all (\<lambda>r. resultVerdict r = Mitigated) rs"
    and slots: "\<forall>i < 5. let c = allWithOptions (reOS re) (cliOptions opts (reOS re)) ! i in
         workerResult W c (rs ! i) \<or> cancelledResult c ctx (rs ! i)"
    using zero_all_slots [OF assms] by blast
  have ok: "resultVerdict (rs ! i) = Mitigated" if "i < 5" for i
    using rs that by (simp add: list_all_length)
  note slot = slots [unfolded cli_all_checks Let_def, rule_format]
  have "\<exists>e\<in>W. rState (confPresentRun (effConf opts) e) = StatePass"
    by (rule slot_passed [OF _ conf_present.conforming_check_axioms _ _ _ confPresent_shape ok [of 0]])
      (use slot [of 0] in simp_all)
  moreover have "\<exists>e\<in>W. rState (confCorrectRun (effConf opts) (effModule opts) e) = StatePass"
    by (rule slot_passed [OF _ conf_correct.conforming_check_axioms _ _ _ confCorrect_shape ok [of 1]])
      (use slot [of 1] in simp_all)
  moreover have "\<exists>e\<in>W. rState (dryRunCheckRun (osRun (reOS re)) (effModule opts) e) = StatePass"
    by (rule slot_passed [OF _ dry_run.conforming_check_axioms _ _ _ dryRun_shape ok [of 2]])
      (use slot [of 2] in simp_all)
  moreover have "\<exists>e\<in>W. rState (chainRun defaultModprobeDir (effModule opts) e) = StatePass"
    by (rule slot_passed [OF _ dependency_chain.conforming_check_axioms _ _ _ chain_shape ok [of 3]])
      (use slot [of 3] in simp_all)
  moreover have "\<exists>e\<in>W. rState (runWithSource (effModule opts) procModulesPath e) = StatePass"
    by (rule slot_passed [OF _ not_loaded.conforming_check_axioms _ _ _ notLoaded_shape ok [of 4]])
      (use slot [of 4] in simp_all)
  ultimately show ?thesis
    by (simp only: certified_def confPresent_pass confCorrect_pass dryRun_pass chain_pass notLoaded_pass
        defaultModprobeDir_def procModulesPath_def)
qed

text \<open>
  Property C1: what exit code 0 certifies. If an unfiltered run exits with 0 then each of the
  five conditions of the mitigation held in some environment the host went through during the run:
  the blocklist file is a regular file with the effective install directive and the blacklist
  entry, \<open>modprobe -n -v\<close> was run and resolved to \<open>install /bin/false\<close>, the last install directive of
  the whole directory (which parsed without error) is \<open>/bin/false\<close>, and the module is not loaded.
  No interleaving, timeout, panic or signal can produce a 0 otherwise.
\<close>

theorem exit_zero_certifies:
  assumes "cliRun W re opts 0" and "opOnly opts = []" and "opSkip opts = []"
  shows "(\<exists>e\<in>W. \<exists>info. fsStat (heFS e) (effConf opts) = Inr info \<and> isRegular info)
    \<and> (\<exists>e\<in>W. \<exists>ds. parseConfFile (heFS e) (effConf opts) = (ds, None)
          \<and> blocks ds (effModule opts) \<and> isBlacklisted ds (effModule opts))
    \<and> (\<exists>e\<in>W. \<exists>res s'. safeArg (effModule opts)
          \<and> osRun (reOS re) (heWorld e) (dryRunCommand (effModule opts)) = ((res, None), s')
          \<and> firstOutput (xStdout res) = Some ''install /bin/false'')
    \<and> (\<exists>e\<in>W. \<exists>ds. parseConfDir (heFS e) ''/etc/modprobe.d'' = (ds, None) \<and> blocks ds (effModule opts))
    \<and> (\<exists>e\<in>W. \<exists>f ms. fsOpen (heFS e) ''/proc/modules'' = Inr f \<and> parseProcModules f = (ms, None)
          \<and> effModule opts \<notin> lmName ` set ms)"
  using cli_zero_certified [OF assms] by (simp only: certified_def)

theorem exit_zero_certifies_witness:
  "(\<exists>ds. parseConfDir (heFS demoEnv) ''/etc/modprobe.d'' = (ds, None) \<and> blocks ds ''algif_aead'')
   \<and> cliRun {demoEnv} demoRunEnv demoOptions 0"
proof -
  have run: "cliRun {demoEnv} demoRunEnv demoOptions 0"
    by (rule mitigated_exits_zero [OF demo_mitigated _ demo_conditions demo_writable]) simp
  have "effModule demoOptions = ''algif_aead''"
    by (simp add: effModule_def demoOptions_def defaultModule_def)
  with exit_zero_certifies [OF run demo_conditions(2,3)] run show ?thesis by simp
qed



end
