(* ===== verification/GoNumbers.thy ===== *)
theory GoNumbers
  imports GoErrors
begin

text \<open>
  The number formats of command line flags: \<open>strconv.ParseInt\<close> with base 0, \<open>strconv.ParseBool\<close>
  and \<open>time.ParseDuration\<close>. \<open>ParseDuration\<close> computes the fractional part of a number in floating
  point; that one term is the parameter \<open>frac f unit k\<close>, the nanoseconds of \<open>f / 10^k\<close> units.
\<close>

subsection \<open>\<open>ParseInt(s, 0, 64)\<close>\<close>

definition lowerChar :: "char \<Rightarrow> char" where
  "lowerChar c = lowerByte c"

definition hexLetter :: "char \<Rightarrow> bool" where
  "hexLetter c \<longleftrightarrow> byteIn 97 102 (lowerChar c)"

fun underscoreLoop :: "bool \<Rightarrow> char \<Rightarrow> string \<Rightarrow> bool" where
  "underscoreLoop hex i [] = (i \<noteq> CHR ''_'')"
| "underscoreLoop hex i (c # cs) =
     (if isDigit c \<or> hex \<and> hexLetter c then underscoreLoop hex CHR ''0'' cs
      else if c = CHR ''_'' then (if i \<noteq> CHR ''0'' then False else underscoreLoop hex CHR ''_'' cs)
      else if i = CHR ''_'' then False
      else underscoreLoop hex CHR ''!'' cs)"

definition basePrefix :: "string \<Rightarrow> bool" where
  "basePrefix s \<longleftrightarrow> 2 \<le> length s \<and> s ! 0 = CHR ''0''
     \<and> (lowerChar (s ! 1) = CHR ''b'' \<or> lowerChar (s ! 1) = CHR ''o'' \<or> lowerChar (s ! 1) = CHR ''x'')"

definition underscoreOK :: "string \<Rightarrow> bool" where
  "underscoreOK s0 =
     (let s = (if s0 \<noteq> [] \<and> (hd s0 = CHR ''-'' \<or> hd s0 = CHR ''+'') then tl s0 else s0) in
      if basePrefix s then underscoreLoop (lowerChar (s ! 1) = CHR ''x'') CHR ''0'' (drop 2 s)
      else underscoreLoop False CHR 0x5E s)"

definition digitVal :: "char \<Rightarrow> int option" where
  "digitVal c =
     (if isDigit c then Some (int (byte c) - 48)
      else if byteIn 97 122 (lowerChar c) then Some (int (byte (lowerChar c)) - 87)
      else None)"

text \<open>The digit loop; underscores are skipped here and judged afterwards.\<close>

fun parseBaseAcc :: "int \<Rightarrow> int \<Rightarrow> string \<Rightarrow> numErr + int" where
  "parseBaseAcc base n [] = Inr n"
| "parseBaseAcc base n (c # cs) =
     (if c = CHR ''_'' then parseBaseAcc base n cs
      else case digitVal c of
        None \<Rightarrow> Inl ErrSyntax
      | Some d \<Rightarrow>
          if d \<ge> base then Inl ErrSyntax
          else if n * base + d \<ge> 2 ^ 64 then Inl ErrRange
          else parseBaseAcc base (n * base + d) cs)"

definition basePart :: "string \<Rightarrow> int \<times> string" where
  "basePart s =
     (if s \<noteq> [] \<and> hd s = CHR ''0'' then
        (if 3 \<le> length s \<and> lowerChar (s ! 1) = CHR ''b'' then (2, drop 2 s)
         else if 3 \<le> length s \<and> lowerChar (s ! 1) = CHR ''o'' then (8, drop 2 s)
         else if 3 \<le> length s \<and> lowerChar (s ! 1) = CHR ''x'' then (16, drop 2 s)
         else (8, drop 1 s))
      else (10, s))"

definition parseUint0 :: "string \<Rightarrow> numErr + int" where
  "parseUint0 s =
     (if s = [] then Inl ErrSyntax
      else case basePart s of (base, ds) \<Rightarrow>
        (case parseBaseAcc base 0 ds of
           Inl e \<Rightarrow> Inl e
         | Inr n \<Rightarrow> if CHR ''_'' \<in> set ds \<and> \<not> underscoreOK s then Inl ErrSyntax else Inr n))"

definition parseInt0 :: "string \<Rightarrow> numErr + int" where
  "parseInt0 s = (case s of
       [] \<Rightarrow> Inl ErrSyntax
     | c # cs \<Rightarrow>
        let neg = (c = CHR ''-''); body = (if c = CHR ''+'' \<or> c = CHR ''-'' then cs else s) in
        (case parseUint0 body of
           Inl e \<Rightarrow> Inl e
         | Inr u \<Rightarrow>
             if \<not> neg \<and> u \<ge> 2 ^ 63 then Inl ErrRange
             else if neg \<and> u > 2 ^ 63 then Inl ErrRange
             else Inr (if neg then - u else u)))"

subsection \<open>\<open>ParseBool\<close>\<close>

definition parseBool :: "string \<Rightarrow> bool option" where
  "parseBool s =
     (if s \<in> set [''1'', ''t'', ''T'', ''true'', ''TRUE'', ''True''] then Some True
      else if s \<in> set [''0'', ''f'', ''F'', ''false'', ''FALSE'', ''False''] then Some False
      else None)"

subsection \<open>\<open>ParseDuration\<close>\<close>

fun leadingInt :: "int \<Rightarrow> string \<Rightarrow> (int \<times> string) option" where
  "leadingInt x [] = Some (x, [])"
| "leadingInt x (c # cs) =
     (if \<not> isDigit c then Some (x, c # cs)
      else if x > 2 ^ 63 div 10 then None
      else let y = x * 10 + (int (byte c) - 48) in if y > 2 ^ 63 then None else leadingInt y cs)"

text \<open>The digits after a point: value, number of digits taken into it, rest\<close>

fun leadingFraction :: "int \<Rightarrow> nat \<Rightarrow> bool \<Rightarrow> string \<Rightarrow> int \<times> nat \<times> string" where
  "leadingFraction x k ov [] = (x, k, [])"
| "leadingFraction x k ov (c # cs) =
     (if \<not> isDigit c then (x, k, c # cs)
      else if ov then leadingFraction x k True cs
      else if x > (2 ^ 63 - 1) div 10 then leadingFraction x k True cs
      else let y = x * 10 + (int (byte c) - 48) in
        if y > 2 ^ 63 then leadingFraction x k True cs else leadingFraction y (Suc k) False cs)"

definition unitMap :: "(string \<times> int) list" where
  "unitMap = [(''ns'', 1), (''us'', 1000), ([CHR 0xC2, CHR 0xB5] @ ''s'', 1000),
     ([CHR 0xCE, CHR 0xBC] @ ''s'', 1000), (''ms'', 1000000), (''s'', 1000000000),
     (''m'', 60000000000), (''h'', 3600000000000)]"

definition unitChar :: "char \<Rightarrow> bool" where
  "unitChar c \<longleftrightarrow> \<not> (c = CHR ''.'' \<or> isDigit c)"

lemma leadingInt_length: "leadingInt x s = Some (v, r) \<Longrightarrow> length r \<le> length s"
  by (induction s arbitrary: x) (auto simp: Let_def split: if_splits dest: le_SucI)

lemma leadingFraction_length: "leadingFraction x k ov s = (f, j, r) \<Longrightarrow> length r \<le> length s"
  by (induction s arbitrary: x k ov) (auto simp: Let_def split: if_splits dest: le_SucI)

text \<open>A number: its integer part, its fraction digits and their count, and the rest of the string\<close>

definition durationNumber :: "string \<Rightarrow> (int \<times> int \<times> nat \<times> string) option" where
  "durationNumber s =
     (if s = [] \<or> \<not> (hd s = CHR ''.'' \<or> isDigit (hd s)) then None
      else case leadingInt 0 s of
        None \<Rightarrow> None
      | Some (v, s1) \<Rightarrow>
          if s1 \<noteq> [] \<and> hd s1 = CHR ''.'' then
            (case leadingFraction 0 0 False (tl s1) of (f, k, s2) \<Rightarrow>
              if length s1 = length s \<and> length s2 = length (tl s1) then None else Some (v, f, k, s2))
          else if length s1 = length s then None else Some (v, 0, 0, s1))"

text \<open>The unit after it: the nanoseconds and the rest of the string\<close>

definition durationUnit :: "(int \<Rightarrow> int \<Rightarrow> nat \<Rightarrow> int) \<Rightarrow> int \<Rightarrow> int \<Rightarrow> nat \<Rightarrow> string \<Rightarrow> (int \<times> string) option" where
  "durationUnit frac v f k s =
     (if takeWhile unitChar s = [] then None
      else case map_of unitMap (takeWhile unitChar s) of
        None \<Rightarrow> None
      | Some unit \<Rightarrow>
          if v > 2 ^ 63 div unit then None
          else let v2 = (if f > 0 then v * unit + frac f unit k else v * unit) in
            if v2 > 2 ^ 63 then None else Some (v2, dropWhile unitChar s))"

definition durationPart :: "(int \<Rightarrow> int \<Rightarrow> nat \<Rightarrow> int) \<Rightarrow> string \<Rightarrow> (int \<times> string) option" where
  "durationPart frac s =
     (case durationNumber s of None \<Rightarrow> None | Some (v, f, k, r) \<Rightarrow> durationUnit frac v f k r)"

lemma durationNumber_length: "durationNumber s = Some (v, f, k, r) \<Longrightarrow> length r \<le> length s"
proof -
  assume a: "durationNumber s = Some (v, f, k, r)"
  then obtain w s1 where s1: "leadingInt 0 s = Some (w, s1)"
    by (auto simp: durationNumber_def split: if_splits option.splits)
  with a have "r = s1 \<or> (\<exists>x j. leadingFraction 0 0 False (tl s1) = (x, j, r))"
    by (auto simp: durationNumber_def split: if_splits prod.splits)
  with leadingInt_length [OF s1] show ?thesis
    by (auto dest!: leadingFraction_length)
qed

lemma durationUnit_shorter: "durationUnit frac v f k s = Some (n, r) \<Longrightarrow> length r < length s"
proof -
  assume "durationUnit frac v f k s = Some (n, r)"
  then have "takeWhile unitChar s \<noteq> []" and r: "r = dropWhile unitChar s"
    by (auto simp: durationUnit_def Let_def split: if_splits option.splits)
  then have "0 < length (takeWhile unitChar s)" by simp
  moreover have "length (takeWhile unitChar s) + length r = length s"
    unfolding r by (metis length_append takeWhile_dropWhile_id)
  ultimately show ?thesis by linarith
qed

lemma durationPart_shorter: "durationPart frac s = Some (v, r) \<Longrightarrow> length r < length s"
  by (auto simp: durationPart_def split: option.splits
      dest!: durationNumber_length durationUnit_shorter)

function durationLoop :: "(int \<Rightarrow> int \<Rightarrow> nat \<Rightarrow> int) \<Rightarrow> int \<Rightarrow> string \<Rightarrow> int option" where
  "durationLoop frac d s =
     (if s = [] then Some d
      else case durationPart frac s of
        None \<Rightarrow> None
      | Some (v, r) \<Rightarrow> if d + v > 2 ^ 63 then None else durationLoop frac (d + v) r)"
  by pat_completeness auto
termination
  by (relation "measure (\<lambda>(frac, d, s). length s)") (auto dest: durationPart_shorter)

declare durationLoop.simps [simp del]

text \<open>\<^const>\<open>None\<close> is an error; its text only ever stands inside a flag diagnostic.\<close>

definition parseDuration :: "(int \<Rightarrow> int \<Rightarrow> nat \<Rightarrow> int) \<Rightarrow> string \<Rightarrow> int option" where
  "parseDuration frac s0 =
     (let neg = (s0 \<noteq> [] \<and> hd s0 = CHR ''-'');
          s = (if s0 \<noteq> [] \<and> (hd s0 = CHR ''-'' \<or> hd s0 = CHR ''+'') then tl s0 else s0) in
      if s = ''0'' then Some 0
      else if s = [] then None
      else case durationLoop frac 0 s of
        None \<Rightarrow> None
      | Some d \<Rightarrow> if neg then Some (- d) else if d > 2 ^ 63 - 1 then None else Some d)"

subsection \<open>Decimal text is read back\<close>

lemma digit_not_underscore: "isDigit c \<Longrightarrow> c \<noteq> CHR ''_''"
  by (auto simp: isDigit_def)

lemma parseBaseAcc_digits:
  "list_all isDigit s \<Longrightarrow> parseBaseAcc 10 n s = parseUintAcc n s"
  by (induction s arbitrary: n) (auto simp: digitVal_def digit_not_underscore isDigit_def)

lemma showNat_0: "showNat 0 = ''0''"
  by (subst showNat.simps) (simp add: digitChar_num)

lemma showNat_hd_nonzero: "0 < n \<Longrightarrow> hd (showNat n) \<noteq> CHR ''0''"
proof (induction n rule: showNat.induct)
  case (1 n)
  show ?case
  proof (cases "n < 10")
    case True
    have "byte (digitChar n) \<noteq> 48" using 1 True by (simp add: byte_digitChar)
    then have "digitChar n \<noteq> CHR ''0''" by auto
    with True show ?thesis by (subst showNat.simps) simp
  next
    case False
    with 1 have "hd (showNat (n div 10)) \<noteq> CHR ''0''" by simp
    with False show ?thesis by (subst showNat.simps) (simp add: hd_append)
  qed
qed

lemma parseUint0_showNat: "int n < 2 ^ 64 \<Longrightarrow> parseUint0 (showNat n) = Inr (int n)"
proof (cases "n = 0")
  case True
  then show ?thesis by (simp add: parseUint0_def basePart_def showNat_0)
next
  case False
  moreover assume "int n < 2 ^ 64"
  moreover have "CHR ''_'' \<notin> set (showNat n)"
    using showNat_digits [of n] by (auto simp: list_all_iff dest: digit_not_underscore)
  ultimately show ?thesis
    using showNat_hd_nonzero [of n]
    by (simp add: parseUint0_def basePart_def parseBaseAcc_digits showNat_digits parseUintAcc_showNat)
qed

lemma parseInt0_itoa: "0 \<le> i \<Longrightarrow> i < 2 ^ 63 \<Longrightarrow> parseInt0 (itoa i) = Inr i"
  using parseUint0_showNat [of "nat i"] showNat_hd [of "nat i"]
  by (cases "showNat (nat i)") (auto simp: itoa_def parseInt0_def)

lemma leadingInt_append:
  "list_all isDigit s \<Longrightarrow> leadingInt x (s @ t) =
     (case leadingInt x s of None \<Rightarrow> None | Some (v, _) \<Rightarrow> leadingInt v t)"
  by (induction s arbitrary: x) (auto simp: Let_def)

lemma leadingInt_showNat: "int n \<le> 2 ^ 63 \<Longrightarrow> leadingInt 0 (showNat n) = Some (int n, [])"
proof (induction n rule: showNat.induct)
  case (1 n)
  show ?case
  proof (cases "n < 10")
    case True
    then show ?thesis by (subst showNat.simps) (simp add: digitChar_isDigit byte_digitChar)
  next
    case False
    with 1 have "leadingInt 0 (showNat (n div 10)) = Some (int (n div 10), [])" by simp
    moreover have "int (n div 10) * 10 + int (n mod 10) = int n"
      by (metis div_mult_mod_eq of_nat_add of_nat_mult of_nat_numeral)
    moreover have "\<not> int (n div 10) > 2 ^ 63 div 10"
      using 1(2) by (simp add: zdiv_int zdiv_mono1)
    ultimately show ?thesis using False 1(2) showNat_digits [of "n div 10"]
      by (subst showNat.simps)
        (simp add: leadingInt_append digitChar_isDigit byte_digitChar del: of_nat_div of_nat_mod zdiv_int zmod_int)
  qed
qed

lemma parseDuration_ns:
  assumes "0 \<le> d" and "d < 2 ^ 63"
  shows "parseDuration frac (itoa d @ ''ns'') = Some d"
proof -
  let ?n = "nat d"
  have it: "itoa d = showNat ?n" using assms(1) by (simp add: itoa_def)
  have n: "int ?n \<le> 2 ^ 63" using assms by simp
  have digits: "list_all isDigit (showNat ?n)" by (rule showNat_digits)
  then have hd: "isDigit (hd (showNat ?n))" by (simp add: list_all_iff)
  have lead: "leadingInt 0 (showNat ?n @ ''ns'') = Some (d, ''ns'')"
    using assms by (simp add: leadingInt_append [OF digits] leadingInt_showNat [OF n] isDigit_def)
  have num: "durationNumber (showNat ?n @ ''ns'') = Some (d, 0, 0, ''ns'')"
    using hd by (simp add: durationNumber_def lead hd_append)
  have unit: "durationUnit frac d 0 0 ''ns'' = Some (d, [])"
    using assms by (simp add: durationUnit_def unitChar_def isDigit_def unitMap_def)
  have "durationLoop frac 0 (showNat ?n @ ''ns'') = Some d"
    using assms by (subst durationLoop.simps) (simp add: durationPart_def num unit durationLoop.simps [of frac d "[]"])
  moreover have "showNat ?n @ ''ns'' \<noteq> ''0''" by (simp add: append_eq_Cons_conv)
  moreover have "hd (showNat ?n @ ''ns'') \<noteq> CHR ''-''" "hd (showNat ?n @ ''ns'') \<noteq> CHR ''+''"
    using showNat_hd [of ?n] by (simp_all add: hd_append)
  ultimately show ?thesis
    using assms by (simp add: parseDuration_def it)
qed

end
