(* ===== verification/Flags.thy ===== *)
theory Flags
  imports Cli GoNumbers
begin

text \<open>
  \<open>cmd/copyfail-validate/flags.go\<close>: the flag set with the parsing rules of Go's \<open>flag\<close> package,
  the environment defaults, the filters and the verbosity counter; and \<open>main\<close>'s use of them. What
  the flag layer writes is in \<open>Usage\<close>.
\<close>

subsection \<open>The flag values\<close>

record flagVals =
  fvFormat :: string
  fvOutput :: string
  fvTimeout :: int
  fvConcurrency :: int
  fvModule :: string
  fvConf :: string
  fvSkip :: string
  fvOnly :: string
  fvNoColor :: bool
  fvVersion :: bool
  fvVerbosity :: int

text \<open>
  What \<open>parseFlags\<close> takes from its process: the environment variables (unset ones read as empty),
  whether \<open>stdout\<close> is a character device (or the error of asking), and the floating point term of
  \<open>ParseDuration\<close>.
\<close>

record flagEnv =
  feGetenv :: "string \<Rightarrow> string"
  feStdout :: "goerr + bool"
  feFrac :: "int \<Rightarrow> int \<Rightarrow> nat \<Rightarrow> int"

definition defaultPerCheckTimeout :: int where
  "defaultPerCheckTimeout = 30 * 1000000000"

text \<open>\<open>readEnvDefaults\<close>, as the initial values of the flag set\<close>

definition readEnvDefaults :: "flagEnv \<Rightarrow> flagVals" where
  "readEnvDefaults fe =
     (let v = (\<lambda>name d. if feGetenv fe name \<noteq> [] then feGetenv fe name else d) in
      \<lparr>fvFormat = v ''COPYFAIL_FORMAT'' [], fvOutput = stdoutSentinel,
       fvTimeout = (if feGetenv fe ''COPYFAIL_TIMEOUT'' \<noteq> []
         then (case parseDuration (feFrac fe) (feGetenv fe ''COPYFAIL_TIMEOUT'') of
                 Some d \<Rightarrow> d | None \<Rightarrow> defaultPerCheckTimeout)
         else defaultPerCheckTimeout),
       fvConcurrency = 0, fvModule = v ''COPYFAIL_MODULE'' defaultModule,
       fvConf = v ''COPYFAIL_CONF'' defaultConfPath, fvSkip = [], fvOnly = [],
       fvNoColor = False, fvVersion = False, fvVerbosity = 0\<rparr>)"

subsection \<open>Setting one flag\<close>

text \<open>\<open>int\<close> arithmetic wraps at 64 bits.\<close>

definition wrap64 :: "int \<Rightarrow> int" where
  "wrap64 i = (i + 2 ^ 63) mod 2 ^ 64 - 2 ^ 63"

definition verbositySet :: "int \<Rightarrow> string \<Rightarrow> goerr + int" where
  "verbositySet v s =
     (if toLower s = ''true'' then Inr (wrap64 (v + 1))
      else if toLower s = ''false'' then Inr 0
      else case parseInt64 s of
        Inl e \<Rightarrow> Inl (plainErr (''verbosity: parse '' @ goQuote s @ '': '' @ numErrMsg ''Atoi'' s e))
      | Inr n \<Rightarrow> Inr n)"

definition flagNumErr :: "numErr \<Rightarrow> goerr" where
  "flagNumErr e = plainErr (case e of ErrSyntax \<Rightarrow> ''parse error'' | ErrRange \<Rightarrow> ''value out of range'')"

definition boolFlags :: "string list" where
  "boolFlags = [''no-color'', ''version'', ''v'', ''verbose'']"

definition valueFlags :: "string list" where
  "valueFlags = [''format'', ''output'', ''timeout'', ''concurrency'', ''module'', ''conf'', ''skip'', ''only'']"

text \<open>\<open>flag.Value.Set\<close> of the named flag\<close>

definition setFlag :: "flagEnv \<Rightarrow> string \<Rightarrow> string \<Rightarrow> flagVals \<Rightarrow> goerr + flagVals" where
  "setFlag fe name val v =
     (if name = ''format'' then Inr (v\<lparr>fvFormat := val\<rparr>)
      else if name = ''output'' then Inr (v\<lparr>fvOutput := val\<rparr>)
      else if name = ''module'' then Inr (v\<lparr>fvModule := val\<rparr>)
      else if name = ''conf'' then Inr (v\<lparr>fvConf := val\<rparr>)
      else if name = ''skip'' then Inr (v\<lparr>fvSkip := val\<rparr>)
      else if name = ''only'' then Inr (v\<lparr>fvOnly := val\<rparr>)
      else if name = ''timeout'' then
        (case parseDuration (feFrac fe) val of
           None \<Rightarrow> Inl (flagNumErr ErrSyntax) | Some d \<Rightarrow> Inr (v\<lparr>fvTimeout := d\<rparr>))
      else if name = ''concurrency'' then
        (case parseInt0 val of Inl e \<Rightarrow> Inl (flagNumErr e) | Inr n \<Rightarrow> Inr (v\<lparr>fvConcurrency := n\<rparr>))
      else if name = ''no-color'' then
        (case parseBool val of None \<Rightarrow> Inl (flagNumErr ErrSyntax) | Some b \<Rightarrow> Inr (v\<lparr>fvNoColor := b\<rparr>))
      else if name = ''version'' then
        (case parseBool val of None \<Rightarrow> Inl (flagNumErr ErrSyntax) | Some b \<Rightarrow> Inr (v\<lparr>fvVersion := b\<rparr>))
      else (case verbositySet (fvVerbosity v) val of
          Inl e \<Rightarrow> Inl e | Inr n \<Rightarrow> Inr (v\<lparr>fvVerbosity := n\<rparr>)))"

subsection \<open>\<open>FlagSet.Parse\<close>\<close>

text \<open>The name and the value after the first \<open>=\<close>, if there is one\<close>

definition splitFlag :: "string \<Rightarrow> string \<times> string option" where
  "splitFlag s = (case indexByte CHR ''='' s of
     None \<Rightarrow> (s, None) | Some i \<Rightarrow> (take i s, Some (drop (Suc i) s)))"

text \<open>The text of a flag argument after its dashes, or that it ends the flags\<close>

definition flagArg :: "string \<Rightarrow> string option" where
  "flagArg s =
     (if length s < 2 \<or> hd s \<noteq> CHR ''-'' then None
      else if s ! 1 = CHR ''-'' then (if length s = 2 then None else Some (drop 2 s))
      else Some (drop 1 s))"

fun parseArgs :: "flagEnv \<Rightarrow> string list \<Rightarrow> flagVals \<Rightarrow> goerr + flagVals" where
  "parseArgs fe [] v = Inr v"
| "parseArgs fe (s # args) v =
     (case flagArg s of
        None \<Rightarrow> Inr v
      | Some text \<Rightarrow>
          if text = [] \<or> hd text = CHR ''-'' \<or> hd text = CHR ''=''
          then Inl (plainErr (''bad flag syntax: '' @ s))
          else case splitFlag text of (name, value) \<Rightarrow>
            if name \<notin> set boolFlags \<and> name \<notin> set valueFlags then
              (if name = ''help'' \<or> name = ''h'' then Inl (sentinelErr FlagErrHelp)
               else Inl (plainErr (''flag provided but not defined: -'' @ name)))
            else if name \<in> set boolFlags then
              (case value of
                 Some x \<Rightarrow>
                   (case setFlag fe name x v of
                      Inl e \<Rightarrow> Inl (plainErr (''invalid boolean value '' @ goQuote x @ '' for -'' @ name @ '': '' @ errMsg e))
                    | Inr v' \<Rightarrow> parseArgs fe args v')
               | None \<Rightarrow>
                   (case setFlag fe name ''true'' v of
                      Inl e \<Rightarrow> Inl (plainErr (''invalid boolean flag '' @ name @ '': '' @ errMsg e))
                    | Inr v' \<Rightarrow> parseArgs fe args v'))
            else
              (case value of
                 Some x \<Rightarrow>
                   (case setFlag fe name x v of
                      Inl e \<Rightarrow> Inl (plainErr (''invalid value '' @ goQuote x @ '' for flag -'' @ name @ '': '' @ errMsg e))
                    | Inr v' \<Rightarrow> parseArgs fe args v')
               | None \<Rightarrow>
                   (case args of
                      [] \<Rightarrow> Inl (plainErr (''flag needs an argument: -'' @ name))
                    | x # args' \<Rightarrow>
                        (case setFlag fe name x v of
                           Inl e \<Rightarrow> Inl (plainErr (''invalid value '' @ goQuote x @ '' for flag -'' @ name @ '': '' @ errMsg e))
                         | Inr v' \<Rightarrow> parseArgs fe args' v'))))"

declare parseArgs.simps(2) [simp del]

subsection \<open>\<open>parseFlags\<close>\<close>

fun csvLoop :: "string list \<Rightarrow> string list" where
  "csvLoop [] = []"
| "csvLoop (p # ps) = (let q = trimSpace p in if q = [] then csvLoop ps else q # csvLoop ps)"

definition parseCSVFilter :: "string \<Rightarrow> string \<Rightarrow> goerr + string list" where
  "parseCSVFilter s field =
     (if s = [] then Inr []
      else let out = csvLoop (splitByte CHR '','' s) in
        if out = [] then Inl (wrapErr [] (sentinelErr ErrEmptyFilter) ('': --'' @ field))
        else Inr out)"

definition autoDetectFormat :: "flagEnv \<Rightarrow> string" where
  "autoDetectFormat fe =
     (case feStdout fe of Inl e \<Rightarrow> FormatJSON | Inr tty \<Rightarrow> if tty then FormatHuman else FormatJSON)"

definition parseFlags :: "flagEnv \<Rightarrow> string list \<Rightarrow> goerr + options" where
  "parseFlags fe argv =
     (case parseArgs fe argv (readEnvDefaults fe) of
        Inl e \<Rightarrow> Inl (wrapErr2 [] (sentinelErr ErrFlagParse) '': '' e [])
      | Inr v \<Rightarrow>
          if fvVersion v then Inl (sentinelErr ErrHelpOrVersion)
          else let formatStr = (if fvFormat v = [] then autoDetectFormat fe else fvFormat v) in
            case parseFormat formatStr of
              Inl e \<Rightarrow> Inl (wrapErr2 [] (sentinelErr ErrFlagParse) '': '' e [])
            | Inr format \<Rightarrow>
                (case parseCSVFilter (fvOnly v) ''only'' of
                   Inl e \<Rightarrow> Inl e
                 | Inr only \<Rightarrow>
                     (case parseCSVFilter (fvSkip v) ''skip'' of
                        Inl e \<Rightarrow> Inl e
                      | Inr skip \<Rightarrow>
                          if length only > 0 \<and> length skip > 0 then Inl (sentinelErr ErrFlagConflict)
                          else Inr \<lparr>opFormat = format, opOutput = fvOutput v, opModule = fvModule v,
                                    opConf = fvConf v, opOnly = only, opSkip = skip,
                                    opTimeout = fvTimeout v, opConcurrency = fvConcurrency v,
                                    opVerbosity = fvVerbosity v, opNoColor = fvNoColor v\<rparr>)))"

definition isHelpOrVersionExit :: "goerr option \<Rightarrow> bool" where
  "isHelpOrVersionExit e =
     (case e of None \<Rightarrow> False | Some er \<Rightarrow> if errIs er ErrHelpOrVersion then True else errIs er FlagErrHelp)"

text \<open>\<open>main\<close>: the exit code it ends with, or the options it hands to \<open>run\<close>\<close>

definition mainFlags :: "flagEnv \<Rightarrow> string list \<Rightarrow> int + options" where
  "mainFlags fe argv =
     (case parseFlags fe argv of
        Inl e \<Rightarrow> Inl (if isHelpOrVersionExit (Some e) then exitOK else exitUsage)
      | Inr opts \<Rightarrow> Inr opts)"

inductive mainExits :: "'s hostEnv set \<Rightarrow> ('s, 'w) runEnv \<Rightarrow> flagEnv \<Rightarrow> string list \<Rightarrow> int \<Rightarrow> bool" for W re fe argv where
  main_flags: "mainFlags fe argv = Inl code \<Longrightarrow> mainExits W re fe argv code"
| main_run: "mainFlags fe argv = Inr opts \<Longrightarrow> cliRun W re opts code \<Longrightarrow> mainExits W re fe argv code"

end
