(* ===== verification/FlagsFacts.thy ===== *)
theory FlagsFacts
  imports Flags
begin

text \<open>
  Theorems on the command line: printing options as flags and parsing them gives the options
  back, what every accepted option record satisfies, the verbosity counter, and the inputs the
  parser treats differently from its documentation.
\<close>

subsection \<open>Lower case of ASCII text\<close>

lemma runeLen_ascii: "byte c < 128 \<Longrightarrow> runeLen (c # s) = 1"
  by (simp add: runeLen_def)

lemma toLower_ascii: "list_all (\<lambda>c. byte c < 128) s \<Longrightarrow> toLower s = map lowerByte s"
  by (induction s) (simp_all add: toLower_def runes.simps(2) runeLen_ascii lowerRune_def)

lemma lowerByte_digit: "isDigit c \<Longrightarrow> lowerByte c = c"
  by (simp add: lowerByte_def byteIn_def isDigit_def)

lemma itoa_ascii: "list_all (\<lambda>c. byte c < 128) (itoa i)"
  using token_itoa [of i] by (auto simp: token_def list_all_iff graphic_def)

lemma itoa_hd: "hd (itoa i) = CHR ''-'' \<or> isDigit (hd (itoa i))"
  using showNat_digits [of "nat i"] by (auto simp: itoa_def list_all_iff)

lemma toLower_itoa: "toLower (itoa i) \<noteq> ''true''" "toLower (itoa i) \<noteq> ''false''"
proof -
  have "lowerByte (hd (itoa i)) = hd (itoa i)"
    using itoa_hd [of i] by (elim disjE) (simp_all add: lowerByte_digit lowerByte_def [of "CHR ''-''"] byteIn_def)
  moreover have "hd (itoa i) \<noteq> CHR ''t'' \<and> hd (itoa i) \<noteq> CHR ''f''"
    using itoa_hd [of i] by (auto simp: isDigit_def)
  moreover have "itoa i \<noteq> []" using token_itoa token_nonempty by blast
  ultimately show "toLower (itoa i) \<noteq> ''true''" "toLower (itoa i) \<noteq> ''false''"
    using toLower_ascii [OF itoa_ascii [of i]] by (cases "itoa i"; force)+
qed

subsection \<open>Parsing one argument\<close>

lemmas flagNames = boolFlags_def valueFlags_def

lemma flag_names_plain:
  "name \<in> set boolFlags \<union> set valueFlags \<Longrightarrow>
   name \<noteq> [] \<and> hd name \<noteq> CHR ''-'' \<and> hd name \<noteq> CHR ''='' \<and> CHR ''='' \<notin> set name"
  by (auto simp: flagNames)

definition flagText :: "string \<Rightarrow> string \<Rightarrow> string" where
  "flagText name x = ''--'' @ name @ ''='' @ x"

lemma parseArgs_assign:
  assumes "name \<in> set boolFlags \<union> set valueFlags" and "setFlag fe name x v = Inr v'"
  shows "parseArgs fe (flagText name x # args) v = parseArgs fe args v'"
proof -
  note plain = flag_names_plain [OF assms(1)]
  have "flagArg (flagText name x) = Some (name @ ''='' @ x)"
    by (simp add: flagArg_def flagText_def)
  moreover have "splitFlag (name @ ''='' @ x) = (name, Some x)"
    using plain indexByte_append [of "CHR ''=''" name x] by (simp add: splitFlag_def)
  ultimately show ?thesis
    using plain assms by (auto simp: parseArgs.simps(2))
qed

lemma parseArgs_bare:
  assumes "name \<in> set boolFlags" and "setFlag fe name ''true'' v = Inr v'"
  shows "parseArgs fe ((CHR ''-'' # name) # args) v = parseArgs fe args v'"
proof -
  have plain: "name \<noteq> [] \<and> hd name \<noteq> CHR ''-'' \<and> hd name \<noteq> CHR ''='' \<and> CHR ''='' \<notin> set name"
    by (rule flag_names_plain) (use assms(1) in simp)
  then have "flagArg (CHR ''-'' # name) = Some name"
    by (cases name) (simp_all add: flagArg_def)
  moreover have "splitFlag name = (name, None)"
    using plain by (simp add: splitFlag_def indexByte_None [THEN iffD2])
  ultimately show ?thesis
    using plain assms by (simp add: parseArgs.simps(2))
qed

subsection \<open>Filters\<close>

lemma csvLoop_filter: "csvLoop ps = filter (\<lambda>q. q \<noteq> []) (map trimSpace ps)"
  by (induction ps) (simp_all add: Let_def)

definition filterItem :: "string \<Rightarrow> bool" where
  "filterItem p \<longleftrightarrow> p \<noteq> [] \<and> trimSpace p = p \<and> CHR '','' \<notin> set p"

lemma csvLoop_items: "list_all filterItem ps \<Longrightarrow> csvLoop ps = ps"
  by (induction ps) (auto simp: filterItem_def)

lemma parseCSVFilter_join:
  assumes "list_all filterItem ps"
  shows "parseCSVFilter (join '','' ps) f = Inr ps"
proof (cases "ps = []")
  case True
  then show ?thesis by (simp add: parseCSVFilter_def)
next
  case False
  have "splitByte CHR '','' (join '','' ps) = ps"
    by (rule splitByte_join [OF False]) (use assms in \<open>auto simp: list_all_iff filterItem_def\<close>)
  moreover have "join '','' ps \<noteq> []"
    using False assms by (cases ps) (auto simp: join_Cons filterItem_def)
  ultimately show ?thesis
    using assms False by (simp add: parseCSVFilter_def csvLoop_items)
qed

subsection \<open>Printing options as flags\<close>

definition showBool :: "bool \<Rightarrow> string" where
  "showBool b = (if b then ''true'' else ''false'')"

definition renderFlags :: "options \<Rightarrow> string list" where
  "renderFlags o' =
     [flagText ''format'' (opFormat o'), flagText ''output'' (opOutput o'),
      flagText ''timeout'' (itoa (opTimeout o') @ ''ns''), flagText ''concurrency'' (itoa (opConcurrency o')),
      flagText ''module'' (opModule o'), flagText ''conf'' (opConf o'),
      flagText ''skip'' (join '','' (opSkip o')), flagText ''only'' (join '','' (opOnly o')),
      flagText ''no-color'' (showBool (opNoColor o')), flagText ''v'' (itoa (opVerbosity o'))]"

definition wfOptions :: "options \<Rightarrow> bool" where
  "wfOptions o' \<longleftrightarrow> knownFormat (opFormat o') \<and> (opOnly o' = [] \<or> opSkip o' = [])
     \<and> list_all filterItem (opOnly o') \<and> list_all filterItem (opSkip o')
     \<and> 0 \<le> opTimeout o' \<and> opTimeout o' < 2 ^ 63 \<and> 0 \<le> opConcurrency o' \<and> opConcurrency o' < 2 ^ 63
     \<and> - (2 ^ 63) \<le> opVerbosity o' \<and> opVerbosity o' < 2 ^ 63"

lemma parseFormat_known: "knownFormat f \<Longrightarrow> parseFormat f = Inr f \<and> f \<noteq> []"
proof -
  have "parseFormat FormatHuman = Inr FormatHuman" "parseFormat FormatJSON = Inr FormatJSON"
    "parseFormat FormatSARIF = Inr FormatSARIF" "parseFormat FormatPrometheus = Inr FormatPrometheus"
    by code_simp+
  then show "knownFormat f \<Longrightarrow> parseFormat f = Inr f \<and> f \<noteq> []" by (auto simp: knownFormat_def)
qed

lemma parseBool_show: "parseBool (showBool b) = Some b"
  by (simp add: parseBool_def showBool_def)

lemma verbositySet_itoa: "- (2 ^ 63) \<le> i \<Longrightarrow> i < 2 ^ 63 \<Longrightarrow> verbositySet v (itoa i) = Inr i"
  by (simp add: verbositySet_def toLower_itoa parseInt64_itoa)

lemma parse_steps:
  "parseArgs fe (flagText ''format'' x # args) v = parseArgs fe args (v\<lparr>fvFormat := x\<rparr>)"
  "parseArgs fe (flagText ''output'' x # args) v = parseArgs fe args (v\<lparr>fvOutput := x\<rparr>)"
  "parseArgs fe (flagText ''module'' x # args) v = parseArgs fe args (v\<lparr>fvModule := x\<rparr>)"
  "parseArgs fe (flagText ''conf'' x # args) v = parseArgs fe args (v\<lparr>fvConf := x\<rparr>)"
  "parseArgs fe (flagText ''skip'' x # args) v = parseArgs fe args (v\<lparr>fvSkip := x\<rparr>)"
  "parseArgs fe (flagText ''only'' x # args) v = parseArgs fe args (v\<lparr>fvOnly := x\<rparr>)"
  "parseArgs fe (flagText ''no-color'' (showBool b) # args) v = parseArgs fe args (v\<lparr>fvNoColor := b\<rparr>)"
  by (rule parseArgs_assign, simp add: flagNames, simp add: setFlag_def parseBool_show)+

lemma parse_number_steps:
  "0 \<le> i \<Longrightarrow> i < 2 ^ 63 \<Longrightarrow>
   parseArgs fe (flagText ''timeout'' (itoa i @ ''ns'') # args) v = parseArgs fe args (v\<lparr>fvTimeout := i\<rparr>)"
  "0 \<le> i \<Longrightarrow> i < 2 ^ 63 \<Longrightarrow>
   parseArgs fe (flagText ''concurrency'' (itoa i) # args) v = parseArgs fe args (v\<lparr>fvConcurrency := i\<rparr>)"
  "- (2 ^ 63) \<le> i \<Longrightarrow> i < 2 ^ 63 \<Longrightarrow>
   parseArgs fe (flagText ''v'' (itoa i) # args) v = parseArgs fe args (v\<lparr>fvVerbosity := i\<rparr>)"
  by (rule parseArgs_assign, simp add: flagNames, simp add: setFlag_def parseDuration_ns parseInt0_itoa verbositySet_itoa)+

text \<open>
  Property C24: the command line round trip. Any options with a known format, at most one filter,
  clean filter entries and numbers in range are recovered exactly from their flags, whatever the
  environment variables and the terminal are: flags always win.
\<close>

theorem flags_roundtrip:
  assumes "wfOptions opts"
  shows "parseFlags fe (renderFlags opts) = Inr opts"
proof -
  let ?v = "\<lparr>fvFormat = opFormat opts, fvOutput = opOutput opts, fvTimeout = opTimeout opts,
     fvConcurrency = opConcurrency opts, fvModule = opModule opts, fvConf = opConf opts,
     fvSkip = join '','' (opSkip opts), fvOnly = join '','' (opOnly opts), fvNoColor = opNoColor opts,
     fvVersion = False, fvVerbosity = opVerbosity opts\<rparr>"
  have w: "0 \<le> opTimeout opts" "opTimeout opts < 2 ^ 63" "0 \<le> opConcurrency opts" "opConcurrency opts < 2 ^ 63"
    "- (2 ^ 63) \<le> opVerbosity opts" "opVerbosity opts < 2 ^ 63" "opOnly opts = [] \<or> opSkip opts = []"
    using assms by (simp_all add: wfOptions_def)
  have f: "parseFormat (opFormat opts) = Inr (opFormat opts)" "opFormat opts \<noteq> []"
    using assms parseFormat_known by (auto simp: wfOptions_def)
  have c: "parseCSVFilter (join '','' (opOnly opts)) ''only'' = Inr (opOnly opts)"
    "parseCSVFilter (join '','' (opSkip opts)) ''skip'' = Inr (opSkip opts)"
    using assms by (simp_all add: wfOptions_def parseCSVFilter_join)
  have "parseArgs fe (renderFlags opts) (readEnvDefaults fe) = Inr ?v"
    using w by (simp add: renderFlags_def parse_steps parse_number_steps readEnvDefaults_def Let_def)
  then show ?thesis
    using f c w(7) by (auto simp: parseFlags_def)
qed

definition sampleOptions :: options where
  "sampleOptions = \<lparr>opFormat = FormatSARIF, opOutput = ''/tmp/out.sarif'', opModule = ''algif_hash'',
     opConf = ''/etc/x.conf'', opOnly = [''modprobe.dry_run'', ''module.not_loaded''], opSkip = [],
     opTimeout = 5, opConcurrency = 2, opVerbosity = 2, opNoColor = True\<rparr>"

definition demoFlagEnv :: flagEnv where
  "demoFlagEnv = \<lparr>feGetenv = (\<lambda>_. []), feStdout = Inr False, feFrac = (\<lambda>f u k. f * u div 10 ^ k)\<rparr>"

theorem flags_roundtrip_witness:
  "parseFlags demoFlagEnv (renderFlags sampleOptions) = Inr sampleOptions
   \<and> hd (renderFlags sampleOptions) = ''--format=sarif''"
proof -
  have "wfOptions sampleOptions" by code_simp
  from flags_roundtrip [OF this] show ?thesis
    by (simp add: renderFlags_def flagText_def sampleOptions_def)
qed

subsection \<open>What every accepted option record satisfies\<close>

lemma parseFormat_cases: "parseFormat s = Inr f \<Longrightarrow> knownFormat f"
  by (auto simp: parseFormat_def knownFormat_def Let_def split: if_splits)

lemma parseCSVFilter_items: "parseCSVFilter s fld = Inr ps \<Longrightarrow> [] \<notin> set ps \<and> (s \<noteq> [] \<longrightarrow> ps \<noteq> [])"
  by (auto simp: parseCSVFilter_def Let_def csvLoop_filter split: if_splits)

text \<open>
  Property C25: an accepted command line is consistent. Whatever the arguments and the environment are, the format is one
  of the four, at most one of the two filters is set, and no filter entry is empty.
\<close>

theorem accepted_options:
  assumes "parseFlags fe argv = Inr opts"
  shows "knownFormat (opFormat opts) \<and> (opOnly opts = [] \<or> opSkip opts = [])
    \<and> [] \<notin> set (opOnly opts) \<and> [] \<notin> set (opSkip opts)"
proof -
  obtain v where v: "parseArgs fe argv (readEnvDefaults fe) = Inr v" "\<not> fvVersion v"
    using assms by (auto simp: parseFlags_def split: sum.splits if_splits)
  let ?fmt = "if fvFormat v = [] then autoDetectFormat fe else fvFormat v"
  obtain format where f: "parseFormat ?fmt = Inr format"
    using assms v by (cases "parseFormat ?fmt") (auto simp: parseFlags_def Let_def)
  obtain only where on: "parseCSVFilter (fvOnly v) ''only'' = Inr only"
    using assms v f by (cases "parseCSVFilter (fvOnly v) ''only''") (auto simp: parseFlags_def Let_def)
  obtain skip where sk: "parseCSVFilter (fvSkip v) ''skip'' = Inr skip"
    using assms v f on by (cases "parseCSVFilter (fvSkip v) ''skip''") (auto simp: parseFlags_def Let_def)
  from assms v f on sk have "only = [] \<or> skip = []"
    "opFormat opts = format" "opOnly opts = only" "opSkip opts = skip"
    by (auto simp: parseFlags_def Let_def split: if_splits)
  with parseFormat_cases [OF f] parseCSVFilter_items [OF on] parseCSVFilter_items [OF sk] show ?thesis
    by simp
qed

theorem accepted_options_witness:
  "\<exists>opts. parseFlags demoFlagEnv [''--skip'', ''a, ,b''] = Inr opts \<and> [] \<notin> set (opSkip opts)
     \<and> opSkip opts = [''a'', ''b'']"
proof -
  let ?o = "\<lparr>opFormat = FormatJSON, opOutput = ''-'', opModule = ''algif_aead'',
    opConf = ''/etc/modprobe.d/disable-algif-aead.conf'', opOnly = [], opSkip = [''a'', ''b''],
    opTimeout = 30000000000, opConcurrency = 0, opVerbosity = 0, opNoColor = False\<rparr>"
  have "parseFlags demoFlagEnv [''--skip'', ''a, ,b''] = Inr ?o" by code_simp
  from accepted_options [OF this] this show ?thesis by simp
qed

subsection \<open>An empty filter value\<close>

lemma parse_only_empty: "parseArgs fe [''--only=''] v = Inr (v\<lparr>fvOnly := []\<rparr>)"
proof -
  have "flagText ''only'' [] = ''--only=''" by (simp add: flagText_def)
  then show ?thesis using parse_steps(6) [of fe "[]" "[]" v] by simp
qed

lemma csvLoop_empty: "csvLoop ps = [] \<longleftrightarrow> list_all (\<lambda>p. trimSpace p = []) ps"
  by (induction ps) (simp_all add: Let_def)

lemma parse_only_value: "parseArgs fe [''--only='' @ s] v = Inr (v\<lparr>fvOnly := s\<rparr>)"
proof -
  have "flagText ''only'' s = ''--only='' @ s" by (simp add: flagText_def)
  then show ?thesis using parse_steps(6) [of fe s "[]" v] by simp
qed

text \<open>
  Property C26: \<open>--only=\<close> with an empty value is no filter at all. The flag layer means to refuse an
  empty filter, naming \<open>--only=$EMPTY\<close> with an unset variable as the case to catch; but the empty
  value is taken for an absent flag, so this command line is accepted exactly when the one without the
  flag is, and runs every check. A value that is not empty is refused exactly when every piece between its commas is blank,
  with an error that wraps \<open>ErrEmptyFilter\<close>; any other value is the list of its pieces that are not blank, trimmed and in
  order. On a command line that is accepted without the flag, such a blank value ends the parse with that error.
\<close>

theorem empty_filter_accepted:
  "parseFlags fe [''--only=''] = parseFlags fe []
   \<and> (parseCSVFilter s field = Inr [] \<longleftrightarrow> s = [])
   \<and> (parseCSVFilter s field = Inl e \<longleftrightarrow> s \<noteq> [] \<and> list_all (\<lambda>p. trimSpace p = []) (splitByte CHR '','' s)
        \<and> e = wrapErr [] (sentinelErr ErrEmptyFilter) ('': --'' @ field))
   \<and> (parseCSVFilter s field = Inr (p # ps) \<longleftrightarrow>
        p # ps = filter (\<lambda>q. q \<noteq> []) (map trimSpace (splitByte CHR '','' s)) \<and> s \<noteq> [])
   \<and> (case parseFlags fe [] of Inl _ \<Rightarrow> True
      | Inr _ \<Rightarrow> (parseFlags fe [''--only='' @ s] = Inl (wrapErr [] (sentinelErr ErrEmptyFilter) '': --only'')
          \<longleftrightarrow> s \<noteq> [] \<and> list_all (\<lambda>p. trimSpace p = []) (splitByte CHR '','' s)))"
proof (intro conjI)
  have fv: "fvOnly (readEnvDefaults fe) = []" "fvSkip (readEnvDefaults fe) = []" by (simp_all add: readEnvDefaults_def Let_def)
  then have "(readEnvDefaults fe)\<lparr>fvOnly := []\<rparr> = readEnvDefaults fe" by simp
  then show "parseFlags fe [''--only=''] = parseFlags fe []"
    by (simp add: parseFlags_def parse_only_empty)
  show "parseCSVFilter s field = Inr [] \<longleftrightarrow> s = []" by (simp add: parseCSVFilter_def Let_def)
  show "parseCSVFilter s field = Inl e \<longleftrightarrow> s \<noteq> [] \<and> list_all (\<lambda>p. trimSpace p = []) (splitByte CHR '','' s)
        \<and> e = wrapErr [] (sentinelErr ErrEmptyFilter) ('': --'' @ field)"
    by (auto simp: parseCSVFilter_def csvLoop_empty Let_def)
  show "parseCSVFilter s field = Inr (p # ps) \<longleftrightarrow>
      p # ps = filter (\<lambda>q. q \<noteq> []) (map trimSpace (splitByte CHR '','' s)) \<and> s \<noteq> []"
    by (auto simp: parseCSVFilter_def csvLoop_filter Let_def)
  have blank: "(\<exists>e. parseCSVFilter s ''only'' = Inl e) \<longleftrightarrow> s \<noteq> [] \<and> list_all (\<lambda>p. trimSpace p = []) (splitByte CHR '','' s)"
    "parseCSVFilter s ''only'' = Inl e \<Longrightarrow> e = wrapErr [] (sentinelErr ErrEmptyFilter) '': --only''" for e
    by (auto simp: parseCSVFilter_def csvLoop_empty Let_def split: if_splits)
  show "case parseFlags fe [] of Inl _ \<Rightarrow> True
      | Inr _ \<Rightarrow> (parseFlags fe [''--only='' @ s] = Inl (wrapErr [] (sentinelErr ErrEmptyFilter) '': --only'')
          \<longleftrightarrow> s \<noteq> [] \<and> list_all (\<lambda>p. trimSpace p = []) (splitByte CHR '','' s))"
  proof (cases "parseFlags fe []")
    case (Inr opts)
    then have v: "\<not> fvVersion (readEnvDefaults fe)" by (auto simp: parseFlags_def split: if_splits)
    let ?fmt = "if fvFormat (readEnvDefaults fe) = [] then autoDetectFormat fe else fvFormat (readEnvDefaults fe)"
    obtain f where f: "parseFormat ?fmt = Inr f" using Inr v by (cases "parseFormat ?fmt") (auto simp: parseFlags_def Let_def)
    have "parseFlags fe [''--only='' @ s] = (case parseCSVFilter s ''only'' of Inl e \<Rightarrow> Inl e
        | Inr only \<Rightarrow> Inr \<lparr>opFormat = f, opOutput = fvOutput (readEnvDefaults fe), opModule = fvModule (readEnvDefaults fe),
             opConf = fvConf (readEnvDefaults fe), opOnly = only, opSkip = [], opTimeout = fvTimeout (readEnvDefaults fe),
             opConcurrency = fvConcurrency (readEnvDefaults fe), opVerbosity = fvVerbosity (readEnvDefaults fe),
             opNoColor = fvNoColor (readEnvDefaults fe)\<rparr>)"
      unfolding parseFlags_def parse_only_value using v f fv
      by (cases "fvFormat (readEnvDefaults fe) = []") (simp_all add: parseCSVFilter_def [of "[]"] Let_def split: sum.split)
    with Inr blank show ?thesis by (cases "parseCSVFilter s ''only''") auto
  qed simp
qed

subsection \<open>Verbosity\<close>

lemma toLower_true: "toLower ''true'' = ''true''"
  by code_simp

lemma parse_v_count:
  "fvVerbosity v + int n < 2 ^ 63 \<Longrightarrow> - (2 ^ 63) \<le> fvVerbosity v \<Longrightarrow>
   parseArgs fe (replicate n ''-v'' @ args) v = parseArgs fe args (v\<lparr>fvVerbosity := fvVerbosity v + int n\<rparr>)"
proof (induction n arbitrary: v)
  case (Suc n)
  have w: "wrap64 (fvVerbosity v + 1) = fvVerbosity v + 1"
    using Suc.prems by (simp add: wrap64_def)
  have set: "setFlag fe ''v'' ''true'' v = Inr (v\<lparr>fvVerbosity := fvVerbosity v + 1\<rparr>)"
    by (simp add: setFlag_def verbositySet_def toLower_true w)
  have "parseArgs fe (''-v'' # replicate n ''-v'' @ args) v =
      parseArgs fe (replicate n ''-v'' @ args) (v\<lparr>fvVerbosity := fvVerbosity v + 1\<rparr>)"
    using parseArgs_bare [OF _ set] by (simp add: flagNames)
  also have "\<dots> = parseArgs fe args (v\<lparr>fvVerbosity := fvVerbosity v + int (Suc n)\<rparr>)"
    using Suc.IH [of "v\<lparr>fvVerbosity := fvVerbosity v + 1\<rparr>"] Suc.prems by (simp add: algebra_simps)
  finally show ?case by simp
qed simp

text \<open>
  The verbosity flag counts its occurrences, and only them. \<open>n\<close> times \<open>-v\<close> gives the
  verbosity \<open>n\<close>. The spelling \<open>-vv\<close> that the usage text documents for debug output is an unknown
  flag: the program ends with the usage code 64 without running a check.
\<close>

theorem verbosity_flag:
  assumes "int n < 2 ^ 63" and "parseFlags fe [] = Inr opts"
  shows "parseFlags fe (replicate n ''-v'') = Inr (opts\<lparr>opVerbosity := int n\<rparr>)
    \<and> mainFlags fe (''-vv'' # args) = Inl exitUsage"
proof
  have v0: "fvVerbosity (readEnvDefaults fe) = 0" by (simp add: readEnvDefaults_def Let_def)
  have "parseArgs fe (replicate n ''-v'') (readEnvDefaults fe) = Inr ((readEnvDefaults fe)\<lparr>fvVerbosity := int n\<rparr>)"
    using parse_v_count [of "readEnvDefaults fe" n fe "[]"] assms(1) v0 by simp
  then show "parseFlags fe (replicate n ''-v'') = Inr (opts\<lparr>opVerbosity := int n\<rparr>)"
    using assms(2) by (auto simp: parseFlags_def Let_def split: sum.splits if_splits)
next
  have "flagArg ''-vv'' = Some ''vv''" "splitFlag ''vv'' = (''vv'', None)"
    by (simp_all add: flagArg_def splitFlag_def)
  then have "parseFlags fe (''-vv'' # args) =
      Inl (wrapErr2 [] (sentinelErr ErrFlagParse) '': '' (plainErr ''flag provided but not defined: -vv'') [])"
    by (simp add: parseFlags_def parseArgs.simps(2) flagNames)
  then show "mainFlags fe (''-vv'' # args) = Inl exitUsage"
    by (simp add: mainFlags_def isHelpOrVersionExit_def)
qed

theorem verbosity_flag_witness:
  "\<exists>opts. parseFlags demoFlagEnv [''-v'', ''-v''] = Inr opts \<and> opVerbosity opts = 2"
proof -
  let ?o = "\<lparr>opFormat = FormatJSON, opOutput = ''-'', opModule = ''algif_aead'',
    opConf = ''/etc/modprobe.d/disable-algif-aead.conf'', opOnly = [], opSkip = [],
    opTimeout = 30000000000, opConcurrency = 0, opVerbosity = 0, opNoColor = False\<rparr>"
  have "parseFlags demoFlagEnv [] = Inr ?o" by code_simp
  from verbosity_flag [OF _ this, of 2] show ?thesis by (simp add: numeral_eq_Suc)
qed

end
