(* ===== verification/Usage.thy ===== *)
theory Usage
  imports FlagsFacts Logging
begin

text \<open>
  What the flag layer of \<open>cmd/copyfail-validate\<close> writes to standard error: the help text, the version line and the
  diagnostics of Go's \<open>flag\<close> package.
\<close>

section \<open>The texts\<close>

definition usageLines :: "string list" where
  "usageLines =
     [''copyfail-validate - validate AF_ALG-family kernel-crypto mitigations'',
      '''',
      ''Usage:'',
      ''  copyfail-validate [flags]'',
      '''',
      ''Flags:'',
      ''  --format string         Output format: human|json|sarif|prometheus'',
      ''                          (default \"human\" on TTY, \"json\" otherwise)'',
      ''  --output string         Output path; \"-\" for stdout (default \"-\")'',
      ''  --timeout duration      Per-check timeout (default 30s)'',
      ''  --concurrency int       Max parallel checks (default NumCPU)'',
      ''  --module string         Override module name to validate'',
      ''                          (default \"algif_aead\")'',
      ''  --conf string           Override modprobe.d path'',
      ''                          (default \"/etc/modprobe.d/disable-algif-aead.conf\")'',
      ''  --skip strings          Comma-separated check IDs to skip'',
      ''  --only strings          Comma-separated check IDs to run exclusively'',
      ''  --no-color              Disable ANSI colors (also honored: NO_COLOR env)'',
      ''  -v, --verbose           Increase logging verbosity (-v info, -vv debug)'',
      ''  --version               Print version and exit'',
      ''  -h, --help              Print this help and exit'',
      '''',
      ''Environment (lowest precedence):'',
      ''  COPYFAIL_FORMAT, COPYFAIL_TIMEOUT, COPYFAIL_MODULE, COPYFAIL_CONF'',
      '''',
      ''Exit codes (frozen at v1.0.0):'',
      ''  0    all required checks passed'',
      ''  2    >=1 required check failed (mitigation gap)'',
      ''  3    tool-level error before any check ran'',
      ''  4    >=1 required check errored (could not validate)'',
      ''  64   usage error (bad flag, conflicting --only/--skip)'',
      ''  130  interrupted by SIGINT'',
      ''  143  terminated by SIGTERM'']"

text \<open>\<open>writeUsage\<close>\<close>

definition usageText :: string where
  "usageText = unlines usageLines"

text \<open>\<open>writeVersion\<close>\<close>

definition versionText :: "buildVars \<Rightarrow> string" where
  "versionText vars =
     (let info = buildInfo vars in
      tName info @ '' '' @ tVersion info @ '' (commit '' @ tCommit info @ '', built '' @ tBuildDate info @ '')'' @ [CHR 0x0A])"

text \<open>\<open>verbosityCount.String\<close>, of a pointer that may be nil\<close>

definition verbosityString :: "int option \<Rightarrow> string" where
  "verbosityString v = (case v of None \<Rightarrow> ''0'' | Some n \<Rightarrow> itoa n)"

text \<open>
  What \<open>parseFlags\<close> has written when it returns: \<open>FlagSet.Parse\<close> prints its diagnostic and the usage, and the usage alone
  for \<open>-h\<close> and \<open>--help\<close>; \<open>--version\<close> prints the version.
\<close>

definition flagsWritten :: "buildVars \<Rightarrow> flagEnv \<Rightarrow> string list \<Rightarrow> string" where
  "flagsWritten vars fe argv =
     (case parseArgs fe argv (readEnvDefaults fe) of
        Inl e \<Rightarrow> (if errIs e FlagErrHelp then usageText else errMsg e @ [CHR 0x0A] @ usageText)
      | Inr v \<Rightarrow> if fvVersion v then versionText vars else [])"

lemma usage_nonempty: "usageText \<noteq> []"
  by (simp add: usageText_def usageLines_def)

section \<open>The help text against the code\<close>

text \<open>The flag a line of the usage documents, and the exit code it documents\<close>

definition usageFlag :: "string \<Rightarrow> string option" where
  "usageFlag l =
     (if prefix ''  --'' l then Some (takeWhile (\<lambda>c. c \<noteq> CHR '' '') (drop 4 l))
      else if prefix ''  -'' l then Some (takeWhile (\<lambda>c. c \<noteq> CHR '','') (drop 3 l))
      else None)"

definition usageCode :: "string \<Rightarrow> string option" where
  "usageCode l =
     (let t = takeWhile isDigit (drop 2 l) in if prefix ''  '' l \<and> t \<noteq> [] then Some t else None)"

text \<open>
  The help text tells the truth about the interface: the flags it lists are those the parser accepts (\<open>verbose\<close> and
  \<open>help\<close> under their short names), and the exit codes it lists are the constants of \<open>exit.go\<close>.
\<close>

theorem usage_documents:
  "set (List.map_filter usageFlag usageLines) = set valueFlags \<union> (set boolFlags - {''verbose''}) \<union> {''h''}
   \<and> List.map_filter usageCode usageLines = map itoa [exitOK, exitMitigationGap, exitToolError, exitCheckError, exitUsage,
       exitInterrupted, exitTerminated]"
proof -
  have "List.map_filter usageFlag usageLines =
      [''format'', ''output'', ''timeout'', ''concurrency'', ''module'', ''conf'', ''skip'', ''only'', ''no-color'', ''v'',
       ''version'', ''h'']"
    by code_simp
  moreover have "List.map_filter usageCode usageLines = [''0'', ''2'', ''3'', ''4'', ''64'', ''130'', ''143'']" by code_simp
  moreover have "map itoa [exitOK, exitMitigationGap, exitToolError, exitCheckError, exitUsage, exitInterrupted, exitTerminated]
      = [''0'', ''2'', ''3'', ''4'', ''64'', ''130'', ''143'']" by code_simp
  ultimately show ?thesis by (auto simp: valueFlags_def boolFlags_def)
qed

end
