(* ===== verification/HostInfo.thy ===== *)
theory HostInfo
  imports Report Exec GoOS
begin

text \<open>
  Package \<open>internal/hostinfo\<close>: the \<open>os-release(5)\<close> parser (\<open>osrelease.go\<close>) and \<open>Gather\<close>
  (\<open>hostinfo.go\<close>), with what the parser makes of any file of the format, and what \<open>Gather\<close> asks its runner.
\<close>

subsection \<open>osrelease.go\<close>

abbreviation bslash :: char where "bslash \<equiv> CHR 0x5C"
abbreviation dq :: char where "dq \<equiv> CHR 0x22"
abbreviation sq :: char where "sq \<equiv> CHR 0x27"

definition escapable :: "char \<Rightarrow> bool" where
  "escapable c \<longleftrightarrow> c = dq \<or> c = sq \<or> c = bslash \<or> c = CHR ''$'' \<or> c = CHR 0x60"

text \<open>The byte loop of \<open>expandDoubleQuoteEscapes\<close>\<close>

fun expandLoop :: "string \<Rightarrow> string" where
  "expandLoop [] = []"
| "expandLoop [c] = [c]"
| "expandLoop (c # d # s) =
     (if c \<noteq> bslash then c # expandLoop (d # s)
      else if escapable d then d # expandLoop s
      else c # expandLoop (d # s))"

definition expandDoubleQuoteEscapes :: "string \<Rightarrow> string" where
  "expandDoubleQuoteEscapes s = (if bslash \<notin> set s then s else expandLoop s)"

definition unquoteOSReleaseValue :: "string \<Rightarrow> string option" where
  "unquoteOSReleaseValue raw =
     (if raw = [] then Some []
      else if hd raw = dq then
        (if length raw < 2 \<or> last raw \<noteq> dq then None
         else Some (expandDoubleQuoteEscapes (butlast (tl raw))))
      else if hd raw = sq then
        (if length raw < 2 \<or> last raw \<noteq> sq then None else Some (butlast (tl raw)))
      else Some (trimRightSet blankTab raw))"

definition keyChar :: "char \<Rightarrow> bool" where
  "keyChar c \<longleftrightarrow> byteIn 65 90 c \<or> byteIn 97 122 c \<or> c = CHR ''_''"

fun keyLoop :: "bool \<Rightarrow> string \<Rightarrow> bool" where
  "keyLoop first [] = True"
| "keyLoop first (c # cs) =
     (if keyChar c then keyLoop False cs
      else if isDigit c then (if first then False else keyLoop False cs)
      else False)"

definition isValidOSReleaseKey :: "string \<Rightarrow> bool" where
  "isValidOSReleaseKey s = (if s = [] then False else keyLoop True s)"

definition splitKeyValue :: "string \<Rightarrow> (string \<times> string) option" where
  "splitKeyValue line =
     (case indexByte CHR ''='' line of
        None \<Rightarrow> None
      | Some idx \<Rightarrow>
          if idx = 0 then None
          else let key = take idx line; rawValue = drop (idx + 1) line in
            if \<not> isValidOSReleaseKey key then None
            else case unquoteOSReleaseValue rawValue of None \<Rightarrow> None | Some value \<Rightarrow> Some (key, value))"

type_synonym osFields = "string \<times> string \<times> string"

definition osLine :: "string \<Rightarrow> osFields \<Rightarrow> osFields" where
  "osLine raw st =
     (let line = trimSpace raw in
      if line = [] \<or> prefix ''#'' line then st
      else case splitKeyValue line of
        None \<Rightarrow> st
      | Some (key, value) \<Rightarrow>
          (case st of (i, versionID, prettyName) \<Rightarrow>
             if key = ''ID'' then (value, versionID, prettyName)
             else if key = ''VERSION_ID'' then (i, value, prettyName)
             else if key = ''PRETTY_NAME'' then (i, versionID, value)
             else st))"

fun osLoop :: "string list \<Rightarrow> osFields \<Rightarrow> osFields" where
  "osLoop [] st = st"
| "osLoop (l # ls) st = osLoop ls (osLine l st)"

definition parseOSRelease :: "reader \<Rightarrow> osFields \<times> goerr option" where
  "parseOSRelease r =
     (let st = osLoop (scanLines (fst r)) ([], [], []) in
      case scannerErr r of
        Some e \<Rightarrow> (([], [], []), Some (wrapErr ''hostinfo: scan os-release: '' e []))
      | None \<Rightarrow> (st, None))"

subsection \<open>hostinfo.go\<close>

definition osReleaseRelativePath :: string where
  "osReleaseRelativePath = ''etc/os-release''"

definition readOSReleaseFile :: "hostFS \<Rightarrow> string \<Rightarrow> osFields \<times> goerr option" where
  "readOSReleaseFile fs path =
     (case fsOpen fs path of Inl e \<Rightarrow> (([], [], []), Some e) | Inr r \<Rightarrow> parseOSRelease r)"

definition unameField :: "'s runner \<Rightarrow> 's \<Rightarrow> arg \<Rightarrow> (string \<times> goerr option) \<times> 's" where
  "unameField run s flag =
     (case run s (mkCmd ''uname'' [flag]) of
        ((res, Some e), s') \<Rightarrow> (([], Some e), s')
      | ((res, None), s') \<Rightarrow>
          (if xExitCode res \<noteq> 0
           then (([], Some (plainErr (''hostinfo: uname exited with code '' @ itoa (xExitCode res) @
                   '' (stderr='' @ goQuote (trimSpace (xStderr res)) @ '')''))), s')
           else ((trimSpace (xStdout res), None), s')))"

definition zeroHost :: hostInfo where
  "zeroHost = \<lparr>hHostname = [], hKernelRelease = [], hOSRelease = [], hOSVersion = [], hArch = []\<rparr>"

definition gatherUname :: "'s runner \<Rightarrow> 's \<Rightarrow> hostInfo \<Rightarrow> (hostInfo \<times> goerr option) \<times> 's" where
  "gatherUname run s host =
     (case unameField run s (Trusted ''-r'') of
        ((release, Some e), s1) \<Rightarrow> ((host, Some (wrapErr ''hostinfo: uname -r: '' e [])), s1)
      | ((release, None), s1) \<Rightarrow>
          let host1 = host\<lparr>hKernelRelease := release\<rparr> in
          (case unameField run s1 (Trusted ''-m'') of
             ((arch, Some e), s2) \<Rightarrow> ((host1, Some (wrapErr ''hostinfo: uname -m: '' e [])), s2)
           | ((arch, None), s2) \<Rightarrow> ((host1\<lparr>hArch := arch\<rparr>, None), s2)))"

text \<open>\<open>hostname\<close> is what \<open>os.Hostname\<close> returns.\<close>

definition gatherWithRoot ::
    "hostFS \<Rightarrow> goerr + string \<Rightarrow> 's runner \<Rightarrow> 's \<Rightarrow> string \<Rightarrow> (hostInfo \<times> goerr option) \<times> 's" where
  "gatherWithRoot fs hostname run s etcRoot =
     (let host = (case hostname of Inl _ \<Rightarrow> zeroHost | Inr name \<Rightarrow> zeroHost\<lparr>hHostname := name\<rparr>);
          osPath = joinPath [etcRoot, osReleaseRelativePath] in
      case readOSReleaseFile fs osPath of
        ((i, versionID, pretty), Some e) \<Rightarrow>
          (if \<not> errIs e FsErrNotExist
           then ((host, Some (wrapErr (''hostinfo: parse os-release at '' @ osPath @ '': '') e [])), s)
           else gatherUname run s host)
      | ((i, versionID, pretty), None) \<Rightarrow>
          gatherUname run s (host\<lparr>hOSRelease := i, hOSVersion := versionID\<rparr>))"

definition gather :: "hostFS \<Rightarrow> goerr + string \<Rightarrow> 's runner \<Rightarrow> 's \<Rightarrow> (hostInfo \<times> goerr option) \<times> 's" where
  "gather fs hostname run s = gatherWithRoot fs hostname run s ''/''"

subsection \<open>The format\<close>

text \<open>
  \<open>os-release(5)\<close> without the parser. A value is bare, in single quotes (verbatim), or in double quotes, where each
  character is written as it is or after a backslash; a key is a word that does not begin with a digit.
\<close>

datatype osValue = Bare string | Single string | Double "(bool \<times> char) list"

fun dqText :: "(bool \<times> char) list \<Rightarrow> string" where
  "dqText [] = []"
| "dqText ((b, c) # ps) = (if b then bslash # c # dqText ps else c # dqText ps)"

fun osText :: "osValue \<Rightarrow> string" where
  "osText (Bare v) = v"
| "osText (Single v) = sq # v @ [sq]"
| "osText (Double ps) = dq # dqText ps @ [dq]"

fun osMeaning :: "osValue \<Rightarrow> string" where
  "osMeaning (Bare v) = v"
| "osMeaning (Single v) = v"
| "osMeaning (Double ps) = map snd ps"

text \<open>The five characters that can be escaped; a lone backslash stands for itself before any other character\<close>

definition shellSpecial :: string where "shellSpecial = [dq, sq, bslash, CHR ''$'', CHR 0x60]"

fun dqOK :: "(bool \<times> char) list \<Rightarrow> bool" where
  "dqOK [] = True"
| "dqOK ((b, c) # ps) =
     ((if b then c \<in> set shellSpecial
       else c = bslash \<longrightarrow> dqText ps = [] \<or> hd (dqText ps) \<notin> set shellSpecial) \<and> dqOK ps)"

fun wfValue :: "osValue \<Rightarrow> bool" where
  "wfValue (Bare v) = (v = [] \<or> (hd v \<notin> {dq, sq} \<and> last v \<notin> {CHR '' '', CHR 0x09}))"
| "wfValue (Single v) = True"
| "wfValue (Double ps) = dqOK ps"

definition asciiDigit :: "char \<Rightarrow> bool" where
  "asciiDigit c \<longleftrightarrow> byte c \<in> {48..57}"

definition asciiLetter :: "char \<Rightarrow> bool" where
  "asciiLetter c \<longleftrightarrow> byte c \<in> {65..90} \<or> byte c \<in> {97..122}"

definition keyWord :: "string \<Rightarrow> bool" where
  "keyWord k \<longleftrightarrow> k \<noteq> [] \<and> \<not> asciiDigit (hd k) \<and> list_all (\<lambda>c. asciiLetter c \<or> asciiDigit c \<or> c = CHR ''_'') k"

text \<open>A quote that is opened and not closed\<close>

definition openQuote :: "string \<Rightarrow> bool" where
  "openQuote r \<longleftrightarrow> r \<noteq> [] \<and> hd r \<in> {dq, sq} \<and> (length r = 1 \<or> last r \<noteq> hd r)"

text \<open>
  A line of a file, white space at its ends aside: an assignment, or one that says nothing, that is a blank one, a comment,
  one without an equals sign, with something else than a key before the first one, or with an open quote after it.
\<close>

datatype osItem = Assign string string osValue | Skip string

fun itemLine :: "osItem \<Rightarrow> string" where
  "itemLine (Assign l k v) = l"
| "itemLine (Skip l) = l"

fun wfItem :: "osItem \<Rightarrow> bool" where
  "wfItem (Assign l k v) = (keyWord k \<and> wfValue v \<and> trimSpace l = k @ ''='' @ osText v)"
| "wfItem (Skip l) =
     (let t = trimSpace l; k = takeWhile (\<lambda>c. c \<noteq> CHR ''='') t in
      t = [] \<or> hd t = CHR ''#'' \<or> CHR ''='' \<notin> set t \<or> \<not> keyWord k \<or> openQuote (drop (Suc (length k)) t))"

fun assigns :: "string \<Rightarrow> osItem \<Rightarrow> bool" where
  "assigns key (Assign l k v) = (k = key)"
| "assigns key (Skip l) = False"

fun itemValue :: "osItem \<Rightarrow> string" where
  "itemValue (Assign l k v) = osMeaning v"
| "itemValue (Skip l) = []"

definition lastValue :: "string \<Rightarrow> osItem list \<Rightarrow> string" where
  "lastValue key its = (case last_match (assigns key) itemValue its of None \<Rightarrow> [] | Some v \<Rightarrow> v)"

subsection \<open>The parser reads it\<close>

lemma escapable_special: "escapable c \<longleftrightarrow> c \<in> set shellSpecial"
  by (auto simp: escapable_def shellSpecial_def)

lemma expandLoop_dqText: "dqOK ps \<Longrightarrow> expandLoop (dqText ps) = map snd ps"
proof (induction ps rule: dqText.induct)
  case (2 b c ps)
  show ?case
  proof (cases b)
    case True
    with 2 show ?thesis by (simp add: escapable_special)
  next
    case False
    with 2 show ?thesis by (cases "dqText ps") (auto simp: escapable_special split: if_splits)
  qed
qed simp

lemma expandLoop_plain: "bslash \<notin> set s \<Longrightarrow> expandLoop s = s"
  by (induction s rule: expandLoop.induct) auto

lemma unquote_value: "wfValue v \<Longrightarrow> unquoteOSReleaseValue (osText v) = Some (osMeaning v)"
proof (cases v)
  case (Bare w)
  moreover assume "wfValue v"
  ultimately show ?thesis
    by (cases "w = []") (auto simp: unquoteOSReleaseValue_def blankTab_def intro: trimRightSet_last)
next
  case (Double ps)
  moreover assume "wfValue v"
  ultimately have "expandDoubleQuoteEscapes (dqText ps) = map snd ps"
    using expandLoop_dqText [of ps] expandLoop_plain [of "dqText ps"] by (auto simp: expandDoubleQuoteEscapes_def)
  with Double show ?thesis by (simp add: unquoteOSReleaseValue_def butlast_append)
qed (simp add: unquoteOSReleaseValue_def butlast_append)

lemma unquote_open: "openQuote r \<longleftrightarrow> unquoteOSReleaseValue r = None"
  by (cases r) (auto simp: openQuote_def unquoteOSReleaseValue_def)

lemma keyLoop_set: "keyLoop b s \<longleftrightarrow> (s = [] \<or> \<not> (b \<and> isDigit (hd s))) \<and> list_all (\<lambda>c. keyChar c \<or> isDigit c) s"
proof (induction b s rule: keyLoop.induct)
  case (2 b c cs)
  have "\<not> (keyChar c \<and> isDigit c)" by (auto simp: keyChar_def isDigit_def byteIn_def)
  with 2 show ?case by auto
qed simp

lemma key_classes: "asciiDigit c \<longleftrightarrow> isDigit c" "asciiLetter c \<or> asciiDigit c \<or> c = CHR ''_'' \<longleftrightarrow> keyChar c \<or> isDigit c"
  by (auto simp: asciiDigit_def asciiLetter_def isDigit_def keyChar_def byteIn_def)

lemma keyWord_valid: "isValidOSReleaseKey k \<longleftrightarrow> keyWord k"
  unfolding isValidOSReleaseKey_def keyLoop_set keyWord_def key_classes(2) unfolding key_classes(1) by simp

lemma keyWord_chars: "keyWord k \<Longrightarrow> CHR ''='' \<notin> set k \<and> hd k \<noteq> CHR ''#''"
  by (cases k) (auto simp: keyWord_def list_all_iff asciiLetter_def asciiDigit_def)

lemma splitKeyValue_found:
  "CHR ''='' \<notin> set k \<Longrightarrow> splitKeyValue (k @ CHR ''='' # r) =
    (if keyWord k then map_option (\<lambda>v. (k, v)) (unquoteOSReleaseValue r) else None)"
  using indexByte_append [of "CHR ''=''" k r]
  by (auto simp: splitKeyValue_def keyWord_valid Let_def keyWord_def split: option.split)

lemma osLine_assign:
  assumes "wfItem (Assign l k v)"
  shows "osLine l (a, b, c) = (if k = ''ID'' then osMeaning v else a,
    if k = ''VERSION_ID'' then osMeaning v else b, if k = ''PRETTY_NAME'' then osMeaning v else c)"
proof -
  have k: "keyWord k" "k \<noteq> []" "CHR ''='' \<notin> set k" "hd k \<noteq> CHR ''#''" and t: "trimSpace l = k @ CHR ''='' # osText v"
    using assms keyWord_chars [of k] by (auto simp: keyWord_def)
  have "\<not> prefix ''#'' (trimSpace l)" using k t by (cases k) auto
  moreover have "splitKeyValue (trimSpace l) = Some (k, osMeaning v)"
    using splitKeyValue_found [OF k(3), of "osText v"] k(1) unquote_value [of v] assms by (simp add: t)
  ultimately show ?thesis using t by (simp add: osLine_def Let_def)
qed

lemma osLine_skip:
  assumes "wfItem (Skip l)"
  shows "osLine l st = st"
proof -
  define t where "t = trimSpace l"
  define k where "k = takeWhile (\<lambda>c. c \<noteq> CHR ''='') t"
  have hash: "t \<noteq> [] \<Longrightarrow> hd t = CHR ''#'' \<Longrightarrow> prefix ''#'' t" by (cases t) simp_all
  have "t = [] \<or> prefix ''#'' t \<or> splitKeyValue t = None"
  proof (cases "CHR ''='' \<in> set t")
    case True
    then obtain r where r: "dropWhile (\<lambda>c. c \<noteq> CHR ''='') t = CHR ''='' # r"
      using hd_dropWhile [of "\<lambda>c. c \<noteq> CHR ''=''" t] by (cases "dropWhile (\<lambda>c. c \<noteq> CHR ''='') t") (auto simp: dropWhile_eq_Nil_conv)
    then have tk: "t = k @ CHR ''='' # r" using takeWhile_dropWhile_id [of "\<lambda>c. c \<noteq> CHR ''=''" t] by (simp add: k_def)
    have nk: "CHR ''='' \<notin> set k" unfolding k_def by (auto dest: set_takeWhileD)
    have drop_k: "drop (Suc (length k)) t = r" unfolding tk by simp
    from assms have "t = [] \<or> hd t = CHR ''#'' \<or> \<not> keyWord k \<or> openQuote r"
      unfolding wfItem.simps t_def [symmetric] Let_def k_def [symmetric] using True by (simp add: drop_k)
    then show ?thesis
      using splitKeyValue_found [OF nk, of r] unquote_open [of r] hash tk by auto
  next
    case False
    then have "indexByte CHR ''='' t = None" by (simp add: indexByte_None)
    then show ?thesis by (simp add: splitKeyValue_def)
  qed
  then show ?thesis by (auto simp: osLine_def Let_def t_def)
qed

lemma osLine_item:
  "wfItem it \<Longrightarrow> osLine (itemLine it) (a, b, c) =
     (if assigns ''ID'' it then itemValue it else a,
      if assigns ''VERSION_ID'' it then itemValue it else b,
      if assigns ''PRETTY_NAME'' it then itemValue it else c)"
  by (cases it) (simp_all only: osLine_assign osLine_skip itemLine.simps assigns.simps itemValue.simps if_False)

lemma osLoop_items:
  "list_all wfItem its \<Longrightarrow> osLoop (map itemLine its) (a, b, c) =
     (case last_match (assigns ''ID'') itemValue its of None \<Rightarrow> a | Some v \<Rightarrow> v,
      case last_match (assigns ''VERSION_ID'') itemValue its of None \<Rightarrow> b | Some v \<Rightarrow> v,
      case last_match (assigns ''PRETTY_NAME'') itemValue its of None \<Rightarrow> c | Some v \<Rightarrow> v)"
  by (induction its arbitrary: a b c) (auto simp: osLine_item last_match_Cons split: option.split)

text \<open>
  Property C27: \<open>os-release\<close> files are read as the format means them. For any sequence of assignments with bare, single-quoted
  or double-quoted values (with any of the escapes the format has) and of lines that assign nothing, each with any white
  space around it, the parser returns for each of the three fields the meaning of its last assignment, and the empty string
  without one; it reports no error. The lines are shorter than the scanner's limit and hold no line breaks of their own.
\<close>

theorem os_release_roundtrip:
  assumes "list_all wfItem its" and "list_all plainLine (map itemLine its)"
  shows "parseOSRelease (textReader (unlines (map itemLine its))) =
    ((lastValue ''ID'' its, lastValue ''VERSION_ID'' its, lastValue ''PRETTY_NAME'' its), None)"
  using scanLines_unlines [OF assms(2)] scannerErr_textReader [OF assms(2)] osLoop_items [OF assms(1)]
  by (simp add: parseOSRelease_def textReader_def lastValue_def Let_def)

theorem os_release_roundtrip_witness:
  "fst (parseOSRelease (textReader (unlines
     [''# made by hand'', ''ID=debian'', ''VERSION_ID='' @ [sq] @ ''12'' @ [sq], ''9=junk'', '' ID=ubuntu '',
      ''PRETTY_NAME='' @ [dq, bslash, CHR ''$'', CHR ''a'', dq]]))) = (''ubuntu'', ''12'', ''$a'')"
proof -
  let ?its = "[Skip ''# made by hand'', Assign ''ID=debian'' ''ID'' (Bare ''debian''),
    Assign (''VERSION_ID='' @ [sq] @ ''12'' @ [sq]) ''VERSION_ID'' (Single ''12''), Skip ''9=junk'',
    Assign '' ID=ubuntu '' ''ID'' (Bare ''ubuntu''),
    Assign (''PRETTY_NAME='' @ [dq, bslash, CHR ''$'', CHR ''a'', dq]) ''PRETTY_NAME'' (Double [(True, CHR ''$''), (False, CHR ''a'')])]"
  have "list_all wfItem ?its" by code_simp
  moreover have "list_all plainLine (map itemLine ?its)" by code_simp
  ultimately have "parseOSRelease (textReader (unlines (map itemLine ?its))) =
    ((lastValue ''ID'' ?its, lastValue ''VERSION_ID'' ?its, lastValue ''PRETTY_NAME'' ?its), None)"
    by (rule os_release_roundtrip)
  then show ?thesis
    by (simp add: lastValue_def last_match_Cons)
qed

subsection \<open>Gathering\<close>

definition unameCmd :: "string \<Rightarrow> cmd" where
  "unameCmd flag = mkCmd ''uname'' [Trusted flag]"

context recording_runner
begin

lemma unameField_calls: "calls (snd (unameField run s (Trusted f))) = calls s @ [unameCmd f]"
  using records [of s "unameCmd f"]
  by (cases "run s (mkCmd ''uname'' [Trusted f])")
    (auto simp: unameField_def unameCmd_def split: option.splits if_splits)

lemma gatherUname_calls:
  "calls (snd (gatherUname run s host)) =
     (if snd (fst (unameField run s (Trusted ''-r''))) = None
      then calls s @ [unameCmd ''-r'', unameCmd ''-m''] else calls s @ [unameCmd ''-r''])"
proof -
  obtain k e s1 where u: "unameField run s (Trusted ''-r'') = ((k, e), s1)" by (metis prod.collapse)
  obtain a e2 s2 where v: "unameField run s1 (Trusted ''-m'') = ((a, e2), s2)" by (metis prod.collapse)
  from unameField_calls [of s "''-r''"] unameField_calls [of s1 "''-m''"] u v show ?thesis
    by (cases e; cases e2) (simp_all add: gatherUname_def)
qed

end

lemma unameField_ok:
  "unameField run s (Trusted f) = ((t, None), s') \<longleftrightarrow>
     (\<exists>r. run s (unameCmd f) = ((r, None), s') \<and> xExitCode r = 0 \<and> t = trimSpace (xStdout r))"
  by (auto simp: unameField_def unameCmd_def split: prod.splits option.splits if_splits)

lemma gatherUname_hostname [simp]: "hHostname (fst (fst (gatherUname run s host))) = hHostname host"
  by (simp add: gatherUname_def Let_def split: prod.split option.split)

lemma gatherUname_success:
  assumes "gatherUname run s host = ((h, None), s2)"
  shows "\<exists>r1 s1 r2. run s (unameCmd ''-r'') = ((r1, None), s1) \<and> xExitCode r1 = 0
    \<and> run s1 (unameCmd ''-m'') = ((r2, None), s2) \<and> xExitCode r2 = 0
    \<and> h = host\<lparr>hKernelRelease := trimSpace (xStdout r1), hArch := trimSpace (xStdout r2)\<rparr>"
proof -
  obtain k e s1 where u: "unameField run s (Trusted ''-r'') = ((k, e), s1)" by (metis prod.collapse)
  obtain a e2 s3 where v: "unameField run s1 (Trusted ''-m'') = ((a, e2), s3)" by (metis prod.collapse)
  from assms u v have "e = None" "e2 = None" "s3 = s2" "h = host\<lparr>hKernelRelease := k, hArch := a\<rparr>"
    by (auto simp: gatherUname_def Let_def split: option.splits)
  with u v show ?thesis by (auto simp: unameField_ok)
qed

lemma gather_cases:
  obtains (unreadable) e where "gather fs hostname run s =
      ((case hostname of Inl _ \<Rightarrow> zeroHost | Inr name \<Rightarrow> zeroHost\<lparr>hHostname := name\<rparr>, Some e), s)"
  | (uname) i v where "gather fs hostname run s = gatherUname run s
      ((case hostname of Inl _ \<Rightarrow> zeroHost | Inr name \<Rightarrow> zeroHost\<lparr>hHostname := name\<rparr>)\<lparr>hOSRelease := i, hOSVersion := v\<rparr>)"
proof -
  let ?h = "case hostname of Inl _ \<Rightarrow> zeroHost | Inr name \<Rightarrow> zeroHost\<lparr>hHostname := name\<rparr>"
  have "(\<exists>e. gather fs hostname run s = ((?h, Some e), s))
      \<or> (\<exists>i v. gather fs hostname run s = gatherUname run s (?h\<lparr>hOSRelease := i, hOSVersion := v\<rparr>))"
    by (auto simp: gather_def gatherWithRoot_def Let_def zeroHost_def split: prod.split option.split sum.split)
  with unreadable uname show thesis by blast
qed

text \<open>
  What a successful gathering certifies, and what a failed one keeps. Without an error
  the kernel release and the architecture are the trimmed outputs of \<open>uname -r\<close> and then
  \<open>uname -m\<close>, both run successfully with exit code 0; with or without one the host name is the one
  the system reported. The recording runner sees \<open>uname -r\<close> first, and nothing but these two calls.
\<close>

theorem gather_outcome:
  "hHostname (fst (fst (gather fs hostname run s))) = (case hostname of Inl e \<Rightarrow> [] | Inr n \<Rightarrow> n)
   \<and> (snd (fst (gather fs hostname run s)) = None \<longrightarrow>
       (\<exists>r1 s1 r2. run s (unameCmd ''-r'') = ((r1, None), s1) \<and> xExitCode r1 = 0
          \<and> run s1 (unameCmd ''-m'') = ((r2, None), snd (gather fs hostname run s)) \<and> xExitCode r2 = 0
          \<and> hKernelRelease (fst (fst (gather fs hostname run s))) = trimSpace (xStdout r1)
          \<and> hArch (fst (fst (gather fs hostname run s))) = trimSpace (xStdout r2)))
   \<and> frCalls (snd (gather fs hostname fakeRun f)) \<in>
       {frCalls f, frCalls f @ [unameCmd ''-r''], frCalls f @ [unameCmd ''-r'', unameCmd ''-m'']}"
proof -
  have name: "hHostname (fst (fst (gather fs hostname run s))) = (case hostname of Inl e \<Rightarrow> [] | Inr n \<Rightarrow> n)"
    by (rule gather_cases [of fs hostname run s]) (auto simp: zeroHost_def split: sum.split)
  have ok: "\<exists>r1 s1 r2. run s (unameCmd ''-r'') = ((r1, None), s1) \<and> xExitCode r1 = 0
      \<and> run s1 (unameCmd ''-m'') = ((r2, None), snd (gather fs hostname run s)) \<and> xExitCode r2 = 0
      \<and> hKernelRelease (fst (fst (gather fs hostname run s))) = trimSpace (xStdout r1)
      \<and> hArch (fst (fst (gather fs hostname run s))) = trimSpace (xStdout r2)"
    if none: "snd (fst (gather fs hostname run s)) = None"
  proof (rule gather_cases [of fs hostname run s])
    fix e assume "gather fs hostname run s =
      ((case hostname of Inl _ \<Rightarrow> zeroHost | Inr name \<Rightarrow> zeroHost\<lparr>hHostname := name\<rparr>, Some e), s)"
    with none show ?thesis by simp
  next
    fix i v assume g: "gather fs hostname run s = gatherUname run s
      ((case hostname of Inl _ \<Rightarrow> zeroHost | Inr name \<Rightarrow> zeroHost\<lparr>hHostname := name\<rparr>)\<lparr>hOSRelease := i, hOSVersion := v\<rparr>)"
    obtain h e s2 where out: "gather fs hostname run s = ((h, e), s2)" by (metis prod.collapse)
    with none have "e = None" by simp
    from gatherUname_success [OF out [unfolded g this]] out show ?thesis by auto
  qed
  have calls: "frCalls (snd (gather fs hostname fakeRun f)) \<in>
       {frCalls f, frCalls f @ [unameCmd ''-r''], frCalls f @ [unameCmd ''-r'', unameCmd ''-m'']}"
    by (rule gather_cases [of fs hostname fakeRun f]) (simp_all add: fake_runner.gatherUname_calls)
  from name ok calls show ?thesis by blast
qed

theorem gather_outcome_witness:
  "let run = (\<lambda>s c. ((zeroExecResult\<lparr>xStdout := ''6.1.0 ''\<rparr>, None), Suc s))
   in hKernelRelease (fst (fst (gather emptyFS (Inr ''h'') run 0))) = ''6.1.0''"
proof -
  define run :: "nat runner" where "run = (\<lambda>s c. ((zeroExecResult\<lparr>xStdout := ''6.1.0 ''\<rparr>, None), Suc s))"
  have "snd (fst (gather emptyFS (Inr ''h'') run 0)) = None"
    by (simp add: gather_def gatherWithRoot_def readOSReleaseFile_def emptyFS_def gatherUname_def unameField_def
        run_def zeroExecResult_def Let_def)
  with gather_outcome [of emptyFS "Inr ''h''" run 0] have
    "hKernelRelease (fst (fst (gather emptyFS (Inr ''h'') run 0))) = trimSpace ''6.1.0 ''"
    by (auto simp: run_def)
  moreover have "trimSpace ''6.1.0 '' = ''6.1.0''" by code_simp
  ultimately show ?thesis by (simp add: run_def)
qed

end
