(* ===== verification/MainProps.thy ===== *)
theory MainProps
  imports FlagsFacts
begin

text \<open>
  The program as it is invoked: \<open>main\<close> from its arguments and environment to its exit code.
\<close>

definition plainOptions :: "flagEnv \<Rightarrow> options" where
  "plainOptions fe = \<lparr>opFormat = autoDetectFormat fe, opOutput = stdoutSentinel, opModule = defaultModule,
     opConf = defaultConfPath, opOnly = [], opSkip = [], opTimeout = defaultPerCheckTimeout, opConcurrency = 0,
     opVerbosity = 0, opNoColor = False\<rparr>"

lemma parse_plain:
  assumes "\<And>name. feGetenv fe name = []"
  shows "parseFlags fe [] = Inr (plainOptions fe)"
proof -
  have "autoDetectFormat fe \<noteq> []" "knownFormat (autoDetectFormat fe)"
    by (auto simp: autoDetectFormat_def knownFormat_def split: sum.split)
  then show ?thesis
    using assms by (simp add: parseFlags_def readEnvDefaults_def Let_def parseFormat_known parseCSVFilter_def plainOptions_def)
qed

lemma main_plain:
  assumes "\<And>name. feGetenv fe name = []"
  shows "mainExits W re fe [] code \<longleftrightarrow> cliRun W re (plainOptions fe) code"
  using parse_plain [OF assms] by (auto simp: mainExits.simps mainFlags_def)

lemma plain_effective: "effModule (plainOptions fe) = ''algif_aead''"
    "effConf (plainOptions fe) = ''/etc/modprobe.d/disable-algif-aead.conf''"
  by (simp_all add: effModule_def effConf_def plainOptions_def defaultModule_def defaultConfPath_def)

text \<open>
  What \<open>copyfail-validate\<close> without arguments means. With none of its environment variables set, exit code 0
  certifies the mitigation of \<open>algif_aead\<close> on this host: the blocklist file under \<open>/etc/modprobe.d\<close> is a regular file that
  parses, installs \<open>/bin/false\<close> for the module and blacklists it, the dry run resolves to it, no later directive of the
  directory overrides it, and the module is not in \<open>/proc/modules\<close>. And on a host that satisfies the conditions, with a
  writable output and a processor, 0 is an exit code the program can end with.
\<close>

theorem plain_run_verdict:
  assumes "\<And>name. feGetenv fe name = []"
  shows "(mainExits W re fe [] 0 \<longrightarrow>
      (\<exists>e\<in>W. \<exists>info. fsStat (heFS e) ''/etc/modprobe.d/disable-algif-aead.conf'' = Inr info \<and> isRegular info)
      \<and> (\<exists>e\<in>W. \<exists>ds. parseConfFile (heFS e) ''/etc/modprobe.d/disable-algif-aead.conf'' = (ds, None)
            \<and> blocks ds ''algif_aead'' \<and> isBlacklisted ds ''algif_aead'')
      \<and> (\<exists>e\<in>W. \<exists>res s'. osRun (reOS re) (heWorld e) (dryRunCommand ''algif_aead'') = ((res, None), s')
            \<and> firstOutput (xStdout res) = Some ''install /bin/false'')
      \<and> (\<exists>e\<in>W. \<exists>ds. parseConfDir (heFS e) ''/etc/modprobe.d'' = (ds, None) \<and> blocks ds ''algif_aead'')
      \<and> (\<exists>e\<in>W. \<exists>f ms. fsOpen (heFS e) ''/proc/modules'' = Inr f \<and> parseProcModules f = (ms, None)
            \<and> ''algif_aead'' \<notin> lmName ` set ms))
    \<and> ((\<forall>e\<in>W. mitigatedEnv re (plainOptions fe) e) \<and> W \<noteq> {} \<and> 0 < reNumCPU re \<and> writable re (plainOptions fe) \<longrightarrow>
        mainExits W re fe [] 0)"
proof -
  have filters: "opOnly (plainOptions fe) = []" "opSkip (plainOptions fe) = []" "\<not> opNoColor (plainOptions fe)"
    by (simp_all add: plainOptions_def)
  have "certified W re (plainOptions fe)" if "mainExits W re fe [] 0"
    using that cli_zero_certified [OF _ filters(1,2)] main_plain [OF assms] by blast
  moreover have "mainExits W re fe [] 0"
    if "\<forall>e\<in>W. mitigatedEnv re (plainOptions fe) e" "W \<noteq> {}" "0 < reNumCPU re" "writable re (plainOptions fe)"
  proof -
    have "0 < effConcurrency (opConcurrency (plainOptions fe)) (reNumCPU re)"
      using that(3) by (simp add: effConcurrency_def plainOptions_def)
    from mitigated_exits_zero [OF that(1,2) this filters that(4)] show ?thesis
      using main_plain [OF assms] by blast
  qed
  ultimately show ?thesis unfolding certified_def plain_effective by blast
qed

theorem plain_run_verdict_witness: "mainExits {demoEnv} demoRunEnv demoFlagEnv [] 0"
proof -
  have env: "feGetenv demoFlagEnv name = []" for name by (simp add: demoFlagEnv_def)
  have eff: "effModule demoOptions = effModule (plainOptions demoFlagEnv)" "effConf demoOptions = effConf (plainOptions demoFlagEnv)"
    by (simp_all add: plainOptions_def effModule_def effConf_def demoOptions_def)
  have "\<forall>e\<in>{demoEnv}. mitigatedEnv demoRunEnv (plainOptions demoFlagEnv) e"
    using demo_mitigated by (simp only: mitigatedEnv_def eff)
  moreover have "writable demoRunEnv (plainOptions demoFlagEnv)"
    by (auto simp: writable_def demoRunEnv_def plainOptions_def autoDetectFormat_def demoFlagEnv_def openOutput_def
        stdoutSentinel_def writeTo_def knownFormat_def)
  moreover have "0 < reNumCPU demoRunEnv" by (simp add: demoRunEnv_def)
  ultimately show ?thesis using plain_run_verdict [OF env, THEN conjunct2] by blast
qed

end
