(* ===== verification/RenderHuman.thy ===== *)
theory RenderHuman
  imports Report
begin

text \<open>
  \<open>internal/render\<close>: the final flush every renderer goes through (\<open>render.go\<close>) and the human
  renderer (\<open>human.go\<close>).
\<close>

section \<open>render.go\<close>

text \<open>
  What a renderer asks of its writer and of the environment. \<open>weWrite\<close> is \<open>w.Write\<close>; \<open>weFile\<close> is \<^const>\<open>None\<close> for
  a writer that is no \<open>*os.File\<close>, and else what its \<open>Stat\<close> says: whether it is a character device.
\<close>

record 'w writeEnv =
  weWrite :: "'w \<Rightarrow> string \<Rightarrow> (int \<times> goerr option) \<times> 'w"
  weFile :: "'w \<Rightarrow> (goerr + bool) option"
  weGetenv :: "string \<Rightarrow> string"

definition flushAll :: "'w writeEnv \<Rightarrow> 'w \<Rightarrow> string \<Rightarrow> (int \<times> goerr option) \<times> 'w" where
  "flushAll env w b =
     (if length b = 0 then ((0, None), w)
      else case weWrite env w b of
        ((n, Some e), w') \<Rightarrow> ((n, Some (wrapErr2 [] (sentinelErr ErrRender) '': '' e [])), w')
      | ((n, None), w') \<Rightarrow>
          if n \<noteq> int (length b)
          then ((n, Some (wrapErr2 [] (sentinelErr ErrShortWrite) '': '' (sentinelErr IoErrShortWrite) [])), w')
          else ((n, None), w'))"

section \<open>human.go\<close>

definition envNoColor :: string where "envNoColor = ''NO_COLOR''"

abbreviation esc :: char where "esc \<equiv> CHR 0x1B"

definition ansiReset :: string where "ansiReset = esc # ''[0m''"
definition ansiBold :: string where "ansiBold = esc # ''[1m''"
definition ansiGreen :: string where "ansiGreen = esc # ''[32m''"
definition ansiRed :: string where "ansiRed = esc # ''[31m''"
definition ansiYellow :: string where "ansiYellow = esc # ''[33m''"
definition ansiCyan :: string where "ansiCyan = esc # ''[36m''"

definition statusLabel :: "State \<Rightarrow> string" where
  "statusLabel s =
     (if s = StatePass then ''OK   ''
      else if s = StateFail then ''FAIL ''
      else if s = StateSkip then ''SKIP ''
      else if s = StateError then ''ERROR''
      else ''?    '')"

definition statusColor :: "State \<Rightarrow> bool \<Rightarrow> string" where
  "statusColor s useColor =
     (if \<not> useColor then []
      else if s = StatePass then ansiGreen
      else if s = StateFail then ansiRed
      else if s = StateSkip then ansiYellow
      else if s = StateError then ansiRed @ ansiBold
      else ansiCyan)"

definition shouldColor :: "'w writeEnv \<Rightarrow> 'w \<Rightarrow> bool" where
  "shouldColor env w =
     (if weGetenv env envNoColor \<noteq> [] then False
      else case weFile env w of
        None \<Rightarrow> False
      | Some (Inl _) \<Rightarrow> False
      | Some (Inr charDevice) \<Rightarrow> charDevice)"

definition writeResultLine :: "result \<Rightarrow> bool \<Rightarrow> string" where
  "writeResultLine r useColor =
     (let color = statusColor (rState r) useColor;
          reset = (if color \<noteq> [] then ansiReset else []);
          detail = (if rState r = StateError \<and> rErr r \<noteq> [] then rErr r else rDetail r)
      in color @ statusLabel (rState r) @ reset @ ''  '' @ rCheckID r @ '' ('' @ rSeverity r @ '')''
         @ (if detail \<noteq> [] then '': '' @ detail else []) @ [CHR 0x0A])"

definition writeFooter :: "report \<Rightarrow> bool \<Rightarrow> string" where
  "writeFooter rep useColor =
     (let s = repSummary rep;
          pass = (bFail (sRequired s) = 0 \<and> bError (sRequired s) = 0);
          verdict = (if \<not> pass then ''FAIL'' else ''PASS'');
          color = (if useColor then if pass then ansiGreen @ ansiBold else ansiRed @ ansiBold else []);
          reset = (if color \<noteq> [] then ansiReset else [])
      in ''validator result: '' @ color @ verdict @ reset @ [CHR 0x0A]
         @ ''total: '' @ showNat (sTotal s) @ '' pass='' @ showNat (sPass s) @ '' fail='' @ showNat (sFail s)
         @ '' skip='' @ showNat (sSkip s) @ '' error='' @ showNat (sError s)
         @ '' (required: pass='' @ showNat (bPass (sRequired s)) @ '' fail='' @ showNat (bFail (sRequired s))
         @ '' error='' @ showNat (bError (sRequired s)) @ '')'' @ [CHR 0x0A])"

definition humanText :: "report \<Rightarrow> bool \<Rightarrow> string" where
  "humanText rep useColor =
     concat (map (\<lambda>r. writeResultLine r useColor) (repResults rep)) @ writeFooter rep useColor"

definition renderHuman :: "'w writeEnv \<Rightarrow> 'w renderer" where
  "renderHuman env w rep = flushAll env w (humanText rep (shouldColor env w))"

end
