(* ===== verification/Utf8.thy ===== *)
theory Utf8
  imports GoStringFacts
begin

text \<open>
  Runes and well-formed text: what \<open>range\<close> over a string yields, what is left when it is written back rune by
  rune, and the encoding of a code point. The renderers and the JSON codec share these facts.
\<close>

text \<open>A string with the bytes that belong to no rune replaced, as \<open>range\<close> and \<open>WriteRune\<close> do\<close>

definition runeText :: "char + string \<Rightarrow> string" where
  "runeText r = (case r of Inl _ \<Rightarrow> replacementRune | Inr cs \<Rightarrow> cs)"

definition toValidUTF8 :: "string \<Rightarrow> string" where
  "toValidUTF8 s = concat (map runeText (runes s))"

definition validUTF8 :: "string \<Rightarrow> bool" where
  "validUTF8 s \<longleftrightarrow> list_all (\<lambda>r. \<exists>cs. r = Inr cs) (runes s)"

text \<open>\<open>utf8.AppendRune\<close> of a code point\<close>

definition encodeRune :: "nat \<Rightarrow> string" where
  "encodeRune n =
     (if n < 0x80 then [char_of n]
      else if n < 0x800 then [char_of (0xC0 + n div 64), char_of (0x80 + n mod 64)]
      else if 0x10FFFF < n \<or> 0xD800 \<le> n \<and> n \<le> 0xDFFF then replacementRune
      else if n < 0x10000 then
        [char_of (0xE0 + n div 4096), char_of (0x80 + n div 64 mod 64), char_of (0x80 + n mod 64)]
      else
        [char_of (0xF0 + n div 262144), char_of (0x80 + n div 4096 mod 64),
         char_of (0x80 + n div 64 mod 64), char_of (0x80 + n mod 64)])"

section \<open>The shape of a rune\<close>

definition highBytes :: "string \<Rightarrow> bool" where
  "highBytes cs \<longleftrightarrow> list_all (\<lambda>c. 0x80 \<le> byte c) cs"

text \<open>The bytes of one rune: a string that is decoded whole, whatever follows it\<close>

definition runeBytes :: "string \<Rightarrow> bool" where
  "runeBytes cs \<longleftrightarrow> cs \<noteq> [] \<and> runeLen cs = length cs"

definition goodRune :: "char + string \<Rightarrow> bool" where
  "goodRune r \<longleftrightarrow> (case r of Inl _ \<Rightarrow> True | Inr cs \<Rightarrow> runeBytes cs)"

lemma secondOK_high: "secondOK c d \<Longrightarrow> 0x80 \<le> byte d"
  by (auto simp: secondOK_def byteIn_def contByte_def split: if_splits)

lemma lead_bytes:
  "byteIn 0xC2 0xDF c \<Longrightarrow> \<not> byte c < 0x80"
  "byteIn 0xE0 0xEF c \<Longrightarrow> \<not> byte c < 0x80 \<and> \<not> byteIn 0xC2 0xDF c"
  "byteIn 0xF0 0xF4 c \<Longrightarrow> \<not> byte c < 0x80 \<and> \<not> byteIn 0xC2 0xDF c \<and> \<not> byteIn 0xE0 0xEF c"
  by (auto simp: byteIn_def)

lemma runeLen_intros:
  "byte c < 0x80 \<Longrightarrow> runeLen (c # r) = 1"
  "byteIn 0xC2 0xDF c \<Longrightarrow> contByte d \<Longrightarrow> runeLen (c # d # r) = 2"
  "byteIn 0xE0 0xEF c \<Longrightarrow> secondOK c d \<Longrightarrow> contByte e \<Longrightarrow> runeLen (c # d # e # r) = 3"
  "byteIn 0xF0 0xF4 c \<Longrightarrow> secondOK c d \<Longrightarrow> contByte e \<Longrightarrow> contByte f \<Longrightarrow> runeLen (c # d # e # f # r) = 4"
  using lead_bytes [of c] by (simp_all add: runeLen_def)

lemma runeLen_cases:
  assumes "runeLen s \<noteq> 0"
  obtains (one) c r where "s = c # r" "byte c < 0x80"
  | (two) c d r where "s = c # d # r" "byteIn 0xC2 0xDF c" "contByte d"
  | (three) c d e r where "s = c # d # e # r" "byteIn 0xE0 0xEF c" "secondOK c d" "contByte e"
  | (four) c d e f r where "s = c # d # e # f # r" "byteIn 0xF0 0xF4 c" "secondOK c d" "contByte e" "contByte f"
  using assms by (simp add: runeLen_def split: list.splits if_splits)

lemma runeLen_le: "runeLen s \<le> length s"
proof (cases "runeLen s = 0")
  case False
  then show ?thesis by (rule runeLen_cases) (simp_all add: runeLen_intros)
qed simp

lemma runeLen_take: "runeLen s \<noteq> 0 \<Longrightarrow> runeLen (take (runeLen s) s @ t) = runeLen s"
  by (erule runeLen_cases) (simp_all add: runeLen_intros)

lemma runeBytes_take: "runeLen s \<noteq> 0 \<Longrightarrow> runeBytes (take (runeLen s) s)"
  using runeLen_take [of s "[]"] runeLen_le [of s] by (auto simp: runeBytes_def)

lemma runeBytes_append: "runeBytes cs \<Longrightarrow> runeLen (cs @ t) = length cs"
  using runeLen_take [of cs t] by (auto simp: runeBytes_def)

lemma byteIn_high: "byteIn n m c \<Longrightarrow> 0x80 \<le> n \<Longrightarrow> 0x80 \<le> byte c" "contByte c \<Longrightarrow> 0x80 \<le> byte c"
  by (auto simp: byteIn_def contByte_def)

lemma runeBytes_high: "runeBytes cs \<Longrightarrow> (\<exists>c. cs = [c] \<and> byte c < 0x80) \<or> 2 \<le> length cs \<and> highBytes cs"
proof -
  assume b: "runeBytes cs"
  then have "runeLen cs \<noteq> 0" by (simp add: runeBytes_def)
  then show ?thesis
    by (rule runeLen_cases)
      (use b in \<open>auto simp: runeBytes_def highBytes_def runeLen_intros dest: byteIn_high secondOK_high\<close>)
qed

lemma runeBytes_replacement: "runeBytes replacementRune"
  by code_simp

lemma runes_good: "\<forall>r\<in>set (runes s). goodRune r"
proof (induction s rule: runes.induct)
  case (2 c s)
  then show ?case using runeBytes_take [of "c # s"] by (auto simp: runes.simps(2) goodRune_def)
qed simp

lemma runes_rune: "runeBytes cs \<Longrightarrow> runes (cs @ s) = Inr cs # runes s"
  using runeBytes_append [of cs s] by (cases cs) (auto simp: runes.simps(2) runeBytes_def)

lemma runes_concat: "\<forall>cs\<in>set css. runeBytes cs \<Longrightarrow> runes (concat css) = map Inr css"
  by (induction css) (auto simp: runes_rune)

lemma runeText_good: "goodRune r \<Longrightarrow> runeBytes (runeText r)"
  using runeBytes_replacement by (auto simp: goodRune_def runeText_def split: sum.splits)

lemma runes_toValid: "runes (toValidUTF8 s) = map (\<lambda>r. Inr (runeText r)) (runes s)"
  using runes_concat [of "map runeText (runes s)"] runes_good [of s] runeText_good
  by (simp add: toValidUTF8_def)

lemma validUTF8_toValid [simp]: "validUTF8 (toValidUTF8 s)"
  by (simp add: validUTF8_def runes_toValid list_all_iff)

lemma toValidUTF8_valid: "validUTF8 s \<Longrightarrow> toValidUTF8 s = s"
proof (induction s rule: runes.induct)
  case (2 c s)
  then have n: "runeLen (c # s) \<noteq> 0"
    by (cases "runeLen (c # s) = 0") (auto simp: validUTF8_def runes.simps(2))
  with 2 have "toValidUTF8 (drop (runeLen (c # s)) (c # s)) = drop (runeLen (c # s)) (c # s)"
    by (auto simp: validUTF8_def runes.simps(2))
  with n show ?case by (simp add: toValidUTF8_def runes.simps(2) runeText_def append_take_drop_id)
qed (simp add: toValidUTF8_def)

lemma toValidUTF8_idem [simp]: "toValidUTF8 (toValidUTF8 s) = toValidUTF8 s"
  by (simp add: toValidUTF8_valid)

end
