(* ===== verification/Json.thy ===== *)
theory Json
  imports Utf8
begin

text \<open>
  JSON as Go's \<open>encoding/json\<close> writes and reads it, as far as the program uses it: \<open>json.Marshal\<close> with its
  HTML-safe strings, \<open>json.Indent\<close>, and \<open>Decoder.Decode\<close> with \<open>UseNumber\<close>. Numbers are kept as their text, as
  \<open>json.Number\<close> does. The decoder follows the scanner of the package: a state, a stack of open arrays and objects,
  and one token at a time, so it never looks past the end of the value.
\<close>

datatype json =
    JNull
  | JBool bool
  | JNumber string
  | JString string
  | JArray "json list"
  | JObject "(string \<times> json) list"

section \<open>Marshal\<close>

text \<open>The bytes of \<open>htmlSafeSet\<close>\<close>

definition htmlSafe :: "char \<Rightarrow> bool" where
  "htmlSafe c \<longleftrightarrow> 0x20 \<le> byte c \<and> byte c < 0x80 \<and> c \<noteq> CHR 0x22 \<and> c \<noteq> CHR 0x5C
     \<and> c \<noteq> CHR ''<'' \<and> c \<noteq> CHR ''>'' \<and> c \<noteq> CHR ''&''"

definition escapeByte :: "char \<Rightarrow> string" where
  "escapeByte c =
     (if c = CHR 0x5C \<or> c = CHR 0x22 then [CHR 0x5C, c]
      else if c = CHR 0x08 then [CHR 0x5C, CHR ''b'']
      else if c = CHR 0x0C then [CHR 0x5C, CHR ''f'']
      else if c = CHR 0x0A then [CHR 0x5C, CHR ''n'']
      else if c = CHR 0x0D then [CHR 0x5C, CHR ''r'']
      else if c = CHR 0x09 then [CHR 0x5C, CHR ''t'']
      else CHR 0x5C # ''u00'' @ hexByte c)"

text \<open>One rune of a string; U+2028 and U+2029 are escaped for JSONP\<close>

definition jsonRune :: "char + string \<Rightarrow> string" where
  "jsonRune r = (case r of
       Inl _ \<Rightarrow> CHR 0x5C # ''ufffd''
     | Inr cs \<Rightarrow>
         if length cs = 1 then (if htmlSafe (hd cs) then cs else escapeByte (hd cs))
         else if cs = [CHR 0xE2, CHR 0x80, CHR 0xA8] then CHR 0x5C # ''u2028''
         else if cs = [CHR 0xE2, CHR 0x80, CHR 0xA9] then CHR 0x5C # ''u2029''
         else cs)"

definition jsonString :: "string \<Rightarrow> string" where
  "jsonString s = [CHR 0x22] @ concat (map jsonRune (runes s)) @ [CHR 0x22]"

fun marshal :: "json \<Rightarrow> string" where
  "marshal JNull = ''null''"
| "marshal (JBool b) = (if b then ''true'' else ''false'')"
| "marshal (JNumber n) = n"
| "marshal (JString s) = jsonString s"
| "marshal (JArray vs) = ''['' @ join '','' (map marshal vs) @ '']''"
| "marshal (JObject ms) =
     ''{'' @ join '','' (map (\<lambda>(k, v). jsonString k @ '':'' @ marshal v) ms) @ ''}''"

section \<open>Indent\<close>

text \<open>
  \<open>json.Indent(dst, src, "", "  ")\<close> on a well-formed document: the flags say whether the byte is inside a string
  and follows a backslash there, and whether a bracket is still waiting for its first element.
\<close>

definition jsonSpace :: "char \<Rightarrow> bool" where
  "jsonSpace c \<longleftrightarrow> c = CHR 0x20 \<or> c = CHR 0x09 \<or> c = CHR 0x0D \<or> c = CHR 0x0A"

definition indentNewline :: "nat \<Rightarrow> string" where
  "indentNewline depth = CHR 0x0A # replicate (2 * depth) CHR 0x20"

fun indentLoop :: "bool \<Rightarrow> bool \<Rightarrow> bool \<Rightarrow> nat \<Rightarrow> string \<Rightarrow> string" where
  "indentLoop inStr escd need depth [] = []"
| "indentLoop inStr escd need depth (c # s) =
     (if inStr then
        c # indentLoop (escd \<or> c \<noteq> CHR 0x22) (\<not> escd \<and> c = CHR 0x5C) False depth s
      else if jsonSpace c then indentLoop False False need depth s
      else if c = CHR ''}'' \<or> c = CHR '']'' then
        (if need then c # indentLoop False False False depth s
         else indentNewline (depth - 1) @ c # indentLoop False False False (depth - 1) s)
      else
        let d = (if need then Suc depth else depth) in
        (if need then indentNewline d else []) @
        (if c = CHR ''{'' \<or> c = CHR ''['' then c # indentLoop False False True d s
         else if c = CHR '','' then c # indentNewline d @ indentLoop False False False d s
         else if c = CHR '':'' then c # CHR 0x20 # indentLoop False False False d s
         else c # indentLoop (c = CHR 0x22) False False d s))"

definition jsonIndent :: "string \<Rightarrow> string" where
  "jsonIndent src = indentLoop False False False 0 src"

section \<open>Tokens\<close>

datatype token = TPunct char | TLit json | TNum string | TStr string

fun digits :: "string \<Rightarrow> string \<times> string" where
  "digits s = (takeWhile isDigit s, dropWhile isDigit s)"

text \<open>The longest number at the start of a text, as the number states of the scanner accept it\<close>

definition lexInt :: "string \<Rightarrow> (string \<times> string) option" where
  "lexInt s = (case s of
       [] \<Rightarrow> None
     | c # r \<Rightarrow> if c = CHR ''0'' then Some ([c], r) else if isDigit c then Some (digits s) else None)"

definition lexFrac :: "string \<Rightarrow> (string \<times> string) option" where
  "lexFrac s = (case s of
       [] \<Rightarrow> Some ([], [])
     | c # r \<Rightarrow>
         if c \<noteq> CHR ''.'' then Some ([], s)
         else case digits r of (ds, r') \<Rightarrow> if ds = [] then None else Some (c # ds, r'))"

definition lexExp :: "string \<Rightarrow> (string \<times> string) option" where
  "lexExp s = (case s of
       [] \<Rightarrow> Some ([], [])
     | c # r \<Rightarrow>
         if c \<noteq> CHR ''e'' \<and> c \<noteq> CHR ''E'' then Some ([], s)
         else
           let sign = (if r \<noteq> [] \<and> (hd r = CHR ''+'' \<or> hd r = CHR ''-'') then [hd r] else []) in
           case digits (drop (length sign) r) of (ds, r') \<Rightarrow>
             if ds = [] then None else Some (c # sign @ ds, r'))"

definition lexNumber :: "string \<Rightarrow> (string \<times> string) option" where
  "lexNumber s =
     (let sign = (if s \<noteq> [] \<and> hd s = CHR ''-'' then [hd s] else []) in
      case lexInt (drop (length sign) s) of None \<Rightarrow> None
      | Some (i, s1) \<Rightarrow>
          (case lexFrac s1 of None \<Rightarrow> None
           | Some (f, s2) \<Rightarrow>
               (case lexExp s2 of None \<Rightarrow> None
                | Some (e, s3) \<Rightarrow> Some (sign @ i @ f @ e, s3))))"

text \<open>Strings: \<open>\u\<close> escapes with their surrogate pairs, the other escapes, and coercion to well-formed UTF-8\<close>

definition hexVal :: "char \<Rightarrow> nat option" where
  "hexVal c =
     (if isDigit c then Some (byte c - 48)
      else if byteIn 97 102 c then Some (byte c - 87)
      else if byteIn 65 70 c then Some (byte c - 55)
      else None)"

definition hex4 :: "string \<Rightarrow> (nat \<times> string) option" where
  "hex4 s = (case s of
       a # b # c # d # r \<Rightarrow>
         (case (hexVal a, hexVal b, hexVal c, hexVal d) of
            (Some w, Some x, Some y, Some z) \<Rightarrow> Some (4096 * w + 256 * x + 16 * y + z, r)
          | _ \<Rightarrow> None)
     | _ \<Rightarrow> None)"

definition isSurrogate :: "nat \<Rightarrow> bool" where
  "isSurrogate n \<longleftrightarrow> 0xD800 \<le> n \<and> n \<le> 0xDFFF"

definition lowSurrogate :: "string \<Rightarrow> (nat \<times> string) option" where
  "lowSurrogate s = (case s of
       a # b # r \<Rightarrow> if a = CHR 0x5C \<and> b = CHR ''u'' then hex4 r else None
     | _ \<Rightarrow> None)"

text \<open>After \<open>\u\<close>\<close>

definition unicodeEscape :: "string \<Rightarrow> (string \<times> string) option" where
  "unicodeEscape s = (case hex4 s of None \<Rightarrow> None
     | Some (n, r) \<Rightarrow>
         if \<not> isSurrogate n then Some (encodeRune n, r)
         else case lowSurrogate r of
           None \<Rightarrow> Some (replacementRune, r)
         | Some (m, r') \<Rightarrow>
             if n < 0xDC00 \<and> 0xDC00 \<le> m \<and> m \<le> 0xDFFF
             then Some (encodeRune ((n - 0xD800) * 1024 + (m - 0xDC00) + 0x10000), r')
             else Some (replacementRune, r))"

text \<open>After the backslash\<close>

definition escapeSeq :: "string \<Rightarrow> (string \<times> string) option" where
  "escapeSeq s = (case s of
       [] \<Rightarrow> None
     | c # r \<Rightarrow>
         if c = CHR 0x22 \<or> c = CHR 0x5C \<or> c = CHR ''/'' then Some ([c], r)
         else if c = CHR ''b'' then Some ([CHR 0x08], r)
         else if c = CHR ''f'' then Some ([CHR 0x0C], r)
         else if c = CHR ''n'' then Some ([CHR 0x0A], r)
         else if c = CHR ''r'' then Some ([CHR 0x0D], r)
         else if c = CHR ''t'' then Some ([CHR 0x09], r)
         else if c = CHR ''u'' then unicodeEscape r
         else None)"

lemma hex4_length: "hex4 s = Some (n, r) \<Longrightarrow> length r < length s"
  by (auto simp: hex4_def split: list.splits option.splits)

lemma lowSurrogate_length: "lowSurrogate s = Some (n, r) \<Longrightarrow> length r < length s"
  by (auto simp: lowSurrogate_def dest: hex4_length split: list.splits if_splits)

lemma unicodeEscape_length: "unicodeEscape s = Some (out, r) \<Longrightarrow> length r < length s"
  by (auto simp: unicodeEscape_def dest!: hex4_length lowSurrogate_length split: option.splits if_splits)

lemma escapeSeq_length: "escapeSeq s = Some (out, r) \<Longrightarrow> length r < length s"
  by (auto simp: escapeSeq_def dest: unicodeEscape_length split: list.splits if_splits)

function strBody :: "string \<Rightarrow> (string \<times> string) option" where
  "strBody [] = None"
| "strBody (c # s) =
     (if c = CHR 0x22 then Some ([], s)
      else if c = CHR 0x5C then
        (case escapeSeq s of None \<Rightarrow> None
         | Some (out, r) \<Rightarrow> map_option (\<lambda>(v, q). (out @ v, q)) (strBody r))
      else if byte c < 0x20 then None
      else if runeLen (c # s) = 0 then map_option (\<lambda>(v, q). (replacementRune @ v, q)) (strBody s)
      else map_option (\<lambda>(v, q). (take (runeLen (c # s)) (c # s) @ v, q)) (strBody (drop (runeLen (c # s)) (c # s))))"
  by pat_completeness auto
termination
  by (relation "measure length") (auto dest: escapeSeq_length)

declare strBody.simps(2) [simp del]

text \<open>The next token and what follows it; a word is one of the three literals\<close>

definition lexWord :: "string \<Rightarrow> (token \<times> string) option" where
  "lexWord s =
     (if prefix ''null'' s then Some (TLit JNull, drop 4 s)
      else if prefix ''true'' s then Some (TLit (JBool True), drop 4 s)
      else if prefix ''false'' s then Some (TLit (JBool False), drop 5 s)
      else None)"

definition isPunct :: "char \<Rightarrow> bool" where
  "isPunct c \<longleftrightarrow> c \<in> set ''{}[],:''"

definition nextToken :: "string \<Rightarrow> (token \<times> string) option" where
  "nextToken t = (case dropWhile jsonSpace t of
       [] \<Rightarrow> None
     | c # s \<Rightarrow>
         if isPunct c then Some (TPunct c, s)
         else if c = CHR 0x22 then map_option (\<lambda>(v, q). (TStr v, q)) (strBody s)
         else if c = CHR ''-'' \<or> isDigit c then map_option (\<lambda>(n, q). (TNum n, q)) (lexNumber (c # s))
         else lexWord (c # s))"

section \<open>Decode\<close>

text \<open>
  The open arrays and objects, innermost first, with what they hold so far: the values of an array in reverse,
  the members of an object and the key whose value is being read.
\<close>

datatype frame = FArray "json list" | FObject "(string \<times> json) list" string

text \<open>
  The states of the scanner: a value (or, just after an opening bracket, its end), a key (or the end of the object),
  the colon after a key, the comma or the end after an element. \<open>MKey\<close> carries the members so far.
\<close>

datatype smode = MValue bool | MKey "(string \<times> json) list" bool | MColon | MAfter

datatype status = Running smode "frame list" | Finished json | Failed

text \<open>\<open>m[key] = v\<close> on a map kept as an association list\<close>

fun mapSet :: "string \<Rightarrow> json \<Rightarrow> (string \<times> json) list \<Rightarrow> (string \<times> json) list" where
  "mapSet k v [] = [(k, v)]"
| "mapSet k v ((k', v') # ms) = (if k' = k then (k, v) # ms else (k', v') # mapSet k v ms)"

definition maxNestingDepth :: int where
  "maxNestingDepth = 10000"

text \<open>A value is complete: the document is, or the innermost open array or object takes it\<close>

definition finishValue :: "json \<Rightarrow> frame list \<Rightarrow> status" where
  "finishValue v st = (case st of
       [] \<Rightarrow> Finished v
     | FArray vs # st' \<Rightarrow> Running MAfter (FArray (v # vs) # st')
     | FObject ms k # st' \<Rightarrow> Running MAfter (FObject (mapSet k v ms) k # st'))"

text \<open>
  While the keys of an object are read its frame is on the stack too, so that the stack is as deep as the
  scanner's; \<open>push\<close> is \<open>pushParseState\<close>, which limits that depth.
\<close>

definition push :: "smode \<Rightarrow> frame \<Rightarrow> frame list \<Rightarrow> status" where
  "push m f st = (if int (length st) + 1 \<le> maxNestingDepth then Running m (f # st) else Failed)"

definition stepToken :: "smode \<Rightarrow> frame list \<Rightarrow> token \<Rightarrow> status" where
  "stepToken m st t = (case m of
       MValue atStart \<Rightarrow>
         (case t of
            TLit v \<Rightarrow> finishValue v st
          | TNum n \<Rightarrow> finishValue (JNumber n) st
          | TStr s \<Rightarrow> finishValue (JString s) st
          | TPunct c \<Rightarrow>
              if c = CHR ''['' then push (MValue True) (FArray []) st
              else if c = CHR ''{'' then push (MKey [] True) (FObject [] []) st
              else if c = CHR '']'' \<and> atStart then finishValue (JArray []) (tl st)
              else Failed)
     | MKey ms atStart \<Rightarrow>
         (case t of
            TStr k \<Rightarrow> Running MColon (FObject ms k # tl st)
          | TPunct c \<Rightarrow> if c = CHR ''}'' \<and> atStart then finishValue (JObject []) (tl st) else Failed
          | _ \<Rightarrow> Failed)
     | MColon \<Rightarrow> (if t = TPunct CHR '':'' then Running (MValue False) st else Failed)
     | MAfter \<Rightarrow>
         (case st of
            FArray vs # st' \<Rightarrow>
              if t = TPunct CHR '','' then Running (MValue False) st
              else if t = TPunct CHR '']'' then finishValue (JArray (rev vs)) st'
              else Failed
          | FObject ms k # st' \<Rightarrow>
              if t = TPunct CHR '','' then Running (MKey ms False) st
              else if t = TPunct CHR ''}'' then finishValue (JObject ms) st'
              else Failed
          | [] \<Rightarrow> Failed))"

subsection \<open>Every token consumes something\<close>

lemma lexInt_length: "lexInt s = Some (i, r) \<Longrightarrow> length r < length s"
  by (auto simp: lexInt_def less_Suc_eq_le length_dropWhile_le split: list.splits if_splits)

lemma lexFrac_length: "lexFrac s = Some (f, r) \<Longrightarrow> length r \<le> length s"
  by (auto simp: lexFrac_def le_SucI length_dropWhile_le split: list.splits if_splits)

lemma lexExp_length: "lexExp s = Some (e, r) \<Longrightarrow> length r \<le> length s"
proof -
  have d: "length (dropWhile isDigit (drop n q)) \<le> Suc (length q)" for n q
    using length_dropWhile_le [of isDigit "drop n q"] by simp
  show "lexExp s = Some (e, r) \<Longrightarrow> ?thesis"
    using d [of 0] d [of 1] by (auto simp: lexExp_def Let_def split: list.splits if_splits)
qed

lemma lexNumber_length: "lexNumber s = Some (n, r) \<Longrightarrow> length r < length s"
proof -
  assume "lexNumber s = Some (n, r)"
  then obtain k i s1 f s2 e where "lexInt (drop k s) = Some (i, s1)" "lexFrac s1 = Some (f, s2)"
    "lexExp s2 = Some (e, r)"
    by (auto simp: lexNumber_def Let_def split: option.splits)
  then have "length s1 < length (drop k s)" "length s2 \<le> length s1" "length r \<le> length s2"
    by (auto dest: lexInt_length lexFrac_length lexExp_length)
  then show ?thesis by simp
qed

lemma strBody_length: "strBody s = Some (v, r) \<Longrightarrow> length r < length s"
proof (induction s arbitrary: v r rule: strBody.induct)
  case (2 c s)
  then show ?case
    by (fastforce simp: strBody.simps(2) split: if_splits option.splits dest: escapeSeq_length)
qed simp

lemma lexWord_length: "lexWord s = Some (t, r) \<Longrightarrow> length r < length s"
  by (auto simp: lexWord_def prefix_def split: if_splits)

lemma nextToken_length: "nextToken t = Some (tok, r) \<Longrightarrow> length r < length t"
proof -
  assume a: "nextToken t = Some (tok, r)"
  then obtain c s where s: "dropWhile jsonSpace t = c # s" by (cases "dropWhile jsonSpace t") (auto simp: nextToken_def)
  have le: "length (c # s) \<le> length t" using length_dropWhile_le [of jsonSpace t] s by simp
  consider "r = s" | v where "strBody s = Some (v, r)" | n where "lexNumber (c # s) = Some (n, r)"
    | "lexWord (c # s) = Some (tok, r)"
    using a by (auto simp: nextToken_def s split: if_splits simp del: dropWhile_eq_Cons_conv)
  then have "length r < length (c # s)"
    by cases (auto dest: strBody_length lexNumber_length lexWord_length)
  with le show ?thesis by simp
qed

text \<open>
  \<open>Decoder.Decode\<close>: the value at the start of the text, whatever follows it; \<^const>\<open>None\<close> for a syntax error or
  the end of the input.
\<close>

function scanTokens :: "smode \<Rightarrow> frame list \<Rightarrow> string \<Rightarrow> json option" where
  "scanTokens m st s =
     (case nextToken s of
        None \<Rightarrow> None
      | Some (t, r) \<Rightarrow>
          (case stepToken m st t of
             Failed \<Rightarrow> None
           | Finished v \<Rightarrow> Some v
           | Running m' st' \<Rightarrow> scanTokens m' st' r))"
  by pat_completeness auto
termination
  by (relation "measure (\<lambda>(m, st, s). length s)") (auto dest: nextToken_length)

declare scanTokens.simps [simp del]

definition decode :: "string \<Rightarrow> json option" where
  "decode s = scanTokens (MValue False) [] s"

end
