(* ===== verification/JsonFacts.thy ===== *)
theory JsonFacts
  imports Json
begin

text \<open>
  The JSON codec of \<open>Json\<close> is consistent: strings and numbers are read back as they are written, and any layout
  of a value with arbitrary white space, in particular what \<open>json.Marshal\<close> and \<open>json.Indent\<close> produce, decodes to that
  value.
\<close>

section \<open>Strings\<close>

lemma hexVal_hexDigit: "d < 16 \<Longrightarrow> hexVal (hexDigit d) = Some d"
  by (auto simp: hexVal_def hexDigit_def isDigit_def byteIn_def)

lemma hexVal_zero: "hexVal CHR ''0'' = Some 0"
  by code_simp

lemma hex4_byte: "byte c < 256 \<Longrightarrow> hex4 (''00'' @ hexByte c @ s) = Some (byte c, s)"
proof -
  have "byte c div 16 < 16" "byte c mod 16 < 16" by (simp_all add: div_less_iff_less_mult)
  then show ?thesis by (simp add: hex4_def hexByte_def hexVal_zero hexVal_hexDigit)
qed

lemma encodeRune_ascii: "byte c < 0x80 \<Longrightarrow> encodeRune (byte c) = [c]"
  by (simp add: encodeRune_def)

lemma escape_control: "byte c < 0x80 \<Longrightarrow> escapeSeq (''u00'' @ hexByte c @ s) = Some ([c], s)"
  using hex4_byte [of c s] by (simp add: escapeSeq_def unicodeEscape_def isSurrogate_def encodeRune_ascii)

lemma escape_fixed:
  "escapeSeq (''ufffd'' @ s) = Some (replacementRune, s)"
  "escapeSeq (''u2028'' @ s) = Some ([CHR 0xE2, CHR 0x80, CHR 0xA8], s)"
  "escapeSeq (''u2029'' @ s) = Some ([CHR 0xE2, CHR 0x80, CHR 0xA9], s)"
proof -
  have h: "hexVal CHR ''f'' = Some 15" "hexVal CHR ''d'' = Some 13" "hexVal CHR ''2'' = Some 2" "hexVal CHR ''8'' = Some 8"
    "hexVal CHR ''9'' = Some 9" by code_simp+
  have "encodeRune 65533 = replacementRune" "encodeRune 8232 = [CHR 0xE2, CHR 0x80, CHR 0xA8]"
    "encodeRune 8233 = [CHR 0xE2, CHR 0x80, CHR 0xA9]"
    by (simp_all add: encodeRune_def replacementRune_def char_of_eq_iff)
  then show "escapeSeq (''ufffd'' @ s) = Some (replacementRune, s)"
    "escapeSeq (''u2028'' @ s) = Some ([CHR 0xE2, CHR 0x80, CHR 0xA8], s)"
    "escapeSeq (''u2029'' @ s) = Some ([CHR 0xE2, CHR 0x80, CHR 0xA9], s)"
    by (simp_all add: escapeSeq_def unicodeEscape_def hex4_def h hexVal_zero isSurrogate_def)
qed

lemma strBody_escape:
  "escapeSeq e = Some (out, s) \<Longrightarrow> strBody (CHR 0x5C # e) = map_option (\<lambda>(v, q). (out @ v, q)) (strBody s)"
  by (simp add: strBody.simps(2))

lemma escapeByte_read:
  assumes "byte c < 0x80"
  shows "strBody (escapeByte c @ s) = map_option (\<lambda>(v, q). (c # v, q)) (strBody s)"
proof -
  consider "c = CHR 0x5C \<or> c = CHR 0x22" | "c = CHR 0x08" | "c = CHR 0x0C" | "c = CHR 0x0A" | "c = CHR 0x0D" | "c = CHR 0x09"
    | "escapeByte c = CHR 0x5C # ''u00'' @ hexByte c"
    using escapeByte_def [of c] by meson
  then show ?thesis
  proof cases
    case 7
    with strBody_escape [OF escape_control [OF assms, of s]] show ?thesis by simp
  qed (auto simp: escapeByte_def escapeSeq_def strBody.simps(2))
qed

lemma strBody_rune:
  assumes "goodRune r"
  shows "strBody (jsonRune r @ s) = map_option (\<lambda>(v, q). (runeText r @ v, q)) (strBody s)"
proof (cases r)
  case (Inl c)
  with strBody_escape [OF escape_fixed(1) [of s]] show ?thesis by (simp add: jsonRune_def runeText_def)
next
  case (Inr cs)
  then have b: "runeBytes cs" using assms by (simp add: goodRune_def)
  then consider (ascii) c where "cs = [c]" "byte c < 0x80" | (multi) "2 \<le> length cs" "highBytes cs"
    using runeBytes_high by blast
  then show ?thesis
  proof cases
    case ascii
    have safe: "htmlSafe c \<Longrightarrow> strBody (c # s) = map_option (\<lambda>(v, q). (c # v, q)) (strBody s)"
      by (simp add: strBody.simps(2) htmlSafe_def runeLen_intros)
    with Inr ascii escapeByte_read [OF ascii(2), of s] show ?thesis by (simp add: jsonRune_def runeText_def)
  next
    case multi
    obtain c ct where c: "cs = c # ct" "0x80 \<le> byte c" using multi by (cases cs) (auto simp: highBytes_def)
    then have "c \<noteq> CHR 0x22" "c \<noteq> CHR 0x5C" by auto
    moreover have "runeLen (c # ct @ s) = Suc (length ct)" using runeBytes_append [OF b, of s] c by simp
    ultimately have "strBody (cs @ s) = map_option (\<lambda>(v, q). (cs @ v, q)) (strBody s)"
      using c by (simp add: strBody.simps(2))
    moreover have "length cs \<noteq> 1" using multi by simp
    ultimately show ?thesis
      using Inr strBody_escape [OF escape_fixed(2) [of s]] strBody_escape [OF escape_fixed(3) [of s]]
      by (simp add: jsonRune_def runeText_def)
  qed
qed

lemma strBody_jsonString:
  "strBody (concat (map jsonRune (runes s)) @ CHR 0x22 # t) = Some (toValidUTF8 s, t)"
proof -
  have "\<forall>r\<in>set rs. goodRune r \<Longrightarrow>
    strBody (concat (map jsonRune rs) @ CHR 0x22 # t) = Some (concat (map runeText rs), t)" for rs
    by (induction rs) (auto simp: strBody_rune strBody.simps(2))
  then show ?thesis using runes_good [of s] by (simp add: toValidUTF8_def)
qed

section \<open>Numbers\<close>

text \<open>What may follow a number\<close>

definition valueStop :: "string \<Rightarrow> bool" where
  "valueStop t \<longleftrightarrow> t = [] \<or> isPunct (hd t) \<or> jsonSpace (hd t)"

lemma stop_char:
  assumes "isPunct c \<or> jsonSpace c"
  shows "\<not> isDigit c \<and> c \<noteq> CHR ''.'' \<and> c \<noteq> CHR ''e'' \<and> c \<noteq> CHR ''E'' \<and> c \<noteq> CHR ''+'' \<and> c \<noteq> CHR ''-''"
  using assms by (auto simp: isPunct_def jsonSpace_def isDigit_def)

lemma digits_append: "valueStop t \<Longrightarrow> digits (x @ t) = (fst (digits x), snd (digits x) @ t)"
  by (induction x) (use stop_char in \<open>auto simp: valueStop_def takeWhile_eq_Nil_iff hd_Cons_tl dropWhile_eq_self_iff\<close>)

lemma lexInt_append: "lexInt x = Some (i, r) \<Longrightarrow> valueStop t \<Longrightarrow> lexInt (x @ t) = Some (i, r @ t)"
  using digits_append [of t x] by (cases x) (auto simp: lexInt_def split: if_splits)

lemma lexFrac_append: "lexFrac x = Some (f, r) \<Longrightarrow> valueStop t \<Longrightarrow> lexFrac (x @ t) = Some (f, r @ t)"
proof (cases x)
  case Nil
  assume "lexFrac x = Some (f, r)" "valueStop t"
  with Nil show ?thesis using stop_char by (cases t) (auto simp: lexFrac_def valueStop_def)
next
  case (Cons c y)
  assume "lexFrac x = Some (f, r)" "valueStop t"
  with Cons digits_append [of t y] show ?thesis by (auto simp: lexFrac_def split: if_splits prod.splits)
qed

lemma lexExp_append: "lexExp x = Some (e, r) \<Longrightarrow> valueStop t \<Longrightarrow> lexExp (x @ t) = Some (e, r @ t)"
proof (cases x)
  case Nil
  assume "lexExp x = Some (e, r)" "valueStop t"
  with Nil show ?thesis using stop_char by (cases t) (auto simp: lexExp_def valueStop_def)
next
  case (Cons c y)
  assume x: "lexExp x = Some (e, r)" and t: "valueStop t"
  show ?thesis
  proof (cases y)
    case Nil
    with x Cons show ?thesis by (auto simp: lexExp_def split: if_splits)
  next
    case (Cons d z)
    with x \<open>x = c # y\<close> digits_append [OF t, of "d # z"] digits_append [OF t, of z] show ?thesis
      by (auto simp: lexExp_def Let_def split: if_splits prod.splits)
  qed
qed

lemma lexNumber_append: "lexNumber x = Some (n, r) \<Longrightarrow> valueStop t \<Longrightarrow> lexNumber (x @ t) = Some (n, r @ t)"
proof -
  assume x: "lexNumber x = Some (n, r)" and t: "valueStop t"
  define sign where "sign = (if x \<noteq> [] \<and> hd x = CHR ''-'' then [hd x] else [])"
  obtain i s1 f s2 e where l: "lexInt (drop (length sign) x) = Some (i, s1)" "lexFrac s1 = Some (f, s2)"
    "lexExp s2 = Some (e, r)" "n = sign @ i @ f @ e"
    using x by (auto simp: lexNumber_def Let_def sign_def split: option.splits)
  have ne: "x \<noteq> []" using l(1) by (auto simp: lexInt_def)
  then have "(if x @ t \<noteq> [] \<and> hd (x @ t) = CHR ''-'' then [hd (x @ t)] else []) = sign"
    "drop (length sign) (x @ t) = drop (length sign) x @ t"
    by (auto simp: sign_def Suc_le_eq)
  with l t show ?thesis by (simp add: lexNumber_def lexInt_append lexFrac_append lexExp_append)
qed

section \<open>Layouts\<close>

text \<open>
  A layout of a value: \<open>nlf d\<close> stands after an opening bracket, after a comma and before a closing bracket at depth \<open>d\<close>,
  \<open>sp\<close> after a colon. \<open>json.Marshal\<close> puts nothing in either place, \<open>json.Indent\<close> a newline with blanks and a blank.
\<close>

fun layout :: "(nat \<Rightarrow> string) \<Rightarrow> string \<Rightarrow> nat \<Rightarrow> json \<Rightarrow> string" where
  "layout nlf sp d JNull = ''null''"
| "layout nlf sp d (JBool b) = (if b then ''true'' else ''false'')"
| "layout nlf sp d (JNumber n) = n"
| "layout nlf sp d (JString s) = jsonString s"
| "layout nlf sp d (JArray vs) =
     (if vs = [] then ''[]''
      else ''['' @ nlf (Suc d) @ join ('','' @ nlf (Suc d)) (map (layout nlf sp (Suc d)) vs) @ nlf d @ '']'')"
| "layout nlf sp d (JObject ms) =
     (if ms = [] then ''{}''
      else ''{'' @ nlf (Suc d)
        @ join ('','' @ nlf (Suc d)) (map (\<lambda>(k, v). jsonString k @ '':'' @ sp @ layout nlf sp (Suc d) v) ms)
        @ nlf d @ ''}'')"

lemma marshal_layout: "marshal v = layout (\<lambda>_. []) [] d v"
proof (induction v arbitrary: d)
  case (JObject ms)
  have "map (\<lambda>(k, v). jsonString k @ '':'' @ marshal v) ms =
      map (\<lambda>(k, v). jsonString k @ '':'' @ layout (\<lambda>_. []) [] (Suc d) v) ms"
    using JObject by (auto simp: snds.simps)
  then show ?case by (simp only: marshal.simps layout.simps) simp
qed (auto simp: map_eq_conv [symmetric] cong: map_cong)

subsection \<open>\<open>json.Indent\<close> of a marshalled value is a layout of it\<close>

lemma indent_plain:
  "CHR 0x22 \<notin> set cs \<Longrightarrow> CHR 0x5C \<notin> set cs \<Longrightarrow>
    indentLoop True False False d (cs @ s) = cs @ indentLoop True False False d s"
  by (induction cs) auto

lemma indent_need: "s \<noteq> [] \<Longrightarrow> indentLoop True e n d s = indentLoop True e False d s"
  by (cases s) simp_all

lemma indent_rune:
  assumes "goodRune r"
  shows "indentLoop True False False d (jsonRune r @ s) = jsonRune r @ indentLoop True False False d s"
proof -
  note plain = indent_plain [of _ d s]
  have esc: "indentLoop True False False d (CHR 0x5C # c # cs @ s) = CHR 0x5C # c # cs @ indentLoop True False False d s"
    if "CHR 0x22 \<notin> set cs" "CHR 0x5C \<notin> set cs" for c cs
    using plain [OF that] by simp
  show ?thesis
  proof (cases r)
    case (Inl c)
    with esc [of "''fffd''" "CHR ''u''"] show ?thesis by (simp add: jsonRune_def)
  next
    case (Inr cs)
    then have b: "runeBytes cs" using assms by (simp add: goodRune_def)
    then consider (ascii) c where "cs = [c]" "byte c < 0x80" | (multi) "2 \<le> length cs" "highBytes cs"
      using runeBytes_high by blast
    then show ?thesis
    proof cases
      case ascii
      have hx: "hexDigit n \<noteq> CHR 0x22 \<and> hexDigit n \<noteq> CHR 0x5C" if "n < 16" for n
        using hexVal_hexDigit [OF that] by (auto simp: hexVal_def isDigit_def byteIn_def)
      have "byte c div 16 < 16" "byte c mod 16 < 16" by (simp_all add: div_less_iff_less_mult)
      then have h: "CHR 0x22 \<notin> set (hexByte c)" "CHR 0x5C \<notin> set (hexByte c)"
        using hx [of "byte c div 16"] hx [of "byte c mod 16"] by (auto simp: hexByte_def)
      have "indentLoop True False False d (escapeByte c @ s) = escapeByte c @ indentLoop True False False d s"
        using esc [of "''00'' @ hexByte c" "CHR ''u''"] esc [of "[]"] h by (auto simp: escapeByte_def)
      then show ?thesis
        using Inr ascii plain [of "[c]"] by (auto simp: jsonRune_def htmlSafe_def)
    next
      case multi
      then have "CHR 0x22 \<notin> set cs" "CHR 0x5C \<notin> set cs" by (auto simp: highBytes_def list_all_iff)
      moreover have "length cs \<noteq> 1" using multi by simp
      ultimately show ?thesis
        using Inr plain [of cs] esc [of "''2028''" "CHR ''u''"] esc [of "''2029''" "CHR ''u''"]
        by (simp add: jsonRune_def)
    qed
  qed
qed

text \<open>A number is exactly what the lexer takes for one; its bytes are harmless\<close>

definition numChar :: "char \<Rightarrow> bool" where
  "numChar c \<longleftrightarrow> isDigit c \<or> c \<in> set ''+-.eE''"

definition wfNumber :: "string \<Rightarrow> bool" where
  "wfNumber n \<longleftrightarrow> lexNumber n = Some (n, [])"

lemma digits_shape: "digits s = (a, b) \<Longrightarrow> s = a @ b \<and> list_all numChar a"
proof -
  assume "digits s = (a, b)"
  then have "a = takeWhile isDigit s" "b = dropWhile isDigit s" by simp_all
  moreover have "list_all numChar (takeWhile isDigit s)"
    by (auto simp: list_all_iff numChar_def dest: set_takeWhileD)
  ultimately show ?thesis by simp
qed

lemma lexInt_shape: "lexInt s = Some (i, r) \<Longrightarrow> s = i @ r \<and> list_all numChar i \<and> i \<noteq> []"
proof (cases s)
  case (Cons c y)
  assume i: "lexInt s = Some (i, r)"
  show ?thesis
  proof (cases "c = CHR ''0''")
    case False
    with i Cons have "isDigit c" and d: "digits s = (i, r)"
      by (auto simp: lexInt_def split: if_splits simp del: digits.simps)
    moreover from this Cons have "i \<noteq> []" by auto
    ultimately show ?thesis using digits_shape [OF d] by simp
  qed (use i Cons in \<open>auto simp: lexInt_def numChar_def isDigit_def\<close>)
qed (simp add: lexInt_def)

lemma lexFrac_shape: "lexFrac s = Some (f, r) \<Longrightarrow> s = f @ r \<and> list_all numChar f"
proof (cases s)
  case (Cons c y)
  assume f: "lexFrac s = Some (f, r)"
  obtain ds r' where d: "digits y = (ds, r')" by (metis prod.collapse)
  with f Cons digits_shape [OF d] show ?thesis
    by (auto simp: lexFrac_def numChar_def split: if_splits simp del: digits.simps)
qed (auto simp: lexFrac_def)

lemma lexExp_shape: "lexExp s = Some (e, r) \<Longrightarrow> s = e @ r \<and> list_all numChar e"
proof (cases s)
  case (Cons c y)
  assume s: "lexExp s = Some (e, r)"
  define sign where "sign = (if y \<noteq> [] \<and> (hd y = CHR ''+'' \<or> hd y = CHR ''-'') then [hd y] else [])"
  obtain ds r' where d: "digits (drop (length sign) y) = (ds, r')" by (metis prod.collapse)
  have y: "y = sign @ drop (length sign) y" and n: "list_all numChar sign"
    by (cases y; auto simp: sign_def numChar_def)+
  have y': "y = sign @ ds @ r'" using y digits_shape [OF d] by simp
  show ?thesis
  proof (cases "c = CHR ''e'' \<or> c = CHR ''E''")
    case True
    then have "numChar c" by (auto simp: numChar_def)
    moreover have "e = c # sign @ ds \<and> r = r'"
      using s Cons d True unfolding lexExp_def Cons list.case sign_def [symmetric] Let_def
      by (auto split: if_splits simp del: digits.simps)
    ultimately show ?thesis using n digits_shape [OF d] y' Cons by simp
  next
    case False
    with s Cons show ?thesis by (auto simp: lexExp_def)
  qed
qed (auto simp: lexExp_def)

lemma lexNumber_shape: "lexNumber s = Some (n, r) \<Longrightarrow> s = n @ r \<and> list_all numChar n \<and> n \<noteq> []"
proof -
  assume x: "lexNumber s = Some (n, r)"
  define sign where "sign = (if s \<noteq> [] \<and> hd s = CHR ''-'' then [hd s] else [])"
  obtain i s1 f s2 e where l: "lexInt (drop (length sign) s) = Some (i, s1)" "lexFrac s1 = Some (f, s2)"
    "lexExp s2 = Some (e, r)" "n = sign @ i @ f @ e"
    using x by (auto simp: lexNumber_def Let_def sign_def split: option.splits)
  have "s = sign @ drop (length sign) s" "list_all numChar sign"
    by (cases s; auto simp: sign_def numChar_def)+
  with l lexInt_shape [OF l(1)] lexFrac_shape [OF l(2)] lexExp_shape [OF l(3)] show ?thesis by auto
qed

fun wfNumbers :: "json \<Rightarrow> bool" where
  "wfNumbers (JNumber n) = wfNumber n"
| "wfNumbers (JArray vs) = list_all wfNumbers vs"
| "wfNumbers (JObject ms) = list_all (\<lambda>(k, v). wfNumbers v) ms"
| "wfNumbers _ = True"

text \<open>The first byte of a value or a member\<close>

definition startsItem :: "string \<Rightarrow> bool" where
  "startsItem s \<longleftrightarrow> s \<noteq> [] \<and> \<not> jsonSpace (hd s) \<and> hd s \<noteq> CHR ''}'' \<and> hd s \<noteq> CHR '']''"

lemma startsItem_simps [simp]:
  "startsItem (c # s) \<longleftrightarrow> \<not> jsonSpace c \<and> c \<noteq> CHR ''}'' \<and> c \<noteq> CHR '']''"
  "s \<noteq> [] \<Longrightarrow> startsItem (s @ t) \<longleftrightarrow> startsItem s"
  by (auto simp: startsItem_def)

lemma jsonSpace_consts [simp]:
  "\<not> jsonSpace CHR 0x22" "\<not> jsonSpace CHR ''n''" "\<not> jsonSpace CHR ''t''" "\<not> jsonSpace CHR ''f''"
  "\<not> jsonSpace CHR ''[''" "\<not> jsonSpace CHR ''{''" "\<not> jsonSpace CHR '']''" "\<not> jsonSpace CHR ''}''"
  "\<not> jsonSpace CHR '',''" "\<not> jsonSpace CHR '':''"
  by (simp_all add: jsonSpace_def)

lemma numChar_start: "list_all numChar n \<Longrightarrow> n \<noteq> [] \<Longrightarrow> startsItem n"
  by (cases n) (auto simp: numChar_def jsonSpace_def isDigit_def)

lemma jsonString_start [simp]: "startsItem (jsonString k @ s)" "startsItem (jsonString k)"
  by (simp_all add: jsonString_def)

lemma layout_start: "wfNumbers v \<Longrightarrow> startsItem (layout nlf sp d v)"
  by (cases v) (auto simp: wfNumber_def dest!: lexNumber_shape numChar_start)

lemma marshal_start: "wfNumbers v \<Longrightarrow> startsItem (marshal v)"
  using layout_start [of v] by (simp add: marshal_layout [of _ 0])

end
