(* ===== verification/JsonLayout.thy ===== *)
theory JsonLayout
  imports JsonFacts
begin

text \<open>
  \<open>json.Indent\<close> of a marshalled value is a layout of it, and every layout of a value, whatever white space it uses,
  decodes to the value: strings coerced to well-formed UTF-8, the last of several members with one key.
\<close>

section \<open>Indenting\<close>

lemma indent_jsonString:
  "indentLoop False False False d (jsonString k @ s) = jsonString k @ indentLoop False False False d s"
proof -
  have "\<forall>r\<in>set rs. goodRune r \<Longrightarrow>
    indentLoop True False False d (concat (map jsonRune rs) @ q) = concat (map jsonRune rs) @ indentLoop True False False d q"
    for rs q
    by (induction rs) (simp_all add: indent_rune)
  then show ?thesis using runes_good [of k] by (simp add: jsonString_def)
qed

lemma indent_first:
  "startsItem s \<Longrightarrow> indentLoop False False True d s = indentNewline (Suc d) @ indentLoop False False False (Suc d) s"
  by (cases s) (auto simp: Let_def startsItem_def)

lemma indent_number:
  "list_all numChar n \<Longrightarrow> indentLoop False False False d (n @ s) = n @ indentLoop False False False d s"
proof (induction n)
  case (Cons c n)
  then have "\<not> jsonSpace c" "c \<notin> set ''{}[],:''" "c \<noteq> CHR 0x22"
    by (auto simp: numChar_def jsonSpace_def isDigit_def)
  with Cons show ?case by simp
qed simp

lemma indent_comma:
  "indentLoop False False False d (CHR '','' # s) = '','' @ indentNewline d @ indentLoop False False False d s"
  by simp

lemma indent_items:
  assumes "\<And>x s. x \<in> set xs \<Longrightarrow> indentLoop False False False d (f x @ s) = g x @ indentLoop False False False d s"
    and "xs \<noteq> []"
  shows "indentLoop False False False d (join '','' (map f xs) @ s)
    = join ('','' @ indentNewline d) (map g xs) @ indentLoop False False False d s"
  using assms
proof (induction xs)
  case (Cons x xs)
  show ?case
  proof (cases xs)
    case Nil
    with Cons.prems(1) [of x s] show ?thesis by simp
  next
    case (Cons y ys)
    with Cons.IH Cons.prems(1) show ?thesis by (simp add: indent_comma del: indentLoop.simps)
  qed
qed simp

lemma join_start: "xs \<noteq> [] \<Longrightarrow> startsItem (f (hd xs)) \<Longrightarrow> startsItem (join sep (map f xs) @ s)"
  by (cases xs rule: remdups_adj.cases) (auto simp: startsItem_def)

lemma indent_bracket:
  assumes "c = CHR ''['' \<or> c = CHR ''{''" "e = CHR '']'' \<or> e = CHR ''}''"
    and "startsItem (body @ e # s)"
    and "indentLoop False False False (Suc d) (body @ e # s) = out @ indentLoop False False False (Suc d) (e # s)"
  shows "indentLoop False False False d (c # body @ e # s)
    = c # indentNewline (Suc d) @ out @ indentNewline d @ e # indentLoop False False False d s"
proof -
  have "indentLoop False False False d (c # body @ e # s) = c # indentLoop False False True d (body @ e # s)"
    using assms(1) by (auto simp: jsonSpace_def)
  also have "\<dots> = c # indentNewline (Suc d) @ out @ indentLoop False False False (Suc d) (e # s)"
    using indent_first [OF assms(3)] assms(4) by simp
  also have "indentLoop False False False (Suc d) (e # s) = indentNewline d @ e # indentLoop False False False d s"
    using assms(2) by (auto simp: jsonSpace_def)
  finally show ?thesis by simp
qed

lemma indent_marshal:
  "wfNumbers v \<Longrightarrow> indentLoop False False False d (marshal v @ s)
    = layout indentNewline '' '' d v @ indentLoop False False False d s"
proof (induction v arbitrary: d s)
  case (JNumber n)
  then have "list_all numChar n" by (auto simp: wfNumber_def dest: lexNumber_shape)
  then show ?case by (simp add: indent_number)
next
  case (JArray vs)
  show ?case
  proof (cases "vs = []")
    case False
    have "startsItem (join '','' (map marshal vs) @ CHR '']'' # s)"
      by (rule join_start) (use False JArray.prems in \<open>auto simp: marshal_start list_all_iff\<close>)
    moreover have "indentLoop False False False (Suc d) (join '','' (map marshal vs) @ CHR '']'' # s)
        = join ('','' @ indentNewline (Suc d)) (map (layout indentNewline '' '' (Suc d)) vs)
          @ indentLoop False False False (Suc d) (CHR '']'' # s)"
      by (rule indent_items) (use JArray False in \<open>auto simp: list_all_iff\<close>)
    ultimately show ?thesis
      using False indent_bracket [of "CHR ''[''" "CHR '']''"] by simp
  qed simp
next
  case (JObject ms)
  show ?case
  proof (cases "ms = []")
    case False
    let ?f = "\<lambda>(k, v). jsonString k @ '':'' @ marshal v"
    let ?g = "\<lambda>(k, v). jsonString k @ '':'' @ '' '' @ layout indentNewline '' '' (Suc d) v"
    have "startsItem (join '','' (map ?f ms) @ CHR ''}'' # s)"
      by (rule join_start) (use False in \<open>auto split: prod.split\<close>)
    moreover have "indentLoop False False False (Suc d) (join '','' (map ?f ms) @ CHR ''}'' # s)
        = join ('','' @ indentNewline (Suc d)) (map ?g ms) @ indentLoop False False False (Suc d) (CHR ''}'' # s)"
    proof (rule indent_items)
      fix m s
      assume m: "m \<in> set ms"
      obtain k v where kv: "m = (k, v)" by (cases m)
      then have "wfNumbers v" using JObject.prems m by (auto simp: list_all_iff)
      then have "indentLoop False False False (Suc d) (marshal v @ s)
          = layout indentNewline '' '' (Suc d) v @ indentLoop False False False (Suc d) s"
        using JObject.IH [of m v] m kv by (simp add: snds.simps)
      with kv show "indentLoop False False False (Suc d) (?f m @ s) = ?g m @ indentLoop False False False (Suc d) s"
        by (simp add: indent_jsonString)
    qed (use False in simp)
    ultimately show ?thesis
      using False indent_bracket [of "CHR ''{''" "CHR ''}''"] by simp
  qed simp
qed (auto simp: indent_jsonString jsonSpace_def)

lemma jsonIndent_layout: "wfNumbers v \<Longrightarrow> jsonIndent (marshal v) = layout indentNewline '' '' 0 v"
  using indent_marshal [of v 0 "[]"] by (simp add: jsonIndent_def)

section \<open>Decoding\<close>

text \<open>The members of a Go map built by assignments, and the value a document denotes\<close>

definition mapOf :: "(string \<times> json) list \<Rightarrow> (string \<times> json) list \<Rightarrow> (string \<times> json) list" where
  "mapOf ms acc = fold (\<lambda>(k, v). mapSet k v) ms acc"

fun denoted :: "json \<Rightarrow> json" where
  "denoted (JString s) = JString (toValidUTF8 s)"
| "denoted (JArray vs) = JArray (map denoted vs)"
| "denoted (JObject ms) = JObject (mapOf (map (\<lambda>(k, v). (toValidUTF8 k, denoted v)) ms) [])"
| "denoted v = v"

text \<open>The number of brackets a value nests\<close>

fun nest :: "json \<Rightarrow> nat" where
  "nest (JArray vs) = Suc (foldr max (map nest vs) 0)"
| "nest (JObject ms) = Suc (foldr max (map (\<lambda>(k, v). nest v) ms) 0)"
| "nest _ = 0"

definition resume :: "status \<Rightarrow> string \<Rightarrow> json option" where
  "resume s t = (case s of Failed \<Rightarrow> None | Finished v \<Rightarrow> Some v | Running m st \<Rightarrow> scanTokens m st t)"

lemma scanTokens_step: "nextToken s = Some (tok, r) \<Longrightarrow> scanTokens m st s = resume (stepToken m st tok) r"
  by (simp add: scanTokens.simps resume_def split: status.splits)

lemma resume_Running [simp]: "resume (Running m st) t = scanTokens m st t"
  by (simp add: resume_def)

abbreviation white :: "string \<Rightarrow> bool" where
  "white w \<equiv> list_all jsonSpace w"

lemma token_white: "white w \<Longrightarrow> nextToken (w @ s) = nextToken s"
  by (induction w) (simp_all add: nextToken_def)

lemma token_punct: "isPunct c \<Longrightarrow> nextToken (c # s) = Some (TPunct c, s)"
  by (auto simp: nextToken_def isPunct_def)

lemma token_string: "nextToken (jsonString k @ s) = Some (TStr (toValidUTF8 k), s)"
  by (simp add: nextToken_def jsonString_def isPunct_def strBody_jsonString)

lemma token_number:
  assumes "wfNumber n" "valueStop t"
  shows "nextToken (n @ t) = Some (TNum n, t)"
proof -
  from assms have l: "lexNumber (n @ t) = Some (n, t)" using lexNumber_append [of n n "[]" t] by (simp add: wfNumber_def)
  have "list_all numChar n" "n \<noteq> []" using assms(1) lexNumber_shape [of n n "[]"] by (auto simp: wfNumber_def)
  then obtain c x where n: "n = c # x" "numChar c" by (cases n) auto
  have "c = CHR ''-'' \<or> isDigit c"
    using assms(1) n(1) by (auto simp: wfNumber_def lexNumber_def Let_def lexInt_def isDigit_def split: option.splits if_splits)
  moreover from n(2) have "\<not> jsonSpace c" "\<not> isPunct c" "c \<noteq> CHR 0x22"
    by (auto simp: numChar_def jsonSpace_def isPunct_def isDigit_def)
  ultimately show ?thesis using l n(1) by (simp add: nextToken_def)
qed

lemma token_words:
  "nextToken (''null'' @ s) = Some (TLit JNull, s)"
  "nextToken (''true'' @ s) = Some (TLit (JBool True), s)"
  "nextToken (''false'' @ s) = Some (TLit (JBool False), s)"
  by (simp_all add: nextToken_def jsonSpace_def isPunct_def isDigit_def lexWord_def)

lemma isPunct_consts [simp]:
  "isPunct CHR ''[''" "isPunct CHR '']''" "isPunct CHR ''{''" "isPunct CHR ''}''" "isPunct CHR '',''" "isPunct CHR '':''"
  by (simp_all add: isPunct_def)

lemma valueStop_intros [simp]: "isPunct c \<Longrightarrow> valueStop (c # s)"
  by (simp add: valueStop_def)

lemma valueStop_white: "white w \<Longrightarrow> valueStop t \<Longrightarrow> valueStop (w @ t)"
  by (cases w) (simp_all add: valueStop_def)

lemmas scan_white = scanTokens_step [OF token_white [THEN trans]]

text \<open>What is to be shown for a value written as \<open>x\<close>, at any place of a document\<close>

definition reads :: "nat \<Rightarrow> string \<Rightarrow> json \<Rightarrow> bool" where
  "reads n x v \<longleftrightarrow> (\<forall>b st w t. white w \<longrightarrow> valueStop t \<longrightarrow> length st + n \<le> 10000 \<longrightarrow>
     scanTokens (MValue b) st (w @ x @ t) = resume (finishValue v st) t)"

lemma reads_elements:
  assumes "\<And>x. x \<in> set xs \<Longrightarrow> reads n (f x) (g x)" and "xs \<noteq> []"
    and "white w" "white w2" "white w3" "Suc (length st) + n \<le> 10000"
  shows "scanTokens (MValue b) (FArray acc # st) (w @ join ('','' @ w2) (map f xs) @ w3 @ '']'' @ t)
    = resume (finishValue (JArray (rev acc @ map g xs)) st) t"
  using assms
proof (induction xs arbitrary: acc w b)
  case (Cons x xs)
  have r: "reads n (f x) (g x)" using Cons.prems(1) by simp
  have x: "scanTokens (MValue b) (FArray acc # st) (w @ f x @ q) = scanTokens MAfter (FArray (g x # acc) # st) q"
    if "valueStop q" for q
    using r that Cons.prems(3,6) by (simp add: reads_def finishValue_def)
  show ?case
  proof (cases xs)
    case Nil
    have "scanTokens MAfter (FArray (g x # acc) # st) (w3 @ CHR '']'' # t) = resume (finishValue (JArray (rev acc @ [g x])) st) t"
      using scan_white [OF Cons.prems(5) token_punct] by (simp add: stepToken_def)
    with x [of "w3 @ CHR '']'' # t"] Nil Cons.prems(5) show ?thesis by (simp add: valueStop_white)
  next
    case (Cons y ys)
    let ?q = "w2 @ join ('','' @ w2) (map f xs) @ w3 @ '']'' @ t"
    have "scanTokens MAfter (FArray (g x # acc) # st) (CHR '','' # ?q) = scanTokens (MValue False) (FArray (g x # acc) # st) ?q"
      using scanTokens_step [OF token_punct] by (simp add: stepToken_def)
    also have "\<dots> = resume (finishValue (JArray (rev acc @ g x # map g xs)) st) t"
      using Cons.IH [where w = w2 and acc = "g x # acc" and b = False] Cons Cons.prems by simp
    finally show ?thesis using x [of "CHR '','' # ?q"] Cons by simp
  qed
qed simp

lemma reads_members:
  assumes "\<And>k v. (k, v) \<in> set ms \<Longrightarrow> reads n (f v) (g v)" and "ms \<noteq> []"
    and "white w" "white w2" "white w3" "white sp" "Suc (length st) + n \<le> 10000"
  shows "scanTokens (MKey acc b) (FObject acc' k' # st)
      (w @ join ('','' @ w2) (map (\<lambda>(k, v). jsonString k @ '':'' @ sp @ f v) ms) @ w3 @ ''}'' @ t)
    = resume (finishValue (JObject (mapOf (map (\<lambda>(k, v). (toValidUTF8 k, g v)) ms) acc)) st) t"
  using assms
proof (induction ms arbitrary: acc w b acc' k')
  case (Cons m ms)
  obtain k v where m: "m = (k, v)" by (cases m)
  let ?acc = "mapSet (toValidUTF8 k) (g v) acc"
  let ?fr = "FObject ?acc (toValidUTF8 k) # st"
  have r: "reads n (f v) (g v)" by (rule Cons.prems(1) [of k]) (simp add: m)
  have ih: "reads n (f v) (g v)" if "(k, v) \<in> set ms" for k v by (rule Cons.prems(1) [of k]) (simp add: that)
  have x: "scanTokens (MKey acc b) (FObject acc' k' # st) (w @ jsonString k @ CHR '':'' # sp @ f v @ q)
      = scanTokens MAfter ?fr q" if "valueStop q" for q
  proof -
    have "scanTokens (MKey acc b) (FObject acc' k' # st) (w @ jsonString k @ CHR '':'' # sp @ f v @ q)
        = scanTokens MColon (FObject acc (toValidUTF8 k) # st) (CHR '':'' # sp @ f v @ q)"
      using scan_white [OF Cons.prems(3) token_string] by (simp add: stepToken_def)
    also have "\<dots> = scanTokens (MValue False) (FObject acc (toValidUTF8 k) # st) (sp @ f v @ q)"
      using scanTokens_step [OF token_punct] by (simp add: stepToken_def)
    also have "\<dots> = scanTokens MAfter ?fr q"
      using r that Cons.prems(6,7) by (simp add: reads_def finishValue_def)
    finally show ?thesis .
  qed
  show ?case
  proof (cases ms)
    case Nil
    have "scanTokens MAfter ?fr (w3 @ CHR ''}'' # t) = resume (finishValue (JObject ?acc) st) t"
      using scan_white [OF Cons.prems(5) token_punct] by (simp add: stepToken_def)
    with x [of "w3 @ CHR ''}'' # t"] Nil m Cons.prems(5) show ?thesis by (simp add: valueStop_white mapOf_def)
  next
    case (Cons y ys)
    let ?q = "w2 @ join ('','' @ w2) (map (\<lambda>(k, v). jsonString k @ '':'' @ sp @ f v) ms) @ w3 @ ''}'' @ t"
    have "scanTokens MAfter ?fr (CHR '','' # ?q) = scanTokens (MKey ?acc False) ?fr ?q"
      using scanTokens_step [OF token_punct] by (simp add: stepToken_def)
    also have "\<dots> = resume (finishValue (JObject (mapOf (map (\<lambda>(k, v). (toValidUTF8 k, g v)) (m # ms)) acc)) st) t"
      using Cons.IH [OF ih _ Cons.prems(4,4-7), where acc = ?acc and b = False and acc' = ?acc and k' = "toValidUTF8 k"] Cons m by (simp add: mapOf_def)
    finally show ?thesis using x [of "CHR '','' # ?q"] Cons m by simp
  qed
qed simp

lemma reads_mono: "reads n x v \<Longrightarrow> n \<le> m \<Longrightarrow> reads m x v"
  by (auto simp: reads_def)

lemma foldr_max_bound: "foldr max xs (0::nat) \<le> n \<longleftrightarrow> (\<forall>x\<in>set xs. x \<le> n)"
  by (induction xs) auto

lemma foldr_max_le: "x \<in> set xs \<Longrightarrow> f x \<le> foldr max (map f xs) (0::nat)"
  using foldr_max_bound [of "map f xs" "foldr max (map f xs) 0"] by simp

lemma foldr_max_set: "set xs = set ys \<Longrightarrow> foldr max xs (0::nat) = foldr max ys 0"
  by (metis foldr_max_bound order_antisym order_refl)

lemma reads_open:
  assumes "white w" "Suc (length st) + n \<le> 10000"
  shows "scanTokens (MValue b) st (w @ CHR ''['' # q) = scanTokens (MValue True) (FArray [] # st) q"
    and "scanTokens (MValue b) st (w @ CHR ''{'' # q) = scanTokens (MKey [] True) (FObject [] [] # st) q"
  using scan_white [OF assms(1) token_punct] assms(2) by (simp_all add: stepToken_def push_def maxNestingDepth_def)

lemma reads_layout:
  assumes "wfNumbers v" "\<And>d. white (nlf d)" "white sp"
  shows "reads (nest v) (layout nlf sp d v) (denoted v)"
  using assms(1)
proof (induction v arbitrary: d)
  case JNull
  show ?case using scan_white [OF _ token_words(1)] by (simp add: reads_def stepToken_def)
next
  case (JBool b)
  show ?case using scan_white [OF _ token_words(2)] scan_white [OF _ token_words(3)] by (simp add: reads_def stepToken_def)
next
  case (JNumber n)
  then show ?case using scan_white [OF _ token_number] by (simp add: reads_def stepToken_def)
next
  case (JString s)
  show ?case using scan_white [OF _ token_string] by (simp add: reads_def stepToken_def)
next
  case (JArray vs)
  let ?n = "foldr max (map nest vs) 0"
  have r: "reads ?n (layout nlf sp (Suc d) v) (denoted v)" if "v \<in> set vs" for v
    by (rule reads_mono [OF JArray.IH [OF that]]) (use JArray.prems that in \<open>auto simp: list_all_iff foldr_max_le\<close>)
  show ?case
  proof (cases "vs = []")
    case True
    then show ?thesis
      using reads_open(1) [where n = 0] scanTokens_step [OF token_punct] by (simp add: reads_def stepToken_def)
  next
    case False
    with r show ?thesis
      using reads_open(1) [where n = 0] reads_elements [where g = denoted and n = ?n] assms by (simp add: reads_def [of "Suc _"])
  qed
next
  case (JObject ms)
  let ?n = "foldr max (map (\<lambda>(k, v). nest v) ms) 0"
  have r: "reads ?n (layout nlf sp (Suc d) v) (denoted v)" if "(k, v) \<in> set ms" for k v
  proof (rule reads_mono)
    show "reads (nest v) (layout nlf sp (Suc d) v) (denoted v)"
      using JObject that by (auto simp: list_all_iff snds.simps)
    show "nest v \<le> ?n" using foldr_max_le [OF that, of "\<lambda>(k, v). nest v"] by simp
  qed
  show ?case
  proof (cases "ms = []")
    case True
    then show ?thesis
      using reads_open(2) [where n = 0] scanTokens_step [OF token_punct] by (simp add: reads_def stepToken_def mapOf_def)
  next
    case False
    with r show ?thesis
      using reads_open(2) [where n = 0] reads_members [where g = denoted and n = ?n] assms by (simp add: reads_def [of "Suc _"])
  qed
qed

lemma decode_layout:
  assumes "wfNumbers v" "nest v \<le> 10000" "\<And>d. white (nlf d)" "white sp" "white w" "valueStop t"
  shows "decode (w @ layout nlf sp d v @ t) = Some (denoted v)"
  using reads_layout [OF assms(1,3,4), where d = d] assms(2,5,6) by (simp add: reads_def decode_def finishValue_def resume_def)

lemma white_newline [simp]: "white (indentNewline d)"
  by (simp add: indentNewline_def jsonSpace_def list_all_iff)

lemma decode_marshal: "wfNumbers v \<Longrightarrow> nest v \<le> 10000 \<Longrightarrow> valueStop t \<Longrightarrow> decode (marshal v @ t) = Some (denoted v)"
  using decode_layout [of v "\<lambda>_. []" "[]" "[]" t 0] by (simp add: marshal_layout [of v 0])

lemma decode_indent:
  "wfNumbers v \<Longrightarrow> nest v \<le> 10000 \<Longrightarrow> valueStop t \<Longrightarrow> decode (jsonIndent (marshal v) @ t) = Some (denoted v)"
  using decode_layout [of v indentNewline "'' ''" "[]" t 0] by (simp add: jsonIndent_layout jsonSpace_def)

end
