(* ===== verification/RenderJson.thy ===== *)
theory RenderJson
  imports RenderHuman JsonLayout GoTime
begin

text \<open>
  \<open>internal/render/json.go\<close> and \<open>sarif.go\<close>: the two JSON renderers. A report is turned into a JSON value the way
  \<open>encoding/json\<close> reads the struct tags of package \<open>report\<close>: fields in declaration order, \<open>omitempty\<close> fields left out,
  map keys sorted, times as \<open>RFC3339\<close> with nanoseconds. All times of a report are in UTC.
\<close>

section \<open>json.Marshal of a report\<close>

fun evidenceJson :: "evidence \<Rightarrow> json" where
  "evidenceJson (EvStr s) = JString s"
| "evidenceJson (EvBool b) = JBool b"
| "evidenceJson (EvInt i) = JNumber (itoa i)"
| "evidenceJson (EvMap ms) = JObject (sort_key fst (map (\<lambda>(k, e). (k, evidenceJson e)) ms))"

definition natJson :: "nat \<Rightarrow> json" where "natJson n = JNumber (showNat n)"

definition omitEmpty :: "string \<Rightarrow> string \<Rightarrow> (string \<times> json) list" where
  "omitEmpty k s = (if s = [] then [] else [(k, JString s)])"

definition timeJson :: "gotime \<Rightarrow> json" where
  "timeJson t = JString (formatRFC3339 True t)"

definition resultJson :: "result \<Rightarrow> json" where
  "resultJson r = JObject
     ([(''started_at'', timeJson (rStartedAt r))]
      @ (if rEvidence r = [] then [] else [(''evidence'', evidenceJson (EvMap (rEvidence r)))])
      @ [(''check_id'', JString (rCheckID r)), (''title'', JString (rTitle r)), (''state'', JString (rState r)),
         (''severity'', JString (rSeverity r))]
      @ omitEmpty ''detail'' (rDetail r) @ omitEmpty ''error'' (rErr r)
      @ [(''duration_ms'', JNumber (itoa (rDurationMS r)))])"

definition hostJson :: "hostInfo \<Rightarrow> json" where
  "hostJson h = JObject
     [(''hostname'', JString (hHostname h)), (''kernel_release'', JString (hKernelRelease h)),
      (''os_release'', JString (hOSRelease h)), (''os_version_id'', JString (hOSVersion h)), (''arch'', JString (hArch h))]"

definition toolJson :: "toolInfo \<Rightarrow> json" where
  "toolJson t = JObject
     [(''name'', JString (tName t)), (''version'', JString (tVersion t)), (''commit'', JString (tCommit t)),
      (''build_date'', JString (tBuildDate t))]"

definition bucketJson :: "bucket \<Rightarrow> json" where
  "bucketJson b = JObject
     [(''pass'', natJson (bPass b)), (''fail'', natJson (bFail b)), (''error'', natJson (bError b))]"

definition summaryJson :: "summary \<Rightarrow> json" where
  "summaryJson s = JObject
     [(''total'', natJson (sTotal s)), (''pass'', natJson (sPass s)), (''fail'', natJson (sFail s)),
      (''skip'', natJson (sSkip s)), (''error'', natJson (sError s)), (''required'', bucketJson (sRequired s))]"

definition reportJson :: "report \<Rightarrow> json" where
  "reportJson rep = JObject
     [(''generated_at'', timeJson (repGenerated rep)), (''host'', hostJson (repHost rep)),
      (''tool'', toolJson (repTool rep)), (''schema_version'', JString (repSchemaVersion rep)),
      (''results'', JArray (map resultJson (repResults rep))), (''summary'', summaryJson (repSummary rep))]"

definition timeError :: goerr where
  "timeError = plainErr (''json: error calling MarshalJSON for type time.Time: Time.MarshalJSON: ''
     @ ''year outside of range [0,9999]'')"

definition reportEncodable :: "report \<Rightarrow> bool" where
  "reportEncodable rep \<longleftrightarrow> timeEncodable (repGenerated rep) \<and> list_all (\<lambda>r. timeEncodable (rStartedAt r)) (repResults rep)"

definition marshalReport :: "report \<Rightarrow> goerr + json" where
  "marshalReport rep = (if reportEncodable rep then Inr (reportJson rep) else Inl timeError)"

section \<open>json.go\<close>

definition envJSONCompact :: string where "envJSONCompact = ''COPYFAIL_JSON_COMPACT''"

text \<open>\<open>json.Indent\<close> of the marshalled value; its scanner has the depth limit of the decoder\<close>

definition indentDoc :: "json \<Rightarrow> goerr + string" where
  "indentDoc v =
     (if int (nest v) \<le> maxNestingDepth then Inr (jsonIndent (marshal v)) else Inl (plainErr ''exceeded max depth''))"

definition encodeErr :: "goerr \<Rightarrow> goerr" where
  "encodeErr e = wrapErr2 [] (sentinelErr ErrEncode) '': '' e []"

definition renderJSON :: "'w writeEnv \<Rightarrow> 'w renderer" where
  "renderJSON env w rep =
     (case marshalReport rep of
        Inl e \<Rightarrow> ((0, Some (encodeErr e)), w)
      | Inr raw \<Rightarrow>
          if weGetenv env envJSONCompact = ''1'' then flushAll env w (marshal raw @ [CHR 0x0A])
          else case indentDoc raw of
            Inl e \<Rightarrow> ((0, Some (encodeErr e)), w)
          | Inr out \<Rightarrow> flushAll env w (out @ [CHR 0x0A]))"

section \<open>sarif.go\<close>

definition sarifSchema :: string where
  "sarifSchema = ''https://docs.oasis-open.org/sarif/sarif/v2.1.0/cos02/schemas/sarif-schema-2.1.0.json''"

definition sarifVersion :: string where "sarifVersion = ''2.1.0''"

definition driverInformationURI :: string where
  "driverInformationURI = ''https://github.com/polyglotdev/copyfail-validation''"

record sarifRule =
  srID :: string
  srName :: string
  srShort :: string
  srFull :: string
  srHelp :: string

record sarifResult =
  saMessage :: string
  saRuleID :: string
  saKind :: string
  saLevel :: string

record sarifInvocation =
  siStartTimeUTC :: string
  siMachine :: string
  siExecutionSuccessful :: bool

record sarifDriver =
  sdName :: string
  sdVersion :: string
  sdInformationURI :: string
  sdRules :: "sarifRule list"

record sarifTool =
  stDriver :: sarifDriver

record sarifRun =
  suTool :: sarifTool
  suResults :: "sarifResult list"
  suInvocations :: "sarifInvocation list"

record sarifLog =
  slSchema :: string
  slVersion :: string
  slRuns :: "sarifRun list"

text \<open>The map \<open>seen\<close> of the first result per ID\<close>

fun seenLoop :: "(string \<times> result) list \<Rightarrow> result list \<Rightarrow> (string \<times> result) list" where
  "seenLoop seen [] = seen"
| "seenLoop seen (r # rs) =
     seenLoop (case map_of seen (rCheckID r) of None \<Rightarrow> (rCheckID r, r) # seen | Some _ \<Rightarrow> seen) rs"

definition sarifRuleOf :: "result \<Rightarrow> sarifRule" where
  "sarifRuleOf r = \<lparr>srID = rCheckID r, srName = rTitle r, srShort = rTitle r, srFull = rTitle r, srHelp = rTitle r\<rparr>"

definition buildSARIFRules :: "result list \<Rightarrow> sarifRule list" where
  "buildSARIFRules results =
     (let seen = seenLoop [] results; ids = sort (map fst seen)
      in map (\<lambda>id. sarifRuleOf (case map_of seen id of None \<Rightarrow> zeroResult | Some r \<Rightarrow> r)) ids)"

definition sarifLevel :: "result \<Rightarrow> string" where
  "sarifLevel r =
     (if rState r \<noteq> StateFail then [] else if isRequired (rSeverity r) then ''error'' else ''warning'')"

definition sarifMessage :: "result \<Rightarrow> string" where
  "sarifMessage r =
     (if rState r = StateError \<and> rErr r \<noteq> [] then rErr r
      else if rDetail r \<noteq> [] then rDetail r
      else rTitle r)"

definition buildSARIFResults :: "result list \<Rightarrow> sarifResult list" where
  "buildSARIFResults results =
     map (\<lambda>r. \<lparr>saMessage = sarifMessage r, saRuleID = rCheckID r, saKind = sarifKind (rState r), saLevel = sarifLevel r\<rparr>)
       results"

definition buildSARIFInvocation :: "report \<Rightarrow> sarifInvocation" where
  "buildSARIFInvocation rep =
     \<lparr>siStartTimeUTC = formatRFC3339 False (repGenerated rep), siMachine = hHostname (repHost rep),
      siExecutionSuccessful = (bFail (sRequired (repSummary rep)) = 0 \<and> bError (sRequired (repSummary rep)) = 0)\<rparr>"

definition multiText :: "string \<Rightarrow> json" where "multiText s = JObject [(''text'', JString s)]"

definition sarifRuleJson :: "sarifRule \<Rightarrow> json" where
  "sarifRuleJson r = JObject
     [(''id'', JString (srID r)), (''name'', JString (srName r)), (''shortDescription'', multiText (srShort r)),
      (''fullDescription'', multiText (srFull r)), (''help'', multiText (srHelp r))]"

definition sarifResultJson :: "sarifResult \<Rightarrow> json" where
  "sarifResultJson r = JObject
     ([(''message'', multiText (saMessage r)), (''ruleId'', JString (saRuleID r)), (''kind'', JString (saKind r))]
      @ omitEmpty ''level'' (saLevel r))"

definition sarifInvocationJson :: "sarifInvocation \<Rightarrow> json" where
  "sarifInvocationJson i = JObject
     [(''startTimeUtc'', JString (siStartTimeUTC i)), (''machine'', JString (siMachine i)),
      (''executionSuccessful'', JBool (siExecutionSuccessful i))]"

definition sarifDriverJson :: "sarifDriver \<Rightarrow> json" where
  "sarifDriverJson d = JObject
     [(''name'', JString (sdName d)), (''version'', JString (sdVersion d)), (''informationUri'', JString (sdInformationURI d)),
      (''rules'', JArray (map sarifRuleJson (sdRules d)))]"

definition sarifToolJson :: "sarifTool \<Rightarrow> json" where
  "sarifToolJson t = JObject [(''driver'', sarifDriverJson (stDriver t))]"

definition sarifRunJson :: "sarifRun \<Rightarrow> json" where
  "sarifRunJson r = JObject
     [(''tool'', sarifToolJson (suTool r)), (''results'', JArray (map sarifResultJson (suResults r))),
      (''invocations'', JArray (map sarifInvocationJson (suInvocations r)))]"

definition sarifLogJson :: "sarifLog \<Rightarrow> json" where
  "sarifLogJson l = JObject
     [(''$schema'', JString (slSchema l)), (''version'', JString (slVersion l)), (''runs'', JArray (map sarifRunJson (slRuns l)))]"

definition sarifLogOf :: "report \<Rightarrow> sarifLog" where
  "sarifLogOf rep =
     \<lparr>slSchema = sarifSchema, slVersion = sarifVersion, slRuns =
        [\<lparr>suTool = \<lparr>stDriver = \<lparr>sdName = tName (repTool rep), sdVersion = tVersion (repTool rep),
             sdInformationURI = driverInformationURI, sdRules = buildSARIFRules (repResults rep)\<rparr>\<rparr>,
          suResults = buildSARIFResults (repResults rep), suInvocations = [buildSARIFInvocation rep]\<rparr>]\<rparr>"

definition sarifDoc :: "report \<Rightarrow> json" where
  "sarifDoc rep = sarifLogJson (sarifLogOf rep)"

lemma sarifDoc_members:
  "sarifDoc rep = JObject
     [(''$schema'', JString sarifSchema), (''version'', JString sarifVersion),
      (''runs'', JArray [JObject
         [(''tool'', JObject [(''driver'', JObject
             [(''name'', JString (tName (repTool rep))), (''version'', JString (tVersion (repTool rep))),
              (''informationUri'', JString driverInformationURI),
              (''rules'', JArray (map sarifRuleJson (buildSARIFRules (repResults rep))))])]),
          (''results'', JArray (map sarifResultJson (buildSARIFResults (repResults rep)))),
          (''invocations'', JArray [sarifInvocationJson (buildSARIFInvocation rep)])]])]"
  by (simp add: sarifDoc_def sarifLogOf_def sarifLogJson_def sarifRunJson_def sarifToolJson_def sarifDriverJson_def)

definition renderSARIF :: "'w writeEnv \<Rightarrow> 'w renderer" where
  "renderSARIF env w rep =
     (case indentDoc (sarifDoc rep) of
        Inl e \<Rightarrow> ((0, Some (encodeErr e)), w)
      | Inr out \<Rightarrow> flushAll env w (out @ [CHR 0x0A]))"

end
