(* ===== verification/GoFloat.thy ===== *)
theory GoFloat
  imports Complex_Main GoStringFacts
begin

text \<open>
  \<open>float64\<close>: conversion of an integer, division, and the shortest decimal that \<open>%g\<close> prints, for the numbers the program
  has, which are far from overflow and from the subnormal numbers. Signs are kept apart: rounding is symmetric.
\<close>

section \<open>Rounding\<close>

text \<open>A number that is not zero is a mantissa of 53 bits and an exponent of two.\<close>

type_synonym float64 = "nat \<times> int"

fun bitLen :: "nat \<Rightarrow> nat" where
  "bitLen n = (if n = 0 then 0 else Suc (bitLen (n div 2)))"

declare bitLen.simps [simp del]

text \<open>The integer closest to \<open>n / d\<close>, the even one of two\<close>

definition halfEven :: "nat \<Rightarrow> nat \<Rightarrow> nat" where
  "halfEven n d =
     (let q = n div d; r = n mod d in if 2 * r < d \<or> 2 * r = d \<and> even q then q else Suc q)"

text \<open>\<open>n / d\<close> in units of \<open>2^e\<close>, as a fraction\<close>

definition scaled :: "nat \<Rightarrow> nat \<Rightarrow> int \<Rightarrow> nat \<times> nat" where
  "scaled n d e = (if 0 \<le> e then (n, d * 2 ^ nat e) else (n * 2 ^ nat (- e), d))"

text \<open>The number closest to \<open>n / d\<close>\<close>

definition float64Of :: "nat \<Rightarrow> nat \<Rightarrow> float64" where
  "float64Of n d =
     (if n = 0 then (0, 0)
      else
        let g = gcd n d; a = n div g; b = d div g;
            e0 = int (bitLen a) - int (bitLen b) - 53;
            e = (case scaled a b e0 of (N, D) \<Rightarrow> if N < 2 ^ 53 * D then e0 else e0 + 1);
            m = (case scaled a b e of (N, D) \<Rightarrow> halfEven N D)
        in if m = 2 ^ 53 then (2 ^ 52, e + 1) else (m, e))"

text \<open>The exact value, as a fraction\<close>

definition floatFrac :: "float64 \<Rightarrow> nat \<times> nat" where
  "floatFrac f = (case f of (m, e) \<Rightarrow> if 0 \<le> e then (m * 2 ^ nat e, 1) else (m, 2 ^ nat (- e)))"

definition floatDiv :: "float64 \<Rightarrow> nat \<Rightarrow> float64" where
  "floatDiv f k = (case floatFrac f of (n, d) \<Rightarrow> float64Of n (d * k))"

definition isWhole :: "float64 \<Rightarrow> bool" where
  "isWhole f = (case floatFrac f of (n, d) \<Rightarrow> d dvd n)"

definition wholePart :: "float64 \<Rightarrow> nat" where
  "wholePart f = (case floatFrac f of (n, d) \<Rightarrow> n div d)"

section \<open>Shortest decimals\<close>

text \<open>\<open>c / 10^j\<close> as a number\<close>

definition decimalFloat :: "nat \<Rightarrow> int \<Rightarrow> float64" where
  "decimalFloat c j = float64Of (c * 10 ^ nat (- j)) (10 ^ nat j)"

text \<open>The decimals with \<open>j\<close> places next to a number that are read as it, the closest first\<close>

definition decimalsAt :: "float64 \<Rightarrow> int \<Rightarrow> nat list" where
  "decimalsAt f j =
     (case floatFrac f of (n, d) \<Rightarrow>
        let a = n * 10 ^ nat j; b = d * 10 ^ nat (- j); c = a div b; r = a mod b in
        filter (\<lambda>c. decimalFloat c j = f)
          (if r = 0 then [c] else if 2 * r < b \<or> 2 * r = b \<and> even c then [c, Suc c] else [Suc c, c]))"

text \<open>
  Fewer places are fewer digits. A number of the program is below \<open>10^20\<close> and a multiple of \<open>2^(-80)\<close>, so the search is wide
  enough: its last decimal is exact.
\<close>

definition shortest :: "float64 \<Rightarrow> nat \<times> int" where
  "shortest f = (case find (\<lambda>j. decimalsAt f j \<noteq> []) [-20..80] of Some j \<Rightarrow> (hd (decimalsAt f j), j) | None \<Rightarrow> (0, 0))"

definition trimZeros :: "string \<Rightarrow> string" where
  "trimZeros s = trimRightSet (\<lambda>c. c = CHR ''0'') s"

text \<open>\<open>%g\<close>: an exponent from a million on and below \<open>0.0001\<close>\<close>

definition exponentText :: "int \<Rightarrow> string" where
  "exponentText x =
     (let s = showNat (nat \<bar>x\<bar>) in ''e'' @ (if x < 0 then ''-'' else ''+'') @ (if length s < 2 then ''0'' else []) @ s)"

definition formatG :: "float64 \<Rightarrow> string" where
  "formatG f =
     (case shortest f of (c, j) \<Rightarrow>
        let ds = trimZeros (showNat c); dp = int (length (showNat c)) - j; x = dp - 1 in
        if x < -4 \<or> 6 \<le> x
        then take 1 ds @ (if length ds > 1 then ''.'' @ drop 1 ds else []) @ exponentText x
        else (if 0 < dp then take (nat dp) ds @ replicate (nat dp - length ds) (CHR ''0'') else ''0'')
          @ (if int (length ds) > dp then ''.'' @ replicate (nat (- dp)) (CHR ''0'') @ drop (nat dp) ds else []))"

section \<open>How far a number is from what it stands for\<close>

definition fval :: "float64 \<Rightarrow> real" where
  "fval f = (case f of (m, e) \<Rightarrow> real m * 2 powi e)"

lemma two_powi: "2 powi e = (if 0 \<le> e then 2 ^ nat e else 1 / 2 ^ nat (- e) :: real)"
  by (simp add: power_int_def field_simps)

lemma scaled_val:
  "scaled n d e = (N, D) \<Longrightarrow> 0 < d \<Longrightarrow> 0 < D \<and> real N / real D = real n / real d / 2 powi e"
  by (auto simp: scaled_def two_powi split: if_splits)

lemma floatFrac_val: "floatFrac f = (n, d) \<Longrightarrow> 0 < d \<and> real n / real d = fval f"
  by (auto simp: floatFrac_def fval_def two_powi split: prod.splits if_splits)

lemma halfEven_error: "0 < d \<Longrightarrow> \<bar>real (halfEven n d) - real n / real d\<bar> \<le> 1 / 2"
proof -
  assume d: "0 < d"
  let ?q = "n div d" and ?r = "n mod d"
  have "real n = real ?q * real d + real ?r" by (metis div_mult_mod_eq of_nat_add of_nat_mult)
  then have x: "real n / real d = real ?q + real ?r / real d" using d by (simp add: field_simps)
  have r: "real ?r < real d" using d by simp
  have "real ?r / real d \<le> 1 / 2" if "2 * ?r \<le> d"
  proof -
    have "2 * real ?r \<le> real d" using that by linarith
    then show ?thesis using d by (simp add: field_simps)
  qed
  moreover have "1 / 2 \<le> real ?r / real d" if "d \<le> 2 * ?r"
  proof -
    have "real d \<le> 2 * real ?r" using that by linarith
    then show ?thesis using d by (simp add: field_simps)
  qed
  moreover have "0 \<le> real ?r / real d" "real ?r / real d \<le> 1" using d r by (simp_all add: field_simps)
  ultimately show ?thesis by (auto simp: halfEven_def Let_def x)
qed

lemma halfEven_one: "halfEven n 1 = n"
  by (simp add: halfEven_def)

lemma bitLen_bounds: "0 < n \<Longrightarrow> 2 ^ bitLen n \<le> 2 * n \<and> n < 2 ^ bitLen n"
proof (induction n rule: bitLen.induct)
  case (1 n)
  show ?case
  proof (cases "n = 1")
    case True
    then show ?thesis by (simp add: bitLen.simps)
  next
    case False
    with 1 have "2 ^ bitLen (n div 2) \<le> 2 * (n div 2) \<and> n div 2 < 2 ^ bitLen (n div 2)" by auto
    then show ?thesis using 1(2) by (subst (1 2) bitLen.simps) auto
  qed
qed

text \<open>The exponent is right: the mantissa has 53 bits.\<close>

lemma exponent_choice:
  assumes "0 < a" "0 < b" "e0 = int (bitLen a) - int (bitLen b) - 53"
    and "e = (case scaled a b e0 of (N, D) \<Rightarrow> if N < 2 ^ 53 * D then e0 else e0 + 1)"
  shows "2 ^ 52 \<le> real a / real b / 2 powi e"
proof -
  obtain N D where s: "scaled a b e0 = (N, D)" by fastforce
  let ?x = "real a / real b"
  note v = scaled_val [OF s assms(2)]
  have la: "2 ^ bitLen a \<le> 2 * real a" using bitLen_bounds [OF assms(1)] by (metis of_nat_le_iff of_nat_mult of_nat_numeral of_nat_power)
  have lb: "real b < 2 ^ bitLen b" using bitLen_bounds [OF assms(2)] by (metis of_nat_less_iff of_nat_numeral of_nat_power)
  have "(2::real) powi e0 = 2 ^ bitLen a / 2 ^ bitLen b / 2 ^ 53"
    by (simp add: assms(3) power_int_diff)
  moreover have "2 ^ bitLen a / 2 ^ bitLen b / 2 ^ 53 * 2 ^ 52 = (2 ^ bitLen a / 2) / (2::real) ^ bitLen b" by simp
  moreover have "(2 ^ bitLen a / 2) / (2::real) ^ bitLen b \<le> ?x"
    using la lb assms(1,2) by (intro frac_le) auto
  ultimately have low: "2 ^ 52 * 2 powi e0 \<le> ?x" by (simp add: mult.commute)
  show ?thesis
  proof (cases "N < 2 ^ 53 * D")
    case True
    then have "e = e0" using assms(4) s by simp
    moreover have "0 < (2::real) powi e0" by simp
    ultimately show ?thesis using low by (simp only: pos_le_divide_eq)
  next
    case False
    then have e: "e = e0 + 1" using assms(4) s by simp
    have "2 ^ 53 * real D \<le> real N" using False by (metis not_less of_nat_le_iff of_nat_mult of_nat_numeral of_nat_power)
    moreover have "0 < real D" using v by simp
    ultimately have "2 ^ 53 \<le> real N / real D" by (simp only: pos_le_divide_eq)
    then have "2 ^ 53 \<le> ?x / 2 powi e0" by (simp only: conjunct2 [OF v])
    moreover have half: "?x / 2 powi e = ?x / 2 powi e0 / 2" by (simp add: e power_int_add)
    ultimately show ?thesis unfolding half by (simp only: le_divide_eq_numeral1 power_Suc2 mult.commute) simp
  qed
qed

lemma float64Of_shape:
  assumes "0 < n" "0 < d"
  obtains m e where "fval (float64Of n d) = real m * 2 powi e" "2 ^ 52 \<le> real n / real d / 2 powi e"
    "m = (case scaled (n div gcd n d) (d div gcd n d) e of (N, D) \<Rightarrow> halfEven N D)"
proof -
  let ?a = "n div gcd n d" and ?b = "d div gcd n d"
  have pos: "0 < ?a" "0 < ?b" using assms by (simp_all add: div_greater_zero_iff gcd_le1_nat gcd_le2_nat)
  have x: "real ?a / real ?b = real n / real d"
    using assms by (simp add: real_of_nat_div)
  define e0 where "e0 = int (bitLen ?a) - int (bitLen ?b) - 53"
  define e where "e = (case scaled ?a ?b e0 of (N, D) \<Rightarrow> if N < 2 ^ 53 * D then e0 else e0 + 1)"
  define m where "m = (case scaled ?a ?b e of (N, D) \<Rightarrow> halfEven N D)"
  have "float64Of n d = (if m = 2 ^ 53 then (2 ^ 52, e + 1) else (m, e))"
    using assms(1) unfolding float64Of_def Let_def m_def e_def e0_def by simp
  then have "fval (float64Of n d) = real m * 2 powi e" by (simp add: fval_def power_int_add)
  moreover have "2 ^ 52 \<le> real n / real d / 2 powi e"
    using exponent_choice [OF pos e0_def e_def] by (simp only: x)
  ultimately show thesis using that m_def by blast
qed

lemma scaled_reduced:
  assumes "0 < n" "0 < d" "scaled (n div gcd n d) (d div gcd n d) e = (N, D)"
  shows "0 < D" "real N / real D = real n / real d / 2 powi e"
proof -
  have "0 < d div gcd n d" using assms by (simp add: div_greater_zero_iff gcd_le2_nat)
  moreover have "real (n div gcd n d) / real (d div gcd n d) = real n / real d" using assms by (simp add: real_of_nat_div)
  ultimately show "0 < D" "real N / real D = real n / real d / 2 powi e" using scaled_val [OF assms(3)] by simp_all
qed

lemma unscale_error:
  fixes p x M :: real
  assumes "0 < p" "\<bar>M - x / p\<bar> \<le> 1 / 2" "2 ^ 52 * p \<le> x"
  shows "\<bar>M * p - x\<bar> \<le> x / 2 ^ 53"
proof -
  have "\<bar>M * p - x\<bar> = \<bar>M - x / p\<bar> * p" using assms(1) by (simp add: abs_mult_pos left_diff_distrib)
  also have "\<dots> \<le> 1 / 2 * p" using assms(1,2) by (intro mult_right_mono) auto
  finally show ?thesis using assms(3) by simp
qed

lemma float64Of_error:
  assumes "0 < n" "0 < d"
  shows "\<bar>fval (float64Of n d) - real n / real d\<bar> \<le> real n / real d / 2 ^ 53"
proof -
  let ?x = "real n / real d"
  obtain m e where f: "fval (float64Of n d) = real m * 2 powi e" "2 ^ 52 \<le> ?x / 2 powi e"
    "m = (case scaled (n div gcd n d) (d div gcd n d) e of (N, D) \<Rightarrow> halfEven N D)"
    using float64Of_shape [OF assms] by blast
  obtain N D where s: "scaled (n div gcd n d) (d div gcd n d) e = (N, D)" by fastforce
  have p: "0 < (2::real) powi e" by simp
  have "\<bar>real m - ?x / 2 powi e\<bar> \<le> 1 / 2"
    using halfEven_error [of D N] scaled_reduced [OF assms s] f(3) s by simp
  moreover have "2 ^ 52 * 2 powi e \<le> ?x" using f(2) by (simp only: pos_le_divide_eq [OF p])
  ultimately show ?thesis unfolding f(1) by (rule unscale_error [OF p])
qed

lemma float64Of_exact:
  assumes "0 < n" "n < 2 ^ 53"
  shows "fval (float64Of n 1) = real n"
proof -
  obtain m e where f: "fval (float64Of n 1) = real m * 2 powi e" "2 ^ 52 \<le> real n / real 1 / 2 powi e"
    "m = (case scaled (n div gcd n 1) (1 div gcd n 1) e of (N, D) \<Rightarrow> halfEven N D)"
    using float64Of_shape [of n 1] assms by auto
  have e: "e \<le> 0"
  proof (rule ccontr)
    assume "\<not> e \<le> 0"
    then have "(2::real) \<le> 2 powi e" using power_int_increasing [of 1 e "2::real"] by simp
    moreover have "2 ^ 52 * 2 powi e \<le> real n" using f(2) pos_le_divide_eq [of "2 powi e :: real"] by simp
    ultimately have "2 ^ 53 \<le> real n" by simp
    moreover have "real n < 2 ^ 53" using assms(2) by (metis of_nat_less_iff of_nat_numeral of_nat_power)
    ultimately show False by simp
  qed
  then have "m = n * 2 ^ nat (- e)" using f(3) by (cases "e = 0") (simp_all add: scaled_def halfEven_one halfEven_one [unfolded One_nat_def])
  then show ?thesis using e f(1) by (cases "e = 0") (simp_all add: two_powi)
qed

lemma float64Of_ratio:
  assumes "0 < n" "0 < d" "0 < q" "c * d = n * q"
  shows "float64Of c q = float64Of n d"
proof -
  have c: "0 < c" using assms by (metis mult_is_0 neq0_conv)
  let ?g = "gcd n d" and ?h = "gcd c q"
  have cop: "coprime (n div ?g) (d div ?g)" "coprime (c div ?h) (q div ?h)"
    using assms c by (auto intro!: div_gcd_coprime)
  have "real (c div ?h) * real (d div ?g) = real (n div ?g) * real (q div ?h)"
    using assms c by (simp add: real_of_nat_div field_simps) (metis of_nat_mult mult.commute)
  then have "(c div ?h) * (d div ?g) = (n div ?g) * (q div ?h)" by (metis of_nat_eq_iff of_nat_mult)
  then have "c div ?h = n div ?g \<and> d div ?g = q div ?h"
    using coprime_crossproduct_nat [of "c div ?h" "q div ?h" "n div ?g" "d div ?g"] cop
    by (simp add: mult.commute)
  with c assms(1) show ?thesis by (simp only: float64Of_def Let_def) simp
qed

lemma fval_pos: "0 < n \<Longrightarrow> 0 < d \<Longrightarrow> 0 < fval (float64Of n d)"
proof -
  assume a: "0 < n" "0 < d"
  then have x: "0 < real n / real d" by simp
  then have "real n / real d / 2 ^ 53 < real n / real d" by (simp add: field_simps)
  with float64Of_error [OF a] x show ?thesis by linarith
qed

end
