(* ===== verification/RenderProm.thy ===== *)
theory RenderProm
  imports RenderHuman GoFloat
begin

text \<open>
  \<open>internal/render/prom.go\<close>: the Prometheus renderer. \<open>sort.Slice\<close> is not stable, so the order it gives to
  results of equal ID is not determined: the sort is a parameter, of which the theorems assume what the
  package documents. Times are counted from the zero \<open>time.Time\<close>.
\<close>

definition metricCheckState :: string where "metricCheckState = ''copyfail_validator_check_state''"
definition metricCheckDurationSeconds :: string where
  "metricCheckDurationSeconds = ''copyfail_validator_check_duration_seconds''"
definition metricSummary :: string where "metricSummary = ''copyfail_validator_summary''"
definition metricRequiredFailures :: string where "metricRequiredFailures = ''copyfail_validator_required_failures''"
definition metricLastRunTimestamp :: string where
  "metricLastRunTimestamp = ''copyfail_validator_last_run_timestamp_seconds''"
definition metricBuildInfo :: string where "metricBuildInfo = ''copyfail_validator_build_info''"

definition promStateValues :: "State list" where
  "promStateValues = [StatePass, StateFail, StateSkip, StateError]"

abbreviation nl :: string where "nl \<equiv> [CHR 0x0A]"

definition writeHelp :: "string \<Rightarrow> string \<Rightarrow> string" where
  "writeHelp name help = ''# HELP '' @ name @ '' '' @ help @ nl"

definition writeType :: "string \<Rightarrow> string \<Rightarrow> string" where
  "writeType name kind = ''# TYPE '' @ name @ '' '' @ kind @ nl"

text \<open>The body of the loop of \<open>promLabelValue\<close>; a byte that is part of no rune comes out as U+FFFD\<close>

definition promRune :: "char + string \<Rightarrow> string" where
  "promRune r = (case r of
       Inl _ \<Rightarrow> replacementRune
     | Inr cs \<Rightarrow>
         if cs = [CHR 0x5C] then [CHR 0x5C, CHR 0x5C]
         else if cs = [CHR 0x22] then [CHR 0x5C, CHR 0x22]
         else if cs = [CHR 0x0A] then [CHR 0x5C, CHR ''n'']
         else cs)"

definition promLabelValue :: "string \<Rightarrow> string" where
  "promLabelValue v = [CHR 0x22] @ concat (map promRune (runes v)) @ [CHR 0x22]"

text \<open>
  \<open>formatFloat (float64(ms) / 1000.0)\<close>: the \<open>int64\<close> becomes a \<open>float64\<close>, the quotient is rounded again, and a whole one is
  printed as an integer, the conversion of which back and forth changes nothing.
\<close>

definition formatMillis :: "int \<Rightarrow> string" where
  "formatMillis ms =
     (let f = floatDiv (float64Of (nat \<bar>ms\<bar>) 1) 1000 in
      if isWhole f then itoa (if ms < 0 then - int (wholePart f) else int (wholePart f))
      else (if ms < 0 then ''-'' else []) @ formatG f)"

definition checkStateRow :: "result \<Rightarrow> State \<Rightarrow> string" where
  "checkStateRow r s =
     metricCheckState @ ''{check_id='' @ promLabelValue (rCheckID r) @ '',severity='' @ promLabelValue (rSeverity r)
       @ '',state='' @ promLabelValue s @ ''} '' @ showNat (if rState r = s then 1 else 0) @ nl"

definition writeCheckStateMetric :: "(result list \<Rightarrow> result list) \<Rightarrow> result list \<Rightarrow> string" where
  "writeCheckStateMetric srt results =
     writeHelp metricCheckState ''Result of one mitigation check (1 = current state).''
     @ writeType metricCheckState ''gauge''
     @ concat (map (\<lambda>r. concat (map (checkStateRow r) promStateValues)) (srt results)) @ nl"

definition writeCheckDurationMetric :: "(result list \<Rightarrow> result list) \<Rightarrow> result list \<Rightarrow> string" where
  "writeCheckDurationMetric srt results =
     writeHelp metricCheckDurationSeconds ''Time spent running each check.''
     @ writeType metricCheckDurationSeconds ''gauge''
     @ concat (map (\<lambda>r. metricCheckDurationSeconds @ ''{check_id='' @ promLabelValue (rCheckID r) @ ''} ''
           @ formatMillis (rDurationMS r) @ nl) (srt results)) @ nl"

definition summaryRow :: "string \<Rightarrow> nat \<Rightarrow> string" where
  "summaryRow outcome n = metricSummary @ ''{outcome='' @ promLabelValue outcome @ ''} '' @ showNat n @ nl"

definition writeSummaryMetric :: "summary \<Rightarrow> string" where
  "writeSummaryMetric s =
     writeHelp metricSummary ''Summary of last validation run.'' @ writeType metricSummary ''gauge''
     @ summaryRow ''pass'' (sPass s) @ summaryRow ''fail'' (sFail s)
     @ summaryRow ''skip'' (sSkip s) @ summaryRow ''error'' (sError s) @ nl"

definition writeRequiredFailuresMetric :: "summary \<Rightarrow> string" where
  "writeRequiredFailuresMetric s =
     writeHelp metricRequiredFailures ''Required-check failures (drives paging).''
     @ writeType metricRequiredFailures ''gauge''
     @ metricRequiredFailures @ '' '' @ showNat (bFail (sRequired s)) @ nl @ nl"

text \<open>\<open>Time.Unix\<close>: the seconds between year 1 and 1970 are subtracted\<close>

definition unixSeconds :: "gotime \<Rightarrow> int" where
  "unixSeconds t = t div 1000000000 - 62135596800"

definition writeLastRunMetric :: "report \<Rightarrow> string" where
  "writeLastRunMetric rep =
     writeHelp metricLastRunTimestamp ''Unix time of last successful run.''
     @ writeType metricLastRunTimestamp ''gauge''
     @ metricLastRunTimestamp @ '' '' @ itoa (unixSeconds (repGenerated rep)) @ nl @ nl"

definition writeBuildInfoMetric :: "string \<Rightarrow> toolInfo \<Rightarrow> string" where
  "writeBuildInfoMetric goVersion t =
     writeHelp metricBuildInfo ''Build info as labels (value always 1).'' @ writeType metricBuildInfo ''gauge''
     @ metricBuildInfo @ ''{version='' @ promLabelValue (tVersion t) @ '',commit='' @ promLabelValue (tCommit t)
     @ '',go_version='' @ promLabelValue goVersion @ ''} 1'' @ nl"

definition promText :: "(result list \<Rightarrow> result list) \<Rightarrow> string \<Rightarrow> report \<Rightarrow> string" where
  "promText srt goVersion rep =
     writeCheckStateMetric srt (repResults rep)
     @ writeCheckDurationMetric srt (repResults rep)
     @ writeSummaryMetric (repSummary rep)
     @ writeRequiredFailuresMetric (repSummary rep)
     @ writeLastRunMetric rep
     @ writeBuildInfoMetric goVersion (repTool rep)"

definition renderPrometheus ::
    "'w writeEnv \<Rightarrow> (result list \<Rightarrow> result list) \<Rightarrow> string \<Rightarrow> 'w renderer" where
  "renderPrometheus env srt goVersion w rep = flushAll env w (promText srt goVersion rep)"

end
