(* ===== verification/RenderInit.thy ===== *)
theory RenderInit
  imports RenderJson RenderProm
begin

text \<open>
  \<open>internal/render/init.go\<close>: loading the package registers the four renderers, after which every format that
  \<open>ParseFormat\<close> yields is dispatched to its renderer.
\<close>

definition initRenderers ::
    "'w writeEnv \<Rightarrow> (result list \<Rightarrow> result list) \<Rightarrow> string \<Rightarrow> 'w renderer registry \<Rightarrow> 'w renderer registry" where
  "initRenderers env srt goVersion g =
     (let g1 = register FormatHuman (renderHuman env) g;
          g2 = register FormatJSON (renderJSON env) g1;
          g3 = register FormatSARIF (renderSARIF env) g2
      in register FormatPrometheus (renderPrometheus env srt goVersion) g3)"

text \<open>A writer that keeps in memory whatever it is given, and a report of one failed check\<close>

definition memWriter :: "(string \<Rightarrow> string) \<Rightarrow> string writeEnv" where
  "memWriter getenv = \<lparr>weWrite = (\<lambda>w b. ((int (length b), None), w @ b)), weFile = (\<lambda>_. None), weGetenv = getenv\<rparr>"

lemma flush_memWriter: "flushAll (memWriter getenv) w b = ((int (length b), None), w @ b)"
  by (simp add: flushAll_def memWriter_def)

definition demoReport :: report where
  "demoReport =
     (let r = zeroResult\<lparr>rCheckID := ''c1'', rTitle := ''T'', rState := StateFail, rSeverity := SeverityRequired\<rparr>
      in \<lparr>repGenerated = 0,
        repHost = \<lparr>hHostname = ''h'', hKernelRelease = [], hOSRelease = [], hOSVersion = [], hArch = []\<rparr>,
        repTool = \<lparr>tName = ''t'', tVersion = ''v'', tCommit = [], tBuildDate = []\<rparr>,
        repSchemaVersion = schemaVersionCurrent, repResults = [r], repSummary = newSummary [r]\<rparr>)"

lemma liveMap_init:
  "liveMap (initRenderers env srt goVersion g) = (liveMap g)(FormatHuman \<mapsto> renderHuman env,
     FormatJSON \<mapsto> renderJSON env, FormatSARIF \<mapsto> renderSARIF env, FormatPrometheus \<mapsto> renderPrometheus env srt goVersion)"
  by (simp add: initRenderers_def Let_def)

text \<open>The registry of a program that never loads the package holds nothing\<close>

lemma liveMap_empty: "liveMap emptyRegistry = Map.empty"
  by (simp add: liveMap_def emptyRegistry_def)

lemma nameable_cases:
  assumes "parseFormat s = Inr f"
  obtains "toLower s = ''human''" "f = FormatHuman" | "toLower s = ''json''" "f = FormatJSON"
  | "toLower s = ''sarif''" "f = FormatSARIF" | "toLower s = ''prometheus''" "f = FormatPrometheus"
  using assms by (auto simp: parseFormat_def Let_def split: if_splits)

section \<open>The contract of a renderer\<close>

text \<open>
  What \<open>writeto.go\<close> expects of a renderer: it turns the report into one document, or fails with \<open>ErrEncode\<close> without
  touching the writer, and hands the document to the writer in a single call.
\<close>

locale document_renderer =
  fixes render :: "'w writeEnv \<Rightarrow> 'w renderer"
    and document :: "'w writeEnv \<Rightarrow> 'w \<Rightarrow> report \<Rightarrow> goerr + string"
  assumes renders: "render env w rep = (case document env w rep of Inl e \<Rightarrow> ((0, Some e), w) | Inr t \<Rightarrow> flushAll env w t)"
    and encode_error: "document env w rep = Inl e \<Longrightarrow> errIs e ErrEncode"
    and nonempty: "document env w rep = Inr t \<Longrightarrow> t \<noteq> []"
begin

lemma written:
  "render env w rep = ((n, None), w') \<Longrightarrow>
    \<exists>t. document env w rep = Inr t \<and> weWrite env w t = ((n, None), w') \<and> n = int (length t)"
  using nonempty [of env w rep]
  by (auto simp: renders flushAll_def split: sum.splits if_splits prod.splits option.splits)

lemma failed:
  "render env w rep = ((n, Some e), w') \<Longrightarrow>
    errIs e ErrEncode \<and> n = 0 \<and> w' = w
    \<or> (\<exists>t e'. document env w rep = Inr t \<and> weWrite env w t = ((n, e'), w')
        \<and> (e' \<noteq> None \<and> errIs e ErrRender \<or> e' = None \<and> n \<noteq> int (length t) \<and> errIs e ErrShortWrite))"
  using nonempty [of env w rep] encode_error [of env w rep]
  by (auto simp: renders flushAll_def split: sum.splits if_splits prod.splits option.splits)

end

definition humanDocument :: "'w writeEnv \<Rightarrow> 'w \<Rightarrow> report \<Rightarrow> goerr + string" where
  "humanDocument env w rep = Inr (humanText rep (shouldColor env w))"

definition jsonDocument :: "'w writeEnv \<Rightarrow> 'w \<Rightarrow> report \<Rightarrow> goerr + string" where
  "jsonDocument env w rep =
     (if \<not> reportEncodable rep then Inl (encodeErr timeError)
      else if weGetenv env envJSONCompact = ''1'' then Inr (marshal (reportJson rep) @ [CHR 0x0A])
      else case indentDoc (reportJson rep) of Inl e \<Rightarrow> Inl (encodeErr e) | Inr t \<Rightarrow> Inr (t @ [CHR 0x0A]))"

definition sarifDocument :: "'w writeEnv \<Rightarrow> 'w \<Rightarrow> report \<Rightarrow> goerr + string" where
  "sarifDocument env w rep = (case indentDoc (sarifDoc rep) of Inl e \<Rightarrow> Inl (encodeErr e) | Inr t \<Rightarrow> Inr (t @ [CHR 0x0A]))"

definition promDocument ::
    "(result list \<Rightarrow> result list) \<Rightarrow> string \<Rightarrow> 'w writeEnv \<Rightarrow> 'w \<Rightarrow> report \<Rightarrow> goerr + string" where
  "promDocument srt goVersion env w rep = Inr (promText srt goVersion rep)"

lemma encodeErr_is: "errIs (encodeErr e) ErrEncode"
  by (simp add: encodeErr_def)

interpretation human: document_renderer renderHuman humanDocument
  by unfold_locales (auto simp: renderHuman_def humanDocument_def humanText_def writeFooter_def Let_def)

interpretation json: document_renderer renderJSON jsonDocument
  by unfold_locales
    (auto simp: renderJSON_def jsonDocument_def marshalReport_def encodeErr_is split: sum.splits if_splits)

interpretation sarif: document_renderer renderSARIF sarifDocument
  by unfold_locales (auto simp: renderSARIF_def sarifDocument_def encodeErr_is split: sum.splits)

interpretation prom: document_renderer "\<lambda>env. renderPrometheus env srt goVersion" "promDocument srt goVersion"
  for srt goVersion
  by unfold_locales
    (auto simp: renderPrometheus_def promDocument_def promText_def writeCheckStateMetric_def writeHelp_def)

definition formatDocument ::
    "(result list \<Rightarrow> result list) \<Rightarrow> string \<Rightarrow> Format \<Rightarrow> 'w writeEnv \<Rightarrow> 'w \<Rightarrow> report \<Rightarrow> goerr + string" where
  "formatDocument srt goVersion f =
     (if f = FormatHuman then humanDocument else if f = FormatJSON then jsonDocument
      else if f = FormatSARIF then sarifDocument else promDocument srt goVersion)"

definition formatRenderer ::
    "(result list \<Rightarrow> result list) \<Rightarrow> string \<Rightarrow> Format \<Rightarrow> 'w writeEnv \<Rightarrow> 'w renderer" where
  "formatRenderer srt goVersion f =
     (if f = FormatHuman then renderHuman else if f = FormatJSON then renderJSON
      else if f = FormatSARIF then renderSARIF else (\<lambda>env. renderPrometheus env srt goVersion))"

lemma formatRenderer_document: "document_renderer (formatRenderer srt goVersion f) (formatDocument srt goVersion f)"
  by (simp add: formatRenderer_def formatDocument_def human.document_renderer_axioms json.document_renderer_axioms
      sarif.document_renderer_axioms prom.document_renderer_axioms)

lemma nameable_known: "parseFormat s = Inr f \<Longrightarrow> knownFormat f"
  by (erule nameable_cases) (simp_all add: knownFormat_def)

lemma writeTo_init: "knownFormat f \<Longrightarrow> writeTo (initRenderers env srt goVersion g) rep w f = formatRenderer srt goVersion f env w rep"
  by (auto simp: writeTo_def liveMap_init formatRenderer_def knownFormat_def)

text \<open>
  Property C38: every format the user can name is written by its renderer, and every renderer keeps the contract. Without
  an error exactly the document of that format has been handed to the writer in one call, and the count returned is its
  length. With an error either the report could not be encoded and the writer is untouched, or the writer failed
  (\<open>ErrRender\<close>) or took less than the document (\<open>ErrShortWrite\<close>). A program that never loads the package gets
  \<open>ErrRendererNotRegistered\<close> and writes nothing.
\<close>

theorem renderer_contract:
  assumes "parseFormat s = Inr f"
  shows "(writeTo (initRenderers env srt goVersion g) rep w f = ((n, None), w') \<longrightarrow>
      (\<exists>t. formatDocument srt goVersion f env w rep = Inr t \<and> weWrite env w t = ((n, None), w') \<and> n = int (length t)))
    \<and> (writeTo (initRenderers env srt goVersion g) rep w f = ((n, Some e), w') \<longrightarrow>
      errIs e ErrEncode \<and> n = 0 \<and> w' = w
      \<or> (\<exists>t e'. formatDocument srt goVersion f env w rep = Inr t \<and> weWrite env w t = ((n, e'), w')
          \<and> (e' \<noteq> None \<and> errIs e ErrRender \<or> e' = None \<and> n \<noteq> int (length t) \<and> errIs e ErrShortWrite)))
    \<and> (\<exists>e. writeTo emptyRegistry rep w f = ((0, Some e), w) \<and> errIs e ErrRendererNotRegistered)"
proof -
  note k = nameable_known [OF assms]
  have "writeTo emptyRegistry rep w f = ((0, Some e), w) \<and> errIs e ErrRendererNotRegistered"
    if "e = wrapErr [] (sentinelErr ErrRendererNotRegistered)
      ('': '' @ goQuote f @ '' (did you forget to import internal/render?)'')" for e
    using k by (simp add: writeTo_def liveMap_empty that)
  then show ?thesis
    unfolding writeTo_init [OF k]
    using document_renderer.written [OF formatRenderer_document [of srt goVersion f], of env w rep n w']
      document_renderer.failed [OF formatRenderer_document [of srt goVersion f], of env w rep n e w']
    by auto
qed

theorem renderer_contract_witness:
  "writeTo (initRenderers (memWriter (\<lambda>_. [])) id ''go'' emptyRegistry) demoReport [] FormatSARIF
     = ((int (length (jsonIndent (marshal (sarifDoc demoReport)))) + 1, None), jsonIndent (marshal (sarifDoc demoReport)) @ [CHR 0x0A])
   \<and> (\<exists>t. formatDocument id ''go'' FormatSARIF (memWriter (\<lambda>_. [])) [] demoReport = Inr t)"
proof -
  have l: "toLower ''Sarif'' = ''sarif''" by code_simp
  then have f: "parseFormat ''Sarif'' = Inr FormatSARIF" by (simp add: parseFormat_def)
  have "nest (sarifDoc demoReport) \<le> 10000"
    by (simp add: sarifDoc_members sarifInvocationJson_def sarifRuleJson_def sarifResultJson_def multiText_def demoReport_def
        Let_def buildSARIFRules_def buildSARIFResults_def zeroResult_def omitEmpty_def)
  then have w: "writeTo (initRenderers (memWriter (\<lambda>_. [])) id ''go'' emptyRegistry) demoReport [] FormatSARIF
     = ((int (length (jsonIndent (marshal (sarifDoc demoReport)))) + 1, None), jsonIndent (marshal (sarifDoc demoReport)) @ [CHR 0x0A])"
    by (simp add: writeTo_init knownFormat_def formatRenderer_def renderSARIF_def indentDoc_def maxNestingDepth_def flush_memWriter)
  with renderer_contract [OF f, THEN conjunct1, rule_format, OF w] show ?thesis by blast
qed

end
