(* ===== verification/JsonDecode.thy ===== *)
theory JsonDecode
  imports JsonLayout
begin

text \<open>
  What the decoder can return: numbers the lexer accepts, well-formed strings, objects with distinct keys, nested no
  deeper than the scanner allows. It is an invariant of the scanner's state.
\<close>

section \<open>Strings\<close>

lemma validUTF8_Nil [simp]: "validUTF8 []"
  by (simp add: validUTF8_def)

lemma validUTF8_rune: "runeBytes cs \<Longrightarrow> validUTF8 (cs @ s) \<longleftrightarrow> validUTF8 s"
  by (simp add: validUTF8_def runes_rune)

lemma byte_char_of: "n < 256 \<Longrightarrow> byte (char_of n) = n"
  by simp

lemma contByte_low: "contByte (char_of (128 + n mod 64))" for n :: nat
proof -
  have "n mod 64 < 64" by simp
  then have "128 + n mod 64 < 256" by linarith
  with \<open>n mod 64 < 64\<close> show ?thesis by (simp add: contByte_def)
qed

lemma char_of_const: "k < 256 \<Longrightarrow> char_of k = c \<longleftrightarrow> k = byte c" for k :: nat
  by (metis byte_char_of char_of_char)

lemma secondOK_three:
  fixes n :: nat
  assumes "2048 \<le> n" "n < 65536" "\<not> (55296 \<le> n \<and> n \<le> 57343)"
  shows "secondOK (char_of (224 + n div 4096)) (char_of (128 + n div 64 mod 64))"
proof -
  define a b where "a = n div 4096" and "b = n div 64 mod 64"
  have a: "a < 16" using assms(2) by (simp add: a_def div_less_iff_less_mult)
  have b: "b < 64" by (simp add: b_def)
  have n: "n div 64 = 64 * a + b"
    using div_mult2_eq [of n 64 64] mult_div_mod_eq [of 64 "n div 64"] by (simp add: a_def b_def)
  have "a = 0 \<Longrightarrow> 32 \<le> b" using n assms(1) by (auto simp: a_def)
  moreover have "a = 13 \<Longrightarrow> b < 32"
  proof (rule ccontr)
    assume "a = 13" "\<not> b < 32"
    then have "864 \<le> n div 64" "n div 64 \<le> 895" using n b by simp_all
    moreover have "n mod 64 < 64" by simp
    ultimately show False using assms(3) mult_div_mod_eq [of 64 n] by linarith
  qed
  ultimately show ?thesis
    using a b contByte_low [of b]
    by (auto simp: secondOK_def byteIn_def contByte_def char_of_const simp flip: a_def b_def)
qed

lemma secondOK_four:
  fixes n :: nat
  assumes "65536 \<le> n" "n \<le> 1114111"
  shows "secondOK (char_of (240 + n div 262144)) (char_of (128 + n div 4096 mod 64))"
proof -
  define a b where "a = n div 262144" and "b = n div 4096 mod 64"
  have a: "a < 5" using assms(2) by (simp add: a_def div_less_iff_less_mult)
  have b: "b < 64" by (simp add: b_def)
  have n: "n div 4096 = 64 * a + b"
    using div_mult2_eq [of n 4096 64] mult_div_mod_eq [of 64 "n div 4096"] by (simp add: a_def b_def)
  have "a = 0 \<Longrightarrow> 16 \<le> b" using n assms(1) by (auto simp: a_def)
  moreover have "a = 4 \<Longrightarrow> b < 16"
  proof -
    assume "a = 4"
    moreover have "n div 4096 \<le> 271" using assms(2) div_le_mono [of n 1114111 4096] by simp
    ultimately show "b < 16" using n by simp
  qed
  ultimately show ?thesis
    using a b
    by (auto simp: secondOK_def byteIn_def contByte_def char_of_const simp flip: a_def b_def)
qed

lemma runeBytes_encode: "runeBytes (encodeRune n)"
proof -
  consider "n < 0x80" | "0x80 \<le> n" "n < 0x800" | "0x10FFFF < n \<or> 0xD800 \<le> n \<and> n \<le> 0xDFFF" "0x800 \<le> n"
    | "0x800 \<le> n" "n < 0x10000" "\<not> (0xD800 \<le> n \<and> n \<le> 0xDFFF)" | "0x10000 \<le> n" "n \<le> 0x10FFFF"
    by linarith
  then show ?thesis
  proof cases
    case 1
    then show ?thesis by (simp add: encodeRune_def runeBytes_def runeLen_intros)
  next
    case 2
    then have "n div 64 < 32" "2 \<le> n div 64" by (auto simp: div_less_iff_less_mult)
    then have "byteIn 0xC2 0xDF (char_of (192 + n div 64))" by (simp add: byteIn_def)
    with 2 show ?thesis by (simp add: encodeRune_def runeBytes_def runeLen_intros contByte_low)
  next
    case 3
    then show ?thesis by (auto simp: encodeRune_def runeBytes_replacement)
  next
    case 4
    then have "n div 4096 < 16" by (simp add: div_less_iff_less_mult)
    then have "byteIn 0xE0 0xEF (char_of (224 + n div 4096))" by (simp add: byteIn_def)
    with 4 secondOK_three [OF 4] show ?thesis
      by (auto simp: encodeRune_def runeBytes_def runeLen_intros contByte_low)
  next
    case 5
    then have "n div 262144 < 5" by (simp add: div_less_iff_less_mult)
    then have "byteIn 0xF0 0xF4 (char_of (240 + n div 262144))" by (simp add: byteIn_def)
    with 5 secondOK_four [OF 5] show ?thesis
      by (auto simp: encodeRune_def runeBytes_def runeLen_intros contByte_low)
  qed
qed

lemma runeBytes_ascii: "byte c < 128 \<Longrightarrow> runeBytes [c]"
  by (simp add: runeBytes_def runeLen_intros)

definition ascii :: "string \<Rightarrow> bool" where
  "ascii s \<longleftrightarrow> list_all (\<lambda>c. byte c < 128) s"

lemma toValid_ascii: "ascii s \<Longrightarrow> toValidUTF8 s = s"
proof (induction s)
  case (Cons c s)
  then have "runes (c # s) = Inr [c] # runes s" using runes_rune [OF runeBytes_ascii, of c s] by (simp add: ascii_def)
  with Cons show ?case by (simp add: toValidUTF8_def runeText_def ascii_def)
qed (simp add: toValidUTF8_def)

lemma unicodeEscape_rune: "unicodeEscape s = Some (out, r) \<Longrightarrow> runeBytes out"
  by (auto simp: unicodeEscape_def runeBytes_encode runeBytes_replacement split: option.splits if_splits)

lemma escapeSeq_rune: "escapeSeq s = Some (out, r) \<Longrightarrow> runeBytes out"
  by (auto simp: escapeSeq_def runeBytes_ascii dest: unicodeEscape_rune split: list.splits if_splits)

lemma strBody_valid: "strBody s = Some (v, r) \<Longrightarrow> validUTF8 v"
proof (induction s arbitrary: v r rule: strBody.induct)
  case (2 c s)
  show ?case
  proof (cases "c = CHR 0x22")
    case False
    obtain out s' v' where "strBody s' = Some (v', r)" "v = out @ v'" "runeBytes out" "validUTF8 v'"
      using 2 False escapeSeq_rune runeBytes_replacement runeBytes_take [of "c # s"]
      by (auto simp: strBody.simps(2) [of c s] split: if_splits option.splits)
    then show ?thesis by (simp add: validUTF8_rune)
  qed (use 2 in \<open>simp add: strBody.simps(2)\<close>)
qed simp

section \<open>Numbers\<close>

text \<open>What follows the digits of a number\<close>

definition digitFree :: "string \<Rightarrow> bool" where
  "digitFree s \<longleftrightarrow> s = [] \<or> \<not> isDigit (hd s)"

lemma digits_parts: "digits s = (a, b) \<longleftrightarrow> s = a @ b \<and> list_all isDigit a \<and> digitFree b"
proof -
  have "digits s = (a, b)" if "s = a @ b" "list_all isDigit a" "digitFree b"
    using that by (cases b) (simp_all add: digitFree_def list_all_iff)
  moreover have "list_all isDigit (takeWhile isDigit s)" "digitFree (dropWhile isDigit s)"
    using hd_dropWhile [of isDigit s] by (auto simp: digitFree_def list_all_iff dest: set_takeWhileD)
  ultimately show ?thesis by auto
qed

lemma digitFree_append: "digitFree f \<Longrightarrow> digitFree t \<Longrightarrow> digitFree (f @ t)"
  by (cases f) (auto simp: digitFree_def)

lemma digitFree_consts [simp]: "digitFree []" "digitFree (CHR ''.'' # s)" "digitFree (CHR ''e'' # s)" "digitFree (CHR ''E'' # s)"
  by (simp_all add: digitFree_def isDigit_def)

lemma digits_again: "digits s = (a, b) \<Longrightarrow> digitFree t \<Longrightarrow> digits (a @ t) = (a, t)"
  by (simp only: digits_parts)

lemma lexInt_again: "lexInt s = Some (i, r) \<Longrightarrow> digitFree t \<Longrightarrow> lexInt (i @ t) = Some (i, t)"
proof -
  assume i: "lexInt s = Some (i, r)" and t: "digitFree t"
  show ?thesis
  proof (cases "\<exists>q. s = CHR ''0'' # q")
    case False
    then obtain c q where s: "s = c # q" "isDigit c" "c \<noteq> CHR ''0''" and d: "digits s = (i, r)"
      using i by (auto simp: lexInt_def split: list.splits if_splits simp del: digits.simps)
    then obtain i' where i': "i = c # i'" by (cases i) auto
    with digits_again [OF d t] s show ?thesis by (simp add: lexInt_def del: digits.simps)
  qed (use i in \<open>auto simp: lexInt_def\<close>)
qed

lemma lexExp_again: "lexExp s = Some (e, r) \<Longrightarrow> lexExp e = Some (e, []) \<and> (e = [] \<or> hd e \<in> {CHR ''e'', CHR ''E''})"
proof (cases "\<exists>c y. s = c # y \<and> (c = CHR ''e'' \<or> c = CHR ''E'')")
  case True
  then obtain c y where s: "s = c # y" "c = CHR ''e'' \<or> c = CHR ''E''" by blast
  assume l: "lexExp s = Some (e, r)"
  define sign where "sign = (if y \<noteq> [] \<and> (hd y = CHR ''+'' \<or> hd y = CHR ''-'') then [hd y] else [])"
  obtain ds r' where d: "digits (drop (length sign) y) = (ds, r')" by (metis prod.collapse)
  with l s have e: "e = c # sign @ ds" "ds \<noteq> []"
    unfolding lexExp_def s(1) list.case sign_def [symmetric] Let_def by (auto split: if_splits simp del: digits.simps)
  have ds: "digits ds = (ds, [])" using digits_again [OF d, of "[]"] by simp
  have "isDigit (hd ds)" using d e(2) by (auto simp: digits_parts list_all_iff simp del: digits.simps)
  then have "hd ds \<noteq> CHR ''+'' \<and> hd ds \<noteq> CHR ''-''" by (auto simp: isDigit_def)
  then have "(if sign @ ds \<noteq> [] \<and> (hd (sign @ ds) = CHR ''+'' \<or> hd (sign @ ds) = CHR ''-'') then [hd (sign @ ds)] else []) = sign"
    using e(2) by (auto simp: sign_def)
  then have "lexExp e = Some (e, [])"
    using s(2) ds e by (auto simp: lexExp_def Let_def simp del: digits.simps)
  with s(2) e show ?thesis by auto
qed (auto simp: lexExp_def split: list.splits if_splits)

lemma lexFrac_again:
  "lexFrac s = Some (f, r) \<Longrightarrow> t = [] \<or> hd t \<in> {CHR ''e'', CHR ''E''} \<Longrightarrow> lexFrac (f @ t) = Some (f, t) \<and> digitFree (f @ t)"
proof (cases "\<exists>y. s = CHR ''.'' # y")
  case True
  assume l: "lexFrac s = Some (f, r)" and t: "t = [] \<or> hd t \<in> {CHR ''e'', CHR ''E''}"
  from t have df: "digitFree t" by (cases t) auto
  from True obtain y ds r' where y: "s = CHR ''.'' # y" "digits y = (ds, r')" by (metis prod.collapse)
  with l have "f = CHR ''.'' # ds" "ds \<noteq> []" by (auto simp: lexFrac_def split: if_splits simp del: digits.simps)
  with digits_again [OF y(2) df] show ?thesis by (simp add: lexFrac_def del: digits.simps)
next
  case False
  assume "lexFrac s = Some (f, r)" "t = [] \<or> hd t \<in> {CHR ''e'', CHR ''E''}"
  with False show ?thesis by (cases t) (auto simp: lexFrac_def split: list.splits if_splits)
qed

lemma lexNumber_wf: "lexNumber s = Some (n, r) \<Longrightarrow> wfNumber n"
proof -
  assume x: "lexNumber s = Some (n, r)"
  define sign where "sign = (if s \<noteq> [] \<and> hd s = CHR ''-'' then [hd s] else [])"
  obtain i s1 f s2 e where l: "lexInt (drop (length sign) s) = Some (i, s1)" "lexFrac s1 = Some (f, s2)"
    "lexExp s2 = Some (e, r)" "n = sign @ i @ f @ e"
    using x by (auto simp: lexNumber_def Let_def sign_def split: option.splits)
  have e: "lexExp e = Some (e, [])" "e = [] \<or> hd e \<in> {CHR ''e'', CHR ''E''}" using lexExp_again [OF l(3)] by auto
  have f: "lexFrac (f @ e) = Some (f, e)" "digitFree (f @ e)" using lexFrac_again [OF l(2) e(2)] by auto
  have i: "lexInt (i @ f @ e) = Some (i, f @ e)" by (rule lexInt_again [OF l(1) f(2)])
  then obtain c i' where "i @ f @ e = c # i'" "c = CHR ''0'' \<or> isDigit c"
    by (auto simp: lexInt_def split: list.splits if_splits)
  then have "i @ f @ e \<noteq> []" "hd (i @ f @ e) \<noteq> CHR ''-''" by (auto simp: isDigit_def)
  then have sg: "(if n \<noteq> [] \<and> hd n = CHR ''-'' then [hd n] else []) = sign"
    using l(4) by (auto simp: sign_def)
  show ?thesis
    unfolding wfNumber_def lexNumber_def sg Let_def using i f e l(4) by simp
qed

section \<open>Values\<close>

text \<open>The values of Go's \<open>any\<close> the decoder builds\<close>

fun goValue :: "json \<Rightarrow> bool" where
  "goValue (JNumber n) \<longleftrightarrow> wfNumber n"
| "goValue (JString s) \<longleftrightarrow> validUTF8 s"
| "goValue (JArray vs) \<longleftrightarrow> list_all goValue vs"
| "goValue (JObject ms) \<longleftrightarrow> distinct (map fst ms) \<and> list_all (\<lambda>(k, v). validUTF8 k \<and> goValue v) ms"
| "goValue _ \<longleftrightarrow> True"

lemma goValue_numbers: "goValue v \<Longrightarrow> wfNumbers v"
  by (induction v) (auto simp: list_all_iff snds.simps)

lemma mapSet_keys [simp]: "fst ` set (mapSet k v ms) = insert k (fst ` set ms)"
  by (induction k v ms rule: mapSet.induct) auto

lemma mapSet_members: "(k', v') \<in> set (mapSet k v ms) \<Longrightarrow> (k', v') = (k, v) \<or> (k', v') \<in> set ms"
  by (induction k v ms rule: mapSet.induct) (auto split: if_splits)

lemma mapSet_distinct: "distinct (map fst ms) \<Longrightarrow> distinct (map fst (mapSet k v ms))"
  by (induction k v ms rule: mapSet.induct) auto

lemma mapSet_fresh: "k \<notin> fst ` set ms \<Longrightarrow> mapSet k v ms = ms @ [(k, v)]"
  by (induction k v ms rule: mapSet.induct) auto

lemma mapOf_distinct: "distinct (map fst (acc @ ms)) \<Longrightarrow> mapOf ms acc = acc @ ms"
  by (induction ms arbitrary: acc) (auto simp: mapOf_def mapSet_fresh)

lemma denoted_goValue: "goValue v \<Longrightarrow> denoted v = v"
proof (induction v)
  case (JObject ms)
  have "map (\<lambda>(k, v). (toValidUTF8 k, denoted v)) ms = ms"
    by (rule map_idI) (use JObject in \<open>auto simp: list_all_iff snds.simps toValidUTF8_valid\<close>)
  with JObject.prems show ?case by (simp add: mapOf_distinct)
qed (auto simp: toValidUTF8_valid list_all_iff intro: map_idI)

section \<open>The invariant of the scanner\<close>

text \<open>A value that fits under \<open>n\<close> open brackets, and a stack whose frames hold such values\<close>

definition fits :: "nat \<Rightarrow> json \<Rightarrow> bool" where
  "fits n v \<longleftrightarrow> goValue v \<and> n + nest v \<le> 10000"

fun stackInv :: "frame list \<Rightarrow> bool" where
  "stackInv [] \<longleftrightarrow> True"
| "stackInv (FArray vs # st) \<longleftrightarrow> Suc (length st) \<le> 10000 \<and> list_all (fits (Suc (length st))) vs \<and> stackInv st"
| "stackInv (FObject ms k # st) \<longleftrightarrow> Suc (length st) \<le> 10000 \<and> distinct (map fst ms)
     \<and> list_all (\<lambda>(k, v). validUTF8 k \<and> fits (Suc (length st)) v) ms \<and> validUTF8 k \<and> stackInv st"

text \<open>While a key is read the members are in the mode, not in the frame\<close>

fun modeInv :: "smode \<Rightarrow> frame list \<Rightarrow> bool" where
  "modeInv (MKey ms b) st \<longleftrightarrow> st \<noteq> [] \<and> distinct (map fst ms)
     \<and> list_all (\<lambda>(k, v). validUTF8 k \<and> fits (length st) v) ms"
| "modeInv (MValue True) st \<longleftrightarrow> st \<noteq> []"
| "modeInv _ st \<longleftrightarrow> True"

fun statusInv :: "status \<Rightarrow> bool" where
  "statusInv (Running m st) \<longleftrightarrow> stackInv st \<and> modeInv m st"
| "statusInv (Finished v) \<longleftrightarrow> fits 0 v"
| "statusInv Failed \<longleftrightarrow> True"

lemma stackInv_tl: "stackInv st \<Longrightarrow> stackInv (tl st) \<and> length st \<le> 10000"
  by (cases st rule: stackInv.cases) auto

lemma finish_inv: "stackInv st \<Longrightarrow> fits (length st) v \<Longrightarrow> statusInv (finishValue v st)"
proof (cases st rule: stackInv.cases)
  case (3 ms k st')
  assume "stackInv st" "fits (length st) v"
  with 3 show ?thesis
    by (auto simp: finishValue_def list_all_iff mapSet_distinct dest!: mapSet_members)
qed (auto simp: finishValue_def)

lemma fits_array: "list_all (fits (Suc n)) vs \<Longrightarrow> Suc n \<le> 10000 \<Longrightarrow> fits n (JArray (rev vs))"
proof -
  assume a: "list_all (fits (Suc n)) vs" "Suc n \<le> 10000"
  have "Suc n + foldr max (map nest xs) 0 \<le> 10000" if "set xs \<subseteq> set vs" for xs
    using that a by (induction xs) (auto simp: fits_def list_all_iff)
  from this [of "rev vs"] a show ?thesis by (auto simp: fits_def list_all_iff)
qed

lemma fits_object:
  "list_all (\<lambda>(k, v). validUTF8 k \<and> fits (Suc n) v) ms \<Longrightarrow> distinct (map fst ms) \<Longrightarrow> Suc n \<le> 10000 \<Longrightarrow> fits n (JObject ms)"
proof -
  assume a: "list_all (\<lambda>(k, v). validUTF8 k \<and> fits (Suc n) v) ms" "distinct (map fst ms)" "Suc n \<le> 10000"
  have "Suc n + foldr max (map (\<lambda>(k, v). nest v) xs) 0 \<le> 10000" if "set xs \<subseteq> set ms" for xs
    using that a by (induction xs) (auto simp: fits_def list_all_iff)
  from this [of ms] a show ?thesis by (auto simp: fits_def list_all_iff)
qed

text \<open>The tokens the lexer yields\<close>

fun tokenOK :: "token \<Rightarrow> bool" where
  "tokenOK (TLit v) \<longleftrightarrow> v = JNull \<or> (\<exists>b. v = JBool b)"
| "tokenOK (TNum n) \<longleftrightarrow> wfNumber n"
| "tokenOK (TStr s) \<longleftrightarrow> validUTF8 s"
| "tokenOK (TPunct c) \<longleftrightarrow> True"

lemma nextToken_ok: "nextToken s = Some (t, r) \<Longrightarrow> tokenOK t"
  by (auto simp: nextToken_def lexWord_def simp del: dropWhile_eq_Cons_conv
      dest: strBody_valid lexNumber_wf split: list.splits if_splits)

lemma push_inv:
  "stackInv st \<Longrightarrow> statusInv (push (MValue True) (FArray []) st) \<and> statusInv (push (MKey [] True) (FObject [] []) st)"
  by (simp add: push_def maxNestingDepth_def)

lemma step_value:
  assumes "stackInv st" "modeInv (MValue b) st" "tokenOK t"
  shows "statusInv (stepToken (MValue b) st t)"
proof -
  have l: "length st \<le> 10000" using stackInv_tl [OF assms(1)] by simp
  have "fits (length (tl st)) (JArray [])" if b
    using that assms(2) l by (cases st) (auto simp: fits_def)
  then show ?thesis
    using assms(1,3) push_inv [OF assms(1)] l stackInv_tl [OF assms(1)]
    by (cases t) (auto simp: stepToken_def intro!: finish_inv simp: fits_def)
qed

lemma step_key:
  assumes "stackInv st" "modeInv (MKey ms b) st" "tokenOK t"
  shows "statusInv (stepToken (MKey ms b) st t)"
proof -
  obtain f st' where st: "st = f # st'" using assms(2) by (cases st) auto
  have "stackInv st'" "Suc (length st') \<le> 10000" using stackInv_tl [OF assms(1)] st by auto
  with st assms(2,3) show ?thesis
    by (cases t) (auto simp: stepToken_def fits_def intro!: finish_inv)
qed

lemma step_inv: "stackInv st \<Longrightarrow> modeInv m st \<Longrightarrow> tokenOK t \<Longrightarrow> statusInv (stepToken m st t)"
proof (cases m)
  case MAfter
  assume s: "stackInv st"
  with MAfter show ?thesis
    by (cases st rule: stackInv.cases)
      (auto simp: stepToken_def intro!: finish_inv fits_array fits_object)
qed (auto simp: step_value step_key, simp add: stepToken_def)

lemma scan_inv: "stackInv st \<Longrightarrow> modeInv m st \<Longrightarrow> scanTokens m st s = Some v \<Longrightarrow> fits 0 v"
proof (induction m st s rule: scanTokens.induct)
  case (1 m st s)
  obtain t r where t: "nextToken s = Some (t, r)" using 1 by (auto simp: scanTokens.simps split: option.splits)
  have inv: "statusInv (stepToken m st t)" by (rule step_inv [OF 1(2,3) nextToken_ok [OF t]])
  show ?case
  proof (cases "stepToken m st t")
    case (Running m' st')
    with 1 t inv show ?thesis by (simp add: scanTokens.simps [of m st s])
  qed (use 1 t inv in \<open>auto simp: scanTokens.simps [of m st s]\<close>)
qed

lemma decode_ok: "decode s = Some v \<Longrightarrow> goValue v \<and> nest v \<le> 10000"
  using scan_inv [of "[]" "MValue False" s v] by (simp add: decode_def fits_def)

end
