(* ===== verification/Canonjson.thy ===== *)
theory Canonjson
  imports JsonDecode GoErrors
begin

text \<open>
  Package \<open>internal/canonjson\<close>: the canonical form of a JSON text and its digest. A decoded object is a Go map, whose
  members have no order, so the writer sorts the keys. What the decoder says about a malformed text and the hash
  function are parameters.
\<close>

section \<open>The writer\<close>

fun canonWrite :: "json \<Rightarrow> string" where
  "canonWrite JNull = ''null''"
| "canonWrite (JBool b) = (if b then ''true'' else ''false'')"
| "canonWrite (JNumber n) = n"
| "canonWrite (JString s) = jsonString s"
| "canonWrite (JArray vs) = ''['' @ join '','' (map canonWrite vs) @ '']''"
| "canonWrite (JObject ms) =
     ''{'' @ join '','' (map (\<lambda>(k, t). jsonString k @ '':'' @ t) (sort_key fst (map (\<lambda>(k, v). (k, canonWrite v)) ms))) @ ''}''"

definition canonicalize :: "(string \<Rightarrow> goerr) \<Rightarrow> string \<Rightarrow> goerr + string" where
  "canonicalize decodeErr s =
     (case decode s of
        None \<Rightarrow> Inl (wrapErr ''canonjson: decode: '' (decodeErr s) [])
      | Some v \<Rightarrow> Inr (canonWrite v))"

definition digestHex :: "(string \<Rightarrow> string) \<Rightarrow> (string \<Rightarrow> goerr) \<Rightarrow> string \<Rightarrow> goerr + string" where
  "digestHex sha256 decodeErr s =
     (case canonicalize decodeErr s of Inl e \<Rightarrow> Inl e | Inr c \<Rightarrow> Inr (hexEncode (sha256 c)))"

section \<open>Equal values\<close>

lemma size_member: "(k, v) \<in> set ms \<Longrightarrow> size v < Suc (size_list (size_prod (\<lambda>_. 0) size) ms)"
  by (induction ms) auto

text \<open>Equality of the values of Go's \<open>any\<close>: objects are compared as maps\<close>

function sameValue :: "json \<Rightarrow> json \<Rightarrow> bool" where
  "sameValue JNull w = (w = JNull)"
| "sameValue (JBool b) w = (w = JBool b)"
| "sameValue (JNumber n) w = (w = JNumber n)"
| "sameValue (JString s) w = (w = JString s)"
| "sameValue (JArray vs) w = (case w of
       JArray ws \<Rightarrow> length vs = length ws \<and> list_all (\<lambda>(v, w). sameValue v w) (zip vs ws)
     | _ \<Rightarrow> False)"
| "sameValue (JObject ms) w = (case w of
       JObject ns \<Rightarrow> set (map fst ms) = set (map fst ns)
         \<and> list_all (\<lambda>(k, v). case map_of ns k of None \<Rightarrow> False | Some w \<Rightarrow> sameValue v w) ms
     | _ \<Rightarrow> False)"
  by pat_completeness auto
termination
  by (relation "measure (\<lambda>(v, w). size v)")
    (auto dest!: set_zip_leftD simp: size_list_estimation' less_Suc_eq_le size_member)

text \<open>The value with the members of every object in key order\<close>

fun sortMembers :: "json \<Rightarrow> json" where
  "sortMembers (JArray vs) = JArray (map sortMembers vs)"
| "sortMembers (JObject ms) = JObject (sort_key fst (map (\<lambda>(k, v). (k, sortMembers v)) ms))"
| "sortMembers v = v"

lemma sort_key_map_snd:
  "sort_key fst (map (\<lambda>(k, v). (k, f v)) ms) = map (\<lambda>(k, v). (k, f v)) (sort_key fst ms)"
proof -
  have ins: "insort_key fst (k, f v) (map (\<lambda>(k, v). (k, f v)) ys) = map (\<lambda>(k, v). (k, f v)) (insort_key fst (k, v) ys)"
    for k v ys
    by (induction ys) auto
  then show ?thesis by (induction ms) (auto simp: ins)
qed

lemma canonWrite_sorted: "canonWrite v = marshal (sortMembers v)"
proof (induction v)
  case (JObject ms)
  have "map (\<lambda>(k, v). (k, canonWrite v)) ms = map (\<lambda>(k, v). (k, marshal (sortMembers v))) ms"
    using JObject by (auto simp: snds.simps)
  then have "sort_key fst (map (\<lambda>(k, v). (k, canonWrite v)) ms) = map (\<lambda>(k, v). (k, marshal (sortMembers v))) (sort_key fst ms)"
    by (simp only: sort_key_map_snd)
  moreover have "sort_key fst (map (\<lambda>(k, v). (k, sortMembers v)) ms) = map (\<lambda>(k, v). (k, sortMembers v)) (sort_key fst ms)"
    by (rule sort_key_map_snd)
  ultimately show ?case by (simp add: comp_def case_prod_unfold)
qed (auto cong: map_cong)

lemma sortMembers_nest: "nest (sortMembers v) = nest v"
proof (induction v)
  case (JArray vs)
  then have "map nest (map sortMembers vs) = map nest vs" by simp
  then show ?case by (simp only: sortMembers.simps nest.simps)
next
  case (JObject ms)
  have "(\<lambda>(k, v). nest v) ` set (map (\<lambda>(k, v). (k, sortMembers v)) ms) = (\<lambda>(k, v). nest v) ` set ms"
    using JObject by (auto simp: snds.simps image_iff) force+
  then show ?case by (auto intro!: foldr_max_set)
qed auto

lemma sortMembers_idem: "sortMembers (sortMembers v) = sortMembers v"
proof (induction v)
  case (JObject ms)
  let ?s = "map (\<lambda>(k, v). (k, sortMembers v))"
  have "?s (?s (sort_key fst ms)) = ?s (sort_key fst ms)"
    using JObject by (auto simp: snds.simps)
  moreover have "sort_key fst (sort_key fst ms) = sort_key fst ms"
    by (rule sort_key_id_if_sorted) simp
  ultimately show ?case by (simp only: sortMembers.simps sort_key_map_snd)
qed auto

lemma sort_key_distinct: "distinct (map f xs) \<Longrightarrow> distinct (map f (sort_key g xs))"
  by (simp add: distinct_map)

lemma sortMembers_goValue: "goValue v \<Longrightarrow> goValue (sortMembers v)"
proof (induction v)
  case (JObject ms)
  have "distinct (map fst (sort_key fst (map (\<lambda>(k, v). (k, sortMembers v)) ms)))"
  proof -
    have "map fst (map (\<lambda>(k, v). (k, sortMembers v)) ms) = map fst ms" by auto
    moreover have "distinct (map fst ms)" using JObject.prems by simp
    ultimately have "distinct (map fst (map (\<lambda>(k, v). (k, sortMembers v)) ms))" by metis
    then show ?thesis by (rule sort_key_distinct)
  qed
  with JObject show ?case by (auto simp: list_all_iff snds.simps)
qed (auto simp: list_all_iff)

lemma canonWrite_decode:
  "goValue v \<Longrightarrow> nest v \<le> 10000 \<Longrightarrow> decode (canonWrite v) = Some (sortMembers v)"
  using decode_marshal [of "sortMembers v" "[]"]
  by (simp add: canonWrite_sorted goValue_numbers sortMembers_goValue sortMembers_nest denoted_goValue valueStop_def)

lemma sort_members_eq:
  assumes "distinct (map fst xs)" "distinct (map fst ys)"
  shows "sort_key fst xs = sort_key fst ys \<longleftrightarrow> set xs = set ys"
proof
  assume "set xs = set ys"
  moreover have "distinct xs" "distinct ys" using assms by (auto simp: distinct_map)
  ultimately have "mset xs = mset ys" by (simp add: set_eq_iff_mset_eq_distinct)
  then show "sort_key fst xs = sort_key fst ys"
    using assms by (intro sort_key_perm_cong) (auto simp: distinct_map)
qed (metis set_sort)

lemma sortMembers_same: "goValue v \<Longrightarrow> goValue w \<Longrightarrow> sortMembers v = sortMembers w \<longleftrightarrow> sameValue v w"
proof (induction v arbitrary: w)
  case (JArray vs)
  show ?case
  proof (cases w)
    case w: (JArray ws)
    have "map sortMembers vs = map sortMembers ws \<longleftrightarrow>
        length vs = length ws \<and> (\<forall>i<length vs. sortMembers (vs ! i) = sortMembers (ws ! i))"
      by (auto simp: list_eq_iff_nth_eq)
    also have "\<dots> \<longleftrightarrow> length vs = length ws \<and> (\<forall>i<length vs. sameValue (vs ! i) (ws ! i))"
      using JArray w by (auto simp: list_all_length)
    finally show ?thesis using w by (auto simp: list_all_length)
  qed auto
next
  case (JObject ms)
  show ?case
  proof (cases w)
    case w: (JObject ns)
    let ?s = "map (\<lambda>(k, v). (k, sortMembers v))"
    have fst: "map fst (?s xs) = map fst xs" for xs :: "(string \<times> json) list" by auto
    have d: "distinct (map fst ms)" "distinct (map fst ns)" using JObject.prems w by simp_all
    then have "distinct (map fst (?s ms))" "distinct (map fst (?s ns))" by (simp_all only: fst)
    then have "sortMembers (JObject ms) = sortMembers w \<longleftrightarrow> map_of (?s ms) = map_of (?s ns)"
      using w by (simp add: sort_members_eq map_of_inject_set)
    also have "\<dots> \<longleftrightarrow> map_option sortMembers \<circ> map_of ms = map_option sortMembers \<circ> map_of ns"
      by (simp add: map_of_map)
    also have "\<dots> \<longleftrightarrow> sameValue (JObject ms) w" (is "?L \<longleftrightarrow> ?R")
    proof
      assume l: ?L
      have "sameValue v w'" if "map_of ms k = Some v" "map_of ns k = Some w'" for k v w'
        using JObject.IH [of "(k, v)" v w'] fun_cong [OF l, of k] that JObject.prems w
        by (auto simp: list_all_iff snds.simps dest!: map_of_SomeD)
      moreover have "\<exists>w'. map_of ns k = Some w'" if "(k, v) \<in> set ms" for k v
        using fun_cong [OF l, of k] d(1) that by (auto dest!: sym [of "Some _"])
      moreover have "dom (map_of ms) = dom (map_of ns)" using l by (metis dom_map_option_comp)
      ultimately show ?R
        using w d(1) by (auto simp: list_all_iff dom_map_of_conv_image_fst) fastforce
    next
      assume r: ?R
      show ?L
      proof
        fix k
        show "(map_option sortMembers \<circ> map_of ms) k = (map_option sortMembers \<circ> map_of ns) k"
        proof (cases "map_of ms k")
          case None
          with r w have "map_of ns k = None" by (auto simp: map_of_eq_None_iff)
          with None show ?thesis by simp
        next
          case (Some v)
          then have m: "(k, v) \<in> set ms" by (rule map_of_SomeD)
          with r w obtain w' where w': "map_of ns k = Some w'" "sameValue v w'"
            by (auto simp: list_all_iff split: option.splits)
          then have "goValue v" "goValue w'"
            using m JObject.prems w by (auto simp: list_all_iff dest!: map_of_SomeD)
          with JObject.IH [OF m] w' Some show ?thesis by (auto simp: snds.simps)
        qed
      qed
    qed
    finally show ?thesis .
  qed auto
qed (case_tac w; auto)+

text \<open>Two texts that differ in layout and in the order of members\<close>

lemma demo_decode:
  "decode (marshal (JObject [(''b'', JNumber ''1''), (''a'', JArray [JBool True])]))
    = Some (JObject [(''b'', JNumber ''1''), (''a'', JArray [JBool True])])"
  "decode (jsonIndent (marshal (JObject [(''a'', JArray [JBool True]), (''b'', JNumber ''1'')])))
    = Some (JObject [(''a'', JArray [JBool True]), (''b'', JNumber ''1'')])"
proof -
  let ?v = "JObject [(''b'', JNumber ''1''), (''a'', JArray [JBool True])]"
  let ?w = "JObject [(''a'', JArray [JBool True]), (''b'', JNumber ''1'')]"
  have "wfNumber ''1''" by code_simp
  then show "decode (marshal ?v) = Some ?v" "decode (jsonIndent (marshal ?w)) = Some ?w"
    using decode_marshal [of ?v "[]"] decode_indent [of ?w "[]"]
    by (simp_all add: valueStop_def toValid_ascii ascii_def mapOf_distinct del: marshal.simps)
qed

section \<open>Properties\<close>

text \<open>
  Property C37: the canonical form identifies exactly the equal values. Two texts that decode have the same canonical
  form if and only if they denote the same value: the order of members, white space, escapes and earlier duplicates of a
  key never matter, anything else always does. So equal values have equal digests, and two different values with one
  digest are a collision of the hash function.
\<close>

theorem canonical_form:
  assumes "decode a = Some v" "decode b = Some w"
  shows "(canonicalize e a = canonicalize e b \<longleftrightarrow> sameValue v w)
    \<and> (sameValue v w \<longrightarrow> digestHex h e a = digestHex h e b)
    \<and> (digestHex h e a = digestHex h e b \<and> \<not> sameValue v w \<longrightarrow>
        canonWrite v \<noteq> canonWrite w \<and> hexEncode (h (canonWrite v)) = hexEncode (h (canonWrite w)))"
proof -
  note ok = decode_ok [OF assms(1)] decode_ok [OF assms(2)]
  have "canonWrite v = canonWrite w \<longleftrightarrow> sortMembers v = sortMembers w"
  proof
    assume "canonWrite v = canonWrite w"
    then have "Some (sortMembers v) = Some (sortMembers w)"
      using canonWrite_decode [of v] canonWrite_decode [of w] ok by simp
    then show "sortMembers v = sortMembers w" by simp
  qed (simp only: canonWrite_sorted)
  then have "canonWrite v = canonWrite w \<longleftrightarrow> sameValue v w" using sortMembers_same ok by simp
  then show ?thesis using assms by (auto simp: canonicalize_def digestHex_def)
qed

theorem canonical_form_witness:
  "canonicalize plainErr (marshal (JObject [(''b'', JNumber ''1''), (''a'', JArray [JBool True])]))
    = canonicalize plainErr (jsonIndent (marshal (JObject [(''a'', JArray [JBool True]), (''b'', JNumber ''1'')])))"
proof -
  have "sameValue (JObject [(''b'', JNumber ''1''), (''a'', JArray [JBool True])])
      (JObject [(''a'', JArray [JBool True]), (''b'', JNumber ''1'')])"
    by (simp add: insert_commute)
  then show ?thesis using canonical_form [OF demo_decode] by blast
qed

text \<open>
  Canonical texts are fixed points. What \<open>Canonicalize\<close> returns decodes to the value of its input, and
  canonicalizing it again changes nothing; it fails only on a text that does not decode, with the decoder's error
  wrapped, and then there is no digest either.
\<close>

theorem canonical_idempotent:
  "(\<forall>c. canonicalize e a = Inr c \<longrightarrow> canonicalize e c = Inr c
      \<and> (\<exists>v w. decode a = Some v \<and> decode c = Some w \<and> sameValue v w))
   \<and> (decode a = None \<longrightarrow> canonicalize e a = Inl (wrapErr ''canonjson: decode: '' (e a) [])
      \<and> digestHex h e a = canonicalize e a)"
proof (intro conjI allI impI)
  fix c
  assume "canonicalize e a = Inr c"
  then obtain v where v: "decode a = Some v" "c = canonWrite v" by (auto simp: canonicalize_def split: option.splits)
  note ok = decode_ok [OF v(1)]
  have c: "decode c = Some (sortMembers v)" using canonWrite_decode [of v] ok v(2) by simp
  have same: "sortMembers (sortMembers v) = sortMembers v"
    by (rule sortMembers_idem)
  show "canonicalize e c = Inr c" using c same v(2) by (simp add: canonicalize_def canonWrite_sorted)
  show "\<exists>v w. decode a = Some v \<and> decode c = Some w \<and> sameValue v w"
    using v(1) c same sortMembers_same [of v "sortMembers v"] sortMembers_goValue ok by auto
qed (simp_all add: canonicalize_def digestHex_def)

theorem canonical_idempotent_witness:
  "\<exists>c. canonicalize plainErr (marshal (JObject [(''b'', JNumber ''1''), (''a'', JArray [JBool True])])) = Inr c
    \<and> canonicalize plainErr c = Inr c"
proof -
  have "canonicalize plainErr (marshal (JObject [(''b'', JNumber ''1''), (''a'', JArray [JBool True])]))
      = Inr (canonWrite (JObject [(''b'', JNumber ''1''), (''a'', JArray [JBool True])]))"
    unfolding canonicalize_def demo_decode by simp
  then show ?thesis using canonical_idempotent by blast
qed

end
