(* ===== verification/RenderJsonFacts.thy ===== *)
theory RenderJsonFacts
  imports RenderInit Canonjson Cli GoNumbers
begin

text \<open>
  What a consumer of the JSON and SARIF reports reads back: the document decodes whether or not it is indented, to one
  value and one canonical form, and its members are the report's fields.
\<close>

section \<open>Numbers and keys\<close>

lemma wfNumber_showNat: "wfNumber (showNat n)" "wfNumber (CHR ''-'' # showNat (Suc n))"
proof -
  have i: "lexInt (showNat n) = Some (showNat n, [])" for n
  proof (cases "n = 0")
    case False
    obtain c s where s: "showNat n = c # s" by (cases "showNat n") simp_all
    with False showNat_hd_nonzero [of n] have "c \<noteq> CHR ''0''" by simp
    with s showNat_digits [of n] show ?thesis by (simp add: lexInt_def list_all_iff)
  qed (simp add: showNat_0 lexInt_def)
  have "lexFrac [] = Some ([], [])" "lexExp [] = Some ([], [])" by (simp_all add: lexFrac_def lexExp_def)
  with i show "wfNumber (showNat n)" "wfNumber (CHR ''-'' # showNat (Suc n))"
    using showNat_hd(1) [of n] by (simp_all add: wfNumber_def lexNumber_def)
qed

lemma wfNumber_itoa: "wfNumber (itoa i)"
proof (cases "i < 0")
  case True
  then obtain n where "nat (- i) = Suc n" using not0_implies_Suc [of "nat (- i)"] by auto
  with True wfNumber_showNat(2) [of n] show ?thesis by (simp add: itoa_def)
qed (simp add: itoa_def wfNumber_showNat)

section \<open>Reading a document\<close>

definition jsonGet :: "string \<Rightarrow> json \<Rightarrow> json option" where
  "jsonGet k v = (case v of JObject ms \<Rightarrow> map_of ms k | _ \<Rightarrow> None)"

fun jsonPath :: "string list \<Rightarrow> json \<Rightarrow> json option" where
  "jsonPath [] v = Some v"
| "jsonPath (k # ks) v = Option.bind (jsonGet k v) (jsonPath ks)"

lemma jsonGet_object [simp]: "jsonGet k (JObject ms) = map_of ms k"
  by (simp add: jsonGet_def)

text \<open>Objects with constant keys: the keys are well-formed and distinct\<close>

lemmas doc_simps = toValid_ascii ascii_def mapOf_distinct

section \<open>The document of a report\<close>

lemma wfNumbers_evidence: "wfNumbers (evidenceJson e)"
proof (induction e)
  case (EvMap ms)
  then show ?case by (auto simp: list_all_iff snds.simps)
qed (simp_all add: wfNumber_itoa)

lemma wfNumbers_result: "wfNumbers (resultJson r)"
  using wfNumbers_evidence [of "EvMap (rEvidence r)"]
  by (simp add: resultJson_def timeJson_def omitEmpty_def wfNumber_itoa del: evidenceJson.simps)

lemma wfNumbers_report: "wfNumbers (reportJson rep)"
  by (simp add: reportJson_def timeJson_def hostJson_def toolJson_def summaryJson_def bucketJson_def natJson_def
      list_all_iff wfNumbers_result wfNumber_showNat)

lemma report_texts:
  assumes "reportEncodable rep" "nest (reportJson rep) \<le> 10000"
  shows "snd (renderJSON (memWriter getenv) [] rep) \<in> {marshal (reportJson rep) @ [CHR 0x0A], jsonIndent (marshal (reportJson rep)) @ [CHR 0x0A]}"
    and "decode (snd (renderJSON (memWriter getenv) [] rep)) = Some (denoted (reportJson rep))"
proof -
  have "renderJSON (memWriter getenv) [] rep =
      (let t = (if getenv envJSONCompact = ''1'' then marshal (reportJson rep) else jsonIndent (marshal (reportJson rep))) @ [CHR 0x0A]
       in ((int (length t), None), t))"
    using assms by (simp add: renderJSON_def marshalReport_def indentDoc_def maxNestingDepth_def flush_memWriter Let_def)
      (simp add: memWriter_def)
  moreover have "valueStop [CHR 0x0A]" by (simp add: valueStop_def jsonSpace_def)
  ultimately show "snd (renderJSON (memWriter getenv) [] rep) \<in> {marshal (reportJson rep) @ [CHR 0x0A], jsonIndent (marshal (reportJson rep)) @ [CHR 0x0A]}"
    "decode (snd (renderJSON (memWriter getenv) [] rep)) = Some (denoted (reportJson rep))"
    using assms(2) wfNumbers_report by (auto simp: Let_def decode_marshal decode_indent)
qed

text \<open>
  The JSON report does not depend on how it is laid out. Whatever \<open>COPYFAIL_JSON_COMPACT\<close> is, the text
  is accepted by the decoder and denotes the same value, so its canonical form and its digest are the same; a report with
  a time outside the years 0 to 9999 is refused with \<open>ErrEncode\<close>, and not \<open>ErrRender\<close>, before anything is written.
\<close>

theorem json_report_stable:
  assumes "nest (reportJson rep) \<le> 10000"
  shows "(reportEncodable rep \<longrightarrow>
      decode (snd (renderJSON (memWriter getenv) [] rep)) = decode (snd (renderJSON (memWriter getenv') [] rep))
      \<and> (\<exists>c. canonicalize e (snd (renderJSON (memWriter getenv) [] rep)) = Inr c
          \<and> canonicalize e (snd (renderJSON (memWriter getenv') [] rep)) = Inr c)
      \<and> digestHex h e (snd (renderJSON (memWriter getenv) [] rep)) = digestHex h e (snd (renderJSON (memWriter getenv') [] rep)))
    \<and> (\<not> reportEncodable rep \<longrightarrow> (\<exists>e. renderJSON env w rep = ((0, Some e), w) \<and> errIs e ErrEncode \<and> \<not> errIs e ErrRender))"
proof -
  have "decode (snd (renderJSON (memWriter g) [] rep)) = Some (denoted (reportJson rep))" if "reportEncodable rep" for g
    by (rule report_texts(2) [OF that assms])
  then show ?thesis
    by (auto simp: canonicalize_def digestHex_def renderJSON_def marshalReport_def encodeErr_def timeError_def)
qed

lemma demo_report: "reportEncodable demoReport" "nest (reportJson demoReport) \<le> 10000"
proof -
  have "goYear 0 = 1" by (simp add: goYear_def yearAndDay_def Let_def nanosPerSecond_def)
  then show "reportEncodable demoReport"
    by (simp add: reportEncodable_def timeEncodable_def demoReport_def Let_def zeroResult_def)
  show "nest (reportJson demoReport) \<le> 10000"
    by (simp add: reportJson_def demoReport_def Let_def zeroResult_def resultJson_def hostJson_def toolJson_def
        summaryJson_def bucketJson_def natJson_def timeJson_def omitEmpty_def)
qed

theorem json_report_stable_witness:
  "decode (snd (renderJSON (memWriter (\<lambda>_. ''1'')) [] demoReport)) = decode (snd (renderJSON (memWriter (\<lambda>_. [])) [] demoReport))
   \<and> digestHex id plainErr (snd (renderJSON (memWriter (\<lambda>_. ''1'')) [] demoReport))
     = digestHex id plainErr (snd (renderJSON (memWriter (\<lambda>_. [])) [] demoReport))"
  using json_report_stable [OF demo_report(2), where h = id and e = plainErr and getenv = "\<lambda>_. ''1''" and getenv' = "\<lambda>_. []"] demo_report(1)
  by simp

text \<open>How one result is read from its object\<close>

definition readsResult :: "json \<Rightarrow> result \<Rightarrow> bool" where
  "readsResult j r \<longleftrightarrow>
     jsonGet ''check_id'' j = Some (JString (toValidUTF8 (rCheckID r)))
     \<and> jsonGet ''title'' j = Some (JString (toValidUTF8 (rTitle r)))
     \<and> jsonGet ''state'' j = Some (JString (toValidUTF8 (rState r)))
     \<and> jsonGet ''severity'' j = Some (JString (toValidUTF8 (rSeverity r)))
     \<and> jsonGet ''detail'' j = (if rDetail r = [] then None else Some (JString (toValidUTF8 (rDetail r))))
     \<and> jsonGet ''error'' j = (if rErr r = [] then None else Some (JString (toValidUTF8 (rErr r))))
     \<and> jsonGet ''duration_ms'' j = Some (JNumber (itoa (rDurationMS r)))
     \<and> (jsonGet ''evidence'' j = None \<longleftrightarrow> rEvidence r = [])"

lemma reads_result: "readsResult (denoted (resultJson r)) r"
  by (cases "rEvidence r = []"; cases "rDetail r = []"; cases "rErr r = []")
    (simp_all add: readsResult_def resultJson_def omitEmpty_def doc_simps timeJson_def del: evidenceJson.simps)

text \<open>
  What the JSON report says. In either layout the document has one object per result, in order, with the
  result's identity, state, severity, detail, error and duration, the optional ones present exactly when they are not
  empty, and the counters of the summary, whose required bucket is what the exit code is computed from.
\<close>

theorem json_report_contents:
  assumes "reportEncodable rep" "nest (reportJson rep) \<le> 10000"
  shows "\<exists>v rs. decode (snd (renderJSON (memWriter getenv) [] rep)) = Some v
    \<and> jsonPath [''results''] v = Some (JArray rs) \<and> list_all2 readsResult rs (repResults rep)
    \<and> jsonPath [''schema_version''] v = Some (JString (toValidUTF8 (repSchemaVersion rep)))
    \<and> jsonPath [''host'', ''hostname''] v = Some (JString (toValidUTF8 (hHostname (repHost rep))))
    \<and> jsonPath [''summary'', ''total''] v = Some (JNumber (showNat (sTotal (repSummary rep))))
    \<and> jsonPath [''summary'', ''required'', ''fail''] v = Some (JNumber (showNat (bFail (sRequired (repSummary rep)))))
    \<and> jsonPath [''summary'', ''required'', ''error''] v = Some (JNumber (showNat (bError (sRequired (repSummary rep)))))"
proof (intro exI conjI)
  show "decode (snd (renderJSON (memWriter getenv) [] rep)) = Some (denoted (reportJson rep))"
    by (rule report_texts(2) [OF assms])
  show "jsonPath [''results''] (denoted (reportJson rep)) = Some (JArray (map (denoted \<circ> resultJson) (repResults rep)))"
    by (simp add: reportJson_def doc_simps)
  show "list_all2 readsResult (map (denoted \<circ> resultJson) (repResults rep)) (repResults rep)"
    by (simp add: list_all2_conv_all_nth reads_result)
qed (simp_all add: reportJson_def hostJson_def summaryJson_def bucketJson_def natJson_def doc_simps)

theorem json_report_contents_witness:
  "\<exists>v. decode (snd (renderJSON (memWriter (\<lambda>_. [])) [] demoReport)) = Some v
    \<and> jsonPath [''summary'', ''required'', ''fail''] v = Some (JNumber ''1'')"
proof -
  have "showNat (bFail (sRequired (repSummary demoReport))) = ''1''"
    by (simp add: demoReport_def Let_def newSummary_tally isRequired_def showNat.simps digitChar_def char_of_eq_iff)
  then show ?thesis using json_report_contents [OF demo_report, of "\<lambda>_. []"] by auto
qed

end
