(* ===== verification/RenderSarifFacts.thy ===== *)
theory RenderSarifFacts
  imports RenderJsonFacts
begin

text \<open>
  The SARIF document: one rule per check, one result per result, and an invocation that is successful exactly when the
  program's exit code says so.
\<close>

section \<open>Rules\<close>

lemma seenLoop_lookup:
  "map_of (seenLoop seen rs) k =
     (case map_of seen k of Some r \<Rightarrow> Some r | None \<Rightarrow> List.find (\<lambda>r. rCheckID r = k) rs)"
  by (induction seen rs rule: seenLoop.induct) (auto split: option.split)

lemma seenLoop_distinct: "distinct (map fst seen) \<Longrightarrow> distinct (map fst (seenLoop seen rs))"
  by (induction seen rs rule: seenLoop.induct) (auto simp: map_of_eq_None_iff split: option.split)

lemma seenLoop_keys: "fst ` set (seenLoop seen rs) = fst ` set seen \<union> rCheckID ` set rs"
proof (induction seen rs rule: seenLoop.induct)
  case (2 seen r rs)
  then show ?case by (cases "map_of seen (rCheckID r)") (force dest: map_of_SomeD)+
qed simp

lemma rule_ids: "map srID (buildSARIFRules rs) = sorted_list_of_set (rCheckID ` set rs)"
proof -
  let ?seen = "seenLoop [] rs"
  have keys: "set (map fst ?seen) = rCheckID ` set rs" using seenLoop_keys [of "[]" rs] by simp
  have "srID (sarifRuleOf (case map_of ?seen k of None \<Rightarrow> zeroResult | Some r \<Rightarrow> r)) = k"
    if k: "k \<in> set (map fst ?seen)" for k
  proof -
    obtain r where "map_of ?seen k = Some r"
      using k by (cases "map_of ?seen k") (auto simp: map_of_eq_None_iff)
    moreover from this have "rCheckID r = k" by (auto simp: seenLoop_lookup find_Some_iff)
    ultimately show ?thesis by (simp add: sarifRuleOf_def)
  qed
  then have "map srID (buildSARIFRules rs) = sort (map fst ?seen)"
    unfolding buildSARIFRules_def Let_def map_map by (intro map_idI) simp
  also have "\<dots> = sorted_list_of_set (rCheckID ` set rs)"
    using seenLoop_distinct [of "[]" rs] keys by (metis distinct.simps(1) distinct_remdups_id list.simps(8) sorted_list_of_set_sort_remdups)
  finally show ?thesis .
qed

lemma rule_first:
  assumes "rule \<in> set (buildSARIFRules rs)"
  shows "\<exists>us r vs. rs = us @ r # vs \<and> rule = sarifRuleOf r \<and> rCheckID r \<notin> rCheckID ` set us"
proof -
  obtain k where k: "k \<in> set (map fst (seenLoop [] rs))"
    "rule = sarifRuleOf (case map_of (seenLoop [] rs) k of None \<Rightarrow> zeroResult | Some r \<Rightarrow> r)"
    using assms by (auto simp: buildSARIFRules_def Let_def)
  then obtain r where r: "map_of (seenLoop [] rs) k = Some r" by (auto dest: weak_map_of_SomeI)
  then have f: "List.find (\<lambda>r. rCheckID r = k) rs = Some r" by (simp add: seenLoop_lookup)
  then obtain i where i: "i < length rs" "rCheckID (rs ! i) = k" "r = rs ! i" "\<forall>j<i. rCheckID (rs ! j) \<noteq> k"
    by (auto simp: find_Some_iff)
  then have "rs = take i rs @ r # drop (Suc i) rs" by (simp add: id_take_nth_drop)
  moreover have "rCheckID r \<notin> rCheckID ` set (take i rs)" using i by (force simp: in_set_conv_nth)
  ultimately show ?thesis using k(2) r by auto
qed

section \<open>The document\<close>

lemma foldr_max_map: "(\<And>x. x \<in> set xs \<Longrightarrow> f x \<le> n) \<Longrightarrow> foldr max (map f xs) (0::nat) \<le> n"
  by (simp add: foldr_max_bound)

lemma sarif_nest: "nest (sarifDoc rep) \<le> 10000"
proof -
  have "foldr max (map (nest \<circ> sarifRuleJson) rules) 0 \<le> 2" for rules
    by (rule foldr_max_map) (simp add: sarifRuleJson_def multiText_def)
  moreover have "foldr max (map (nest \<circ> sarifResultJson) results) 0 \<le> 2" for results
    by (rule foldr_max_map) (simp add: sarifResultJson_def multiText_def omitEmpty_def)
  ultimately show ?thesis
    by (simp add: sarifDoc_members sarifInvocationJson_def) (meson le_trans numeral_le_iff semiring_norm)
qed

lemma sarif_numbers: "wfNumbers (sarifDoc rep)"
  by (simp add: sarifDoc_members sarifInvocationJson_def sarifRuleJson_def sarifResultJson_def multiText_def
      omitEmpty_def list_all_iff)

lemma sarif_text: "decode (snd (renderSARIF (memWriter getenv) [] rep)) = Some (denoted (sarifDoc rep))"
proof -
  have "valueStop [CHR 0x0A]" by (simp add: valueStop_def jsonSpace_def)
  then show ?thesis
    using sarif_nest [of rep] decode_indent [OF sarif_numbers sarif_nest]
    by (simp add: renderSARIF_def indentDoc_def maxNestingDepth_def flush_memWriter)
qed

text \<open>An element of an array\<close>

definition jsonAt :: "nat \<Rightarrow> json \<Rightarrow> json option" where
  "jsonAt i v = (case v of JArray vs \<Rightarrow> if i < length vs then Some (vs ! i) else None | _ \<Rightarrow> None)"

definition firstRun :: "json \<Rightarrow> json option" where
  "firstRun v = Option.bind (jsonGet ''runs'' v) (jsonAt 0)"

definition readsSarif :: "json \<Rightarrow> result \<Rightarrow> bool" where
  "readsSarif j r \<longleftrightarrow>
     jsonGet ''ruleId'' j = Some (JString (toValidUTF8 (rCheckID r)))
     \<and> jsonGet ''kind'' j = Some (JString (sarifKind (rState r)))
     \<and> jsonGet ''level'' j = (if rState r \<noteq> StateFail then None
          else Some (JString (if isRequired (rSeverity r) then ''error'' else ''warning'')))
     \<and> jsonPath [''message'', ''text''] j = Some (JString (toValidUTF8 (sarifMessage r)))"

lemma reads_sarif:
  "readsSarif (denoted (sarifResultJson
      \<lparr>saMessage = sarifMessage r, saRuleID = rCheckID r, saKind = sarifKind (rState r), saLevel = sarifLevel r\<rparr>)) r"
proof -
  have "toValidUTF8 (sarifKind s) = sarifKind s" for s
    by (simp add: sarifKind_def doc_simps)
  then show ?thesis
    by (simp add: readsSarif_def sarifResultJson_def sarifLevel_def omitEmpty_def multiText_def doc_simps)
qed

lemma sarif_paths:
  "\<exists>run invs. firstRun (denoted (sarifDoc rep)) = Some run
    \<and> jsonPath [''results''] run = Some (JArray (map (denoted \<circ> sarifResultJson) (buildSARIFResults (repResults rep))))
    \<and> jsonPath [''invocations''] run = Some invs
    \<and> Option.bind (jsonAt 0 invs) (jsonGet ''executionSuccessful'')
        = Some (JBool (siExecutionSuccessful (buildSARIFInvocation rep)))"
  by (simp add: sarifDoc_members firstRun_def jsonAt_def sarifInvocationJson_def doc_simps)

text \<open>A rule of the document, as it describes the check of a result\<close>

definition readsRule :: "json \<Rightarrow> result \<Rightarrow> bool" where
  "readsRule j r \<longleftrightarrow>
     jsonGet ''id'' j = Some (JString (toValidUTF8 (rCheckID r)))
     \<and> jsonGet ''name'' j = Some (JString (toValidUTF8 (rTitle r)))
     \<and> jsonPath [''shortDescription'', ''text''] j = Some (JString (toValidUTF8 (rTitle r)))
     \<and> jsonPath [''fullDescription'', ''text''] j = Some (JString (toValidUTF8 (rTitle r)))
     \<and> jsonPath [''help'', ''text''] j = Some (JString (toValidUTF8 (rTitle r)))"

lemma reads_rule: "readsRule (denoted (sarifRuleJson (sarifRuleOf r))) r"
  by (simp add: readsRule_def sarifRuleJson_def sarifRuleOf_def multiText_def doc_simps)

definition firstWith :: "string \<Rightarrow> result list \<Rightarrow> result option" where
  "firstWith i rs = List.find (\<lambda>r. rCheckID r = i) rs"

lemma rules_read:
  "list_all2 (\<lambda>j i. \<exists>r. firstWith i rs = Some r \<and> readsRule j r)
     (map (denoted \<circ> sarifRuleJson) (buildSARIFRules rs)) (sorted_list_of_set (rCheckID ` set rs))"
proof -
  have "\<exists>r. firstWith (srID rule) rs = Some r \<and> readsRule (denoted (sarifRuleJson rule)) r"
    if member: "rule \<in> set (buildSARIFRules rs)" for rule
  proof -
    obtain us r vs where r: "rs = us @ r # vs" "rule = sarifRuleOf r" "rCheckID r \<notin> rCheckID ` set us"
      using rule_first [OF member] by blast
    have "List.find (\<lambda>q. rCheckID q = rCheckID r) (ps @ r # vs) = Some r" if "rCheckID r \<notin> rCheckID ` set ps" for ps
      using that by (induction ps) auto
    then have "firstWith (srID rule) rs = Some r" using r by (simp add: firstWith_def sarifRuleOf_def)
    with reads_rule r(2) show ?thesis by blast
  qed
  then have "list_all2 (\<lambda>rule i. \<exists>r. firstWith i rs = Some r \<and> readsRule (denoted (sarifRuleJson rule)) r)
      (buildSARIFRules rs) (map srID (buildSARIFRules rs))"
    by (simp add: list_all2_conv_all_nth)
  then show ?thesis by (simp add: rule_ids list_all2_map1)
qed

lemma sarif_rules_path:
  assumes "firstRun (denoted (sarifDoc rep)) = Some run"
  shows "jsonPath [''tool'', ''driver'', ''rules''] run
      = Some (JArray (map (denoted \<circ> sarifRuleJson) (buildSARIFRules (repResults rep))))"
  using assms by (auto simp: sarifDoc_members firstRun_def jsonAt_def doc_simps)

text \<open>
  Property C40: the SARIF document of a report. It decodes whatever the environment is; it has one result per result, in
  order, with the kind of its state, the level \<open>error\<close> for a required failure, \<open>warning\<close> for another failure and none
  otherwise; the rules of its driver are one per check ID, in order of the IDs, each with the title of the first result with
  that ID; and its invocation is successful exactly when the program's exit code for the report is 0.
\<close>

theorem sarif_report:
  "\<exists>v run rs rules invs. decode (snd (renderSARIF (memWriter getenv) [] rep)) = Some v \<and> firstRun v = Some run
    \<and> jsonPath [''results''] run = Some (JArray rs) \<and> list_all2 readsSarif rs (repResults rep)
    \<and> jsonPath [''invocations''] run = Some invs
    \<and> Option.bind (jsonAt 0 invs) (jsonGet ''executionSuccessful'') = Some (JBool (computeExit rep = exitOK))
    \<and> jsonPath [''tool'', ''driver'', ''rules''] run = Some (JArray rules)
    \<and> list_all2 (\<lambda>j i. \<exists>r. firstWith i (repResults rep) = Some r \<and> readsRule j r)
        rules (sorted_list_of_set (rCheckID ` set (repResults rep)))"
proof -
  have "siExecutionSuccessful (buildSARIFInvocation rep) \<longleftrightarrow> computeExit rep = exitOK"
    by (simp add: buildSARIFInvocation_def computeExit_def exitCodes)
  moreover have "list_all2 readsSarif (map (denoted \<circ> sarifResultJson) (buildSARIFResults (repResults rep))) (repResults rep)"
    by (simp add: list_all2_conv_all_nth buildSARIFResults_def reads_sarif)
  moreover obtain run invs where run: "firstRun (denoted (sarifDoc rep)) = Some run"
    "jsonPath [''results''] run = Some (JArray (map (denoted \<circ> sarifResultJson) (buildSARIFResults (repResults rep))))"
    "jsonPath [''invocations''] run = Some invs"
    "Option.bind (jsonAt 0 invs) (jsonGet ''executionSuccessful'')
        = Some (JBool (siExecutionSuccessful (buildSARIFInvocation rep)))"
    using sarif_paths by blast
  ultimately show ?thesis
    using sarif_text [of getenv rep] sarif_rules_path [OF run(1)] rules_read [of "repResults rep"]
    by (intro exI conjI) (simp_all only:)
qed

end
