(* ===== verification/RenderFacts.thy ===== *)
theory RenderFacts
  imports RenderProm Utf8 Cli
begin

text \<open>
  What the text renderers print: the human report line by line and its agreement with the exit code, the
  quoting of Prometheus label values, and that the Prometheus text does not depend on the order in which
  the results arrived.
\<close>

section \<open>The human report\<close>

definition oneLine :: "string \<Rightarrow> bool" where
  "oneLine s \<longleftrightarrow> CHR 0x0A \<notin> set s"

definition oneLineResult :: "result \<Rightarrow> bool" where
  "oneLineResult r \<longleftrightarrow> oneLine (rCheckID r) \<and> oneLine (rSeverity r) \<and> oneLine (rDetail r) \<and> oneLine (rErr r)"

lemma oneLine_append [simp]: "oneLine (a @ b) \<longleftrightarrow> oneLine a \<and> oneLine b"
  by (auto simp: oneLine_def)

lemma oneLine_Cons [simp]: "oneLine (c # b) \<longleftrightarrow> c \<noteq> CHR 0x0A \<and> oneLine b" "oneLine []"
  by (auto simp: oneLine_def)

lemma digitChar_oneLine: "d < 10 \<Longrightarrow> digitChar d \<noteq> CHR 0x0A"
proof -
  have "list_all (\<lambda>d. digitChar d \<noteq> CHR 0x0A) [0..<10]" by code_simp
  then show "d < 10 \<Longrightarrow> ?thesis" by (simp add: list_all_iff)
qed

lemma showNat_oneLine [simp]: "oneLine (showNat n)"
proof (induction n rule: showNat.induct)
  case (1 n)
  then show ?case
    using digitChar_oneLine [of n] digitChar_oneLine [of "n mod 10"]
    by (subst showNat.simps) (auto simp: oneLine_def)
qed

text \<open>The line of a result without its newline and colours\<close>

definition resultText :: "result \<Rightarrow> string" where
  "resultText r = statusLabel (rState r) @ ''  '' @ rCheckID r @ '' ('' @ rSeverity r @ '')''
     @ (let detail = (if rState r = StateError \<and> rErr r \<noteq> [] then rErr r else rDetail r)
        in if detail \<noteq> [] then '': '' @ detail else [])"

lemma resultText_line: "writeResultLine r False = resultText r @ [CHR 0x0A]"
  by (simp add: writeResultLine_def resultText_def statusColor_def Let_def)

lemma resultText_oneLine: "oneLineResult r \<Longrightarrow> oneLine (resultText r)"
  by (auto simp: resultText_def oneLineResult_def statusLabel_def Let_def)

definition totalsText :: "summary \<Rightarrow> string" where
  "totalsText s = ''total: '' @ showNat (sTotal s) @ '' pass='' @ showNat (sPass s) @ '' fail='' @ showNat (sFail s)
     @ '' skip='' @ showNat (sSkip s) @ '' error='' @ showNat (sError s)
     @ '' (required: pass='' @ showNat (bPass (sRequired s)) @ '' fail='' @ showNat (bFail (sRequired s))
     @ '' error='' @ showNat (bError (sRequired s)) @ '')''"

lemma computeExit_0: "computeExit rep = 0 \<longleftrightarrow> bFail (sRequired (repSummary rep)) = 0 \<and> bError (sRequired (repSummary rep)) = 0"
  by (simp add: computeExit_def exitCodes)

lemma humanText_unlines:
  "humanText rep False = unlines (map resultText (repResults rep)
     @ [''validator result: '' @ (if computeExit rep = 0 then ''PASS'' else ''FAIL''), totalsText (repSummary rep)])"
proof -
  have "concat (map (\<lambda>r. writeResultLine r False) rs) @ z = unlines (map resultText rs) @ z" for rs z
    by (induction rs) (simp_all add: resultText_line)
  moreover have "unlines (xs @ ys) = unlines xs @ unlines ys" for xs ys by (simp add: unlines_def)
  ultimately show ?thesis
    by (simp add: humanText_def writeFooter_def computeExit_0 totalsText_def Let_def)
qed

text \<open>
  The human report and the exit code tell the same story. Without colour and with
  single-line texts the report has one line for each result in the order of the report, then the verdict
  line, which says \<open>PASS\<close> exactly when the program exits with 0 for this report, then the totals; and
  an error's message takes the place of its detail.
\<close>

theorem human_report:
  assumes "list_all oneLineResult (repResults rep)"
  shows "splitByte CHR 0x0A (humanText rep False) =
    map resultText (repResults rep)
      @ [''validator result: '' @ (if computeExit rep = 0 then ''PASS'' else ''FAIL''), totalsText (repSummary rep), []]"
proof -
  let ?ls = "map resultText (repResults rep)
     @ [''validator result: '' @ (if computeExit rep = 0 then ''PASS'' else ''FAIL''), totalsText (repSummary rep)]"
  have "\<forall>l\<in>set ?ls. oneLine l"
    using assms resultText_oneLine by (auto simp: list_all_iff totalsText_def)
  then have "splitByte CHR 0x0A (unlines ?ls) = ?ls @ [[]]"
    by (intro splitByte_unlines) (auto simp: oneLine_def)
  then show ?thesis by (simp add: humanText_unlines)
qed

definition demoResult :: result where
  "demoResult = zeroResult\<lparr>rCheckID := ''x'', rState := StateFail, rSeverity := SeverityRequired, rDetail := ''gap''\<rparr>"

theorem human_report_witness:
  "splitByte CHR 0x0A (humanText (emptyReport 0 [demoResult]) False) =
    [''FAIL   x (required): gap'', ''validator result: FAIL'',
     ''total: 1 pass=0 fail=1 skip=0 error=0 (required: pass=0 fail=1 error=0)'', []]"
proof -
  let ?rep = "emptyReport 0 [demoResult]"
  have sel: "repResults ?rep = [demoResult]" "repSummary ?rep = newSummary [demoResult]" by (simp_all add: emptyReport_def)
  have "list_all oneLineResult (repResults ?rep)"
    unfolding sel by (simp add: oneLineResult_def demoResult_def zeroResult_def)
  from human_report [OF this] have "splitByte CHR 0x0A (humanText ?rep False) =
    [resultText demoResult, ''validator result: '' @ (if computeExit ?rep = 0 then ''PASS'' else ''FAIL''),
     totalsText (newSummary [demoResult]), []]" by (simp add: sel)
  moreover have "resultText demoResult = ''FAIL   x (required): gap''" by code_simp
  moreover have "totalsText (newSummary [demoResult]) = ''total: 1 pass=0 fail=1 skip=0 error=0 (required: pass=0 fail=1 error=0)''"
    by code_simp
  moreover have "bFail (sRequired (newSummary [demoResult])) \<noteq> 0" by code_simp
  ultimately show ?thesis by (simp add: computeExit_0 sel)
qed

section \<open>Prometheus label values\<close>

text \<open>A reader of the exposition format: the label value after its opening quote, and the rest of the line\<close>

fun readLabel :: "string \<Rightarrow> (string \<times> string) option" where
  "readLabel [] = None"
| "readLabel (c # s) =
     (if c = CHR 0x22 then Some ([], s)
      else if c = CHR 0x5C then
        (case s of [] \<Rightarrow> None
         | d # s2 \<Rightarrow> map_option (\<lambda>(v, r). ((if d = CHR ''n'' then CHR 0x0A else d) # v, r)) (readLabel s2))
      else map_option (\<lambda>(v, r). (c # v, r)) (readLabel s))"

lemma replacementRune_high: "highBytes replacementRune"
  by code_simp

lemma readLabel_high: "highBytes cs \<Longrightarrow> readLabel (cs @ s) = map_option (\<lambda>(v, r). (cs @ v, r)) (readLabel s)"
proof (induction cs)
  case Nil
  then show ?case by (cases "readLabel s") auto
next
  case (Cons c cs)
  then have "c \<noteq> CHR 0x22" "c \<noteq> CHR 0x5C" by (auto simp: highBytes_def)
  with Cons show ?case by (cases "readLabel s") (auto simp: highBytes_def)
qed

lemma readLabel_rune:
  assumes "goodRune r"
  shows "readLabel (promRune r @ s) = map_option (\<lambda>(v, q). (runeText r @ v, q)) (readLabel s)"
proof (cases r)
  case (Inl c)
  then show ?thesis using readLabel_high [OF replacementRune_high] by (simp add: promRune_def runeText_def)
next
  case (Inr cs)
  then have "runeBytes cs" using assms by (simp add: goodRune_def)
  then consider c where "cs = [c]" | "2 \<le> length cs" "highBytes cs" using runeBytes_high by blast
  then show ?thesis
  proof cases
    case 1
    with Inr show ?thesis
      by (cases "c = CHR 0x5C"; cases "c = CHR 0x22"; cases "c = CHR 0x0A") (simp_all add: promRune_def runeText_def)
  next
    case 2
    with Inr readLabel_high [OF 2(2)] show ?thesis by (auto simp: promRune_def runeText_def)
  qed
qed

lemma readLabel_runes:
  "\<forall>r\<in>set rs. goodRune r \<Longrightarrow>
    readLabel (concat (map promRune rs) @ CHR 0x22 # rest) = Some (concat (map runeText rs), rest)"
  by (induction rs) (auto simp: readLabel_rune)

lemma highBytes_newline: "highBytes cs \<Longrightarrow> CHR 0x0A \<notin> set cs"
  by (induction cs) (auto simp: highBytes_def)

lemma promRune_oneLine: "goodRune r \<Longrightarrow> oneLine (promRune r)"
  using replacementRune_high
  by (auto simp: promRune_def goodRune_def oneLine_def dest!: runeBytes_high highBytes_newline split: sum.splits)

text \<open>
  Label values of the Prometheus text cannot break out of their quotes. Whatever the value
  is, reading the quoted form back ends exactly at its closing quote and gives the value with invalid bytes replaced
  (so the value itself, when it is valid UTF-8), and the quoted form never contains a newline: each
  metric stays one line.
\<close>

theorem prom_label_roundtrip:
  "(\<exists>q. promLabelValue v = CHR 0x22 # q \<and> readLabel (q @ rest) = Some (toValidUTF8 v, rest))
   \<and> CHR 0x0A \<notin> set (promLabelValue v)
   \<and> (validUTF8 v \<longrightarrow> toValidUTF8 v = v)"
proof -
  have "readLabel (concat (map promRune (runes v)) @ CHR 0x22 # rest) = Some (toValidUTF8 v, rest)"
    using readLabel_runes [OF runes_good] by (simp add: toValidUTF8_def)
  moreover have "oneLine (promLabelValue v)"
    using runes_good [of v] promRune_oneLine by (auto simp: promLabelValue_def oneLine_def)
  ultimately show ?thesis using toValidUTF8_valid by (simp add: promLabelValue_def oneLine_def)
qed

theorem prom_label_roundtrip_witness:
  "readLabel (tl (promLabelValue [CHR ''a'', CHR 0x0A, CHR 0x22]) @ ''} 1'') = Some ([CHR ''a'', CHR 0x0A, CHR 0x22], ''} 1'')"
proof -
  let ?v = "[CHR ''a'', CHR 0x0A, CHR 0x22]"
  have "runes ?v = [Inr ''a'', Inr [CHR 0x0A], Inr [CHR 0x22]]" by code_simp
  then have "validUTF8 ?v" by (simp add: validUTF8_def)
  with prom_label_roundtrip [of ?v "''} 1''"] show ?thesis by auto
qed

section \<open>The Prometheus text does not depend on the order of the results\<close>

text \<open>What \<open>sort.Slice\<close> documents: a permutation, ordered by the key\<close>

definition sortsByID :: "(result list \<Rightarrow> result list) \<Rightarrow> bool" where
  "sortsByID srt \<longleftrightarrow> (\<forall>rs. mset (srt rs) = mset rs \<and> sorted (map rCheckID (srt rs)))"

lemma sortsByID_unique:
  assumes "sortsByID srt" and "distinct (map rCheckID rs)"
  shows "srt rs = sort_key rCheckID rs"
proof -
  have m: "mset (srt rs) = mset rs" "sorted (map rCheckID (srt rs))" using assms(1) by (auto simp: sortsByID_def)
  have "sort_key rCheckID (srt rs) = srt rs" using m(2) by (simp add: sort_key_id_if_sorted)
  moreover have "sort_key rCheckID rs = sort_key rCheckID (srt rs)"
    using sort_key_perm_cong [of rCheckID rs "srt rs"] assms(2) m(1) by (simp add: distinct_map)
  ultimately show ?thesis by simp
qed

text \<open>
  Property C35: the Prometheus text is deterministic. For any sort that meets the documentation of
  \<open>sort.Slice\<close>, stable or not, and results with distinct IDs, the text is the same for every order in which
  the results stand in the report; within it each check has exactly the four rows of its states, in the
  order of the IDs.
\<close>

theorem prom_deterministic:
  assumes "sortsByID srt" and "sortsByID srt'" and "distinct (map rCheckID (repResults rep))"
    and "mset rs = mset (repResults rep)"
  shows "promText srt gv rep = promText srt' gv (rep\<lparr>repResults := rs\<rparr>)
    \<and> writeCheckStateMetric srt rs =
        writeHelp metricCheckState ''Result of one mitigation check (1 = current state).''
        @ writeType metricCheckState ''gauge''
        @ concat [checkStateRow r s. r \<leftarrow> sort_key rCheckID rs, s \<leftarrow> [StatePass, StateFail, StateSkip, StateError]] @ nl"
proof -
  have d: "distinct (map rCheckID rs)"
    using assms(3,4) by (metis distinct_map mset_eq_imp_distinct_iff set_mset_mset)
  have "sort_key rCheckID rs = sort_key rCheckID (repResults rep)"
    using sort_key_perm_cong [of rCheckID rs "repResults rep"] d assms(4) by (simp add: distinct_map)
  then have "srt (repResults rep) = srt' rs"
    using sortsByID_unique [OF assms(1,3)] sortsByID_unique [OF assms(2) d] by simp
  then have "promText srt gv rep = promText srt' gv (rep\<lparr>repResults := rs\<rparr>)"
    by (simp add: promText_def writeCheckStateMetric_def writeCheckDurationMetric_def writeLastRunMetric_def)
  moreover have "concat (map (\<lambda>r. concat (map (checkStateRow r) promStateValues)) xs) =
      concat [checkStateRow r s. r \<leftarrow> xs, s \<leftarrow> [StatePass, StateFail, StateSkip, StateError]]" for xs
    by (induction xs) (simp_all add: promStateValues_def)
  ultimately show ?thesis
    using sortsByID_unique [OF assms(1) d] by (simp add: writeCheckStateMetric_def)
qed

theorem prom_deterministic_witness:
  "promText (sort_key rCheckID) ''go1.26'' (emptyReport 0 [demoResult, zeroResult])
     = promText (sort_key rCheckID) ''go1.26'' ((emptyReport 0 [demoResult, zeroResult])\<lparr>repResults := [zeroResult, demoResult]\<rparr>)"
proof -
  have s: "sortsByID (sort_key rCheckID)" by (simp add: sortsByID_def)
  let ?rep = "emptyReport 0 [demoResult, zeroResult]"
  have "distinct (map rCheckID (repResults ?rep))" by (simp add: emptyReport_def demoResult_def zeroResult_def)
  moreover have "mset [zeroResult, demoResult] = mset (repResults ?rep)" by (simp add: emptyReport_def)
  ultimately show ?thesis by (rule prom_deterministic [OF s s, THEN conjunct1])
qed

end
