(* ===== verification/PromRead.thy ===== *)
theory PromRead
  imports RenderFacts JsonDecode
begin

text \<open>
  A reader of the check state rows of the Prometheus text, and what it gets from the text of a report: every row that
  was written, with the labels that were written, and no other.
\<close>

definition expect :: "string \<Rightarrow> string \<Rightarrow> string option" where
  "expect p s = (if prefix p s then Some (drop (length p) s) else None)"

type_synonym promRow = "string \<times> string \<times> string \<times> string"

definition readField :: "string \<Rightarrow> string \<Rightarrow> (string \<times> string) option" where
  "readField p s = Option.bind (expect (p @ [CHR 0x22]) s) readLabel"

text \<open>The labels and the value of a line that carries a check state; nothing for any other line\<close>

definition readStateRow :: "string \<Rightarrow> promRow option" where
  "readStateRow line =
     Option.bind (readField (metricCheckState @ ''{check_id='') line) (\<lambda>(i, s).
     Option.bind (readField '',severity='' s) (\<lambda>(sev, s).
     Option.bind (readField '',state='' s) (\<lambda>(st, s).
     map_option (\<lambda>v. (i, sev, st, v)) (expect ''} '' s))))"

definition readStateRows :: "string \<Rightarrow> promRow list" where
  "readStateRows text = List.map_filter readStateRow (splitByte CHR 0x0A text)"

section \<open>One row\<close>

lemma expect_append [simp]: "expect p (p @ s) = Some s"
  by (simp add: expect_def)

lemma readLabel_written: "readLabel (concat (map promRune (runes v)) @ CHR 0x22 # rest) = Some (toValidUTF8 v, rest)"
  using readLabel_runes [OF runes_good] by (simp add: toValidUTF8_def)

lemma readField_written: "readField p (p @ promLabelValue v @ s) = Some (toValidUTF8 v, s)"
  using expect_append [of "p @ [CHR 0x22]" "concat (map promRune (runes v)) @ CHR 0x22 # s"] readLabel_written [of v s]
  by (simp add: readField_def promLabelValue_def)

definition stateLine :: "result \<Rightarrow> State \<Rightarrow> string" where
  "stateLine r s = (metricCheckState @ ''{check_id='') @ promLabelValue (rCheckID r) @ '',severity='' @ promLabelValue (rSeverity r)
       @ '',state='' @ promLabelValue s @ ''} '' @ showNat (if rState r = s then 1 else 0)"

lemma checkStateRow_line: "checkStateRow r s = stateLine r s @ nl"
  by (simp add: checkStateRow_def stateLine_def)

lemma readStateRow_line: "readStateRow (stateLine r s) =
    Some (toValidUTF8 (rCheckID r), toValidUTF8 (rSeverity r), toValidUTF8 s, showNat (if rState r = s then 1 else 0))"
  unfolding stateLine_def readStateRow_def
  by (simp only: readField_written bind.bind_lunit prod.case expect_append option.map)

section \<open>The lines of the text\<close>

lemma oneLine_concat: "oneLine (concat ls) \<longleftrightarrow> list_all oneLine ls"
  by (induction ls) simp_all

lemma promLabelValue_oneLine [simp]: "oneLine (promLabelValue v)"
  using runes_good [of v] promRune_oneLine by (simp add: promLabelValue_def oneLine_concat list_all_iff)

lemma oneLine_sub: "set s \<subseteq> set t \<Longrightarrow> oneLine t \<Longrightarrow> oneLine s"
  by (auto simp: oneLine_def)

lemma itoa_oneLine [simp]: "oneLine (itoa i)"
  by (simp add: itoa_def)

lemma formatG_oneLine [simp]: "oneLine (formatG f)"
proof -
  have t: "oneLine (trimZeros s)" if "oneLine s" for s
    by (rule oneLine_sub [OF _ that]) (auto simp: trimZeros_def trimRightSet_def dest: set_dropWhileD)
  have sub: "oneLine (take k s)" "oneLine (drop k s)" if "oneLine s" for k s
    by (rule oneLine_sub [OF _ that], auto dest: in_set_takeD in_set_dropD)+
  have zeros: "oneLine (replicate k CHR ''0'')" for k by (simp add: oneLine_def)
  show ?thesis by (simp add: formatG_def exponentText_def Let_def t sub zeros split: prod.split)
qed

lemma formatMillis_oneLine [simp]: "oneLine (formatMillis ms)"
  by (simp add: formatMillis_def Let_def)

text \<open>A text of whole lines none of which is a row of a check state\<close>

definition silent :: "string \<Rightarrow> bool" where
  "silent t \<longleftrightarrow> (\<exists>ls. t = unlines ls \<and> (\<forall>l\<in>set ls. oneLine l \<and> readStateRow l = None))"

lemma unlines_append [simp]: "unlines (xs @ ys) = unlines xs @ unlines ys"
  by (induction xs) simp_all

lemma silent_append: "silent a \<Longrightarrow> silent b \<Longrightarrow> silent (a @ b)"
  unfolding silent_def by (metis Un_iff set_append unlines_append)

lemma silent_nil: "silent []"
  unfolding silent_def by (rule exI [of _ "[]"]) simp

lemma silent_line: "oneLine l \<Longrightarrow> readStateRow l = None \<Longrightarrow> silent (l @ nl)"
  unfolding silent_def by (rule exI [of _ "[l]"]) simp

lemma silent_concat: "(\<And>x. x \<in> set xs \<Longrightarrow> silent (f x)) \<Longrightarrow> silent (concat (map f xs))"
  by (induction xs) (simp_all add: silent_nil silent_append)

lemma no_row: "\<not> prefix (metricCheckState @ ''{'') l \<Longrightarrow> readStateRow l = None"
proof -
  have "\<not> prefix (metricCheckState @ ''{check_id='' @ [CHR 0x22]) l" if "\<not> prefix (metricCheckState @ ''{'') l"
    using that append_prefixD [of "metricCheckState @ ''{''" "''check_id='' @ [CHR 0x22]" l] by auto
  then show "\<not> prefix (metricCheckState @ ''{'') l \<Longrightarrow> readStateRow l = None"
    by (simp add: readStateRow_def readField_def expect_def)
qed

lemmas silent_simps = metricCheckState_def metricCheckDurationSeconds_def metricSummary_def metricRequiredFailures_def
  metricLastRunTimestamp_def metricBuildInfo_def

lemma silent_blank: "silent nl"
  using silent_line [of "[]"] by (simp add: no_row metricCheckState_def)

lemma silent_comment: "oneLine name \<Longrightarrow> oneLine t \<Longrightarrow> silent (writeHelp name t)" "oneLine name \<Longrightarrow> oneLine t \<Longrightarrow> silent (writeType name t)"
proof -
  have "readStateRow (CHR ''#'' # s) = None" for s by (rule no_row) (simp add: metricCheckState_def)
  then have "silent ((''# HELP '' @ name @ '' '' @ t) @ nl)" "silent ((''# TYPE '' @ name @ '' '' @ t) @ nl)"
    if "oneLine name" "oneLine t" using that by (intro silent_line; simp)+
  then show "oneLine name \<Longrightarrow> oneLine t \<Longrightarrow> silent (writeHelp name t)" "oneLine name \<Longrightarrow> oneLine t \<Longrightarrow> silent (writeType name t)"
    by (simp_all add: writeHelp_def writeType_def)
qed

lemma silent_metric:
  assumes "oneLine (n @ s)" "\<not> prefix (metricCheckState @ ''{'') (n @ s)"
  shows "silent (n @ s @ nl)"
  using silent_line [OF assms(1) no_row [OF assms(2)]] by simp

lemma silent_rows:
  "silent (metricCheckDurationSeconds @ ''{check_id='' @ promLabelValue v @ ''} '' @ formatMillis d @ nl)"
  "silent (metricRequiredFailures @ '' '' @ showNat n @ nl)" "silent (metricLastRunTimestamp @ '' '' @ itoa i @ nl)"
  "silent (metricBuildInfo @ ''{version='' @ promLabelValue v @ '',commit='' @ promLabelValue c
      @ '',go_version='' @ promLabelValue g @ ''} 1'' @ nl)"
  "silent (summaryRow v n)"
  unfolding summaryRow_def
  using silent_metric [of metricCheckDurationSeconds "''{check_id='' @ promLabelValue v @ ''} '' @ formatMillis d"]
    silent_metric [of metricRequiredFailures "'' '' @ showNat n"] silent_metric [of metricLastRunTimestamp "'' '' @ itoa i"]
    silent_metric [of metricBuildInfo "''{version='' @ promLabelValue v @ '',commit='' @ promLabelValue c
      @ '',go_version='' @ promLabelValue g @ ''} 1''"]
    silent_metric [of metricSummary "''{outcome='' @ promLabelValue v @ ''} '' @ showNat n"]
  by (simp_all add: silent_simps)

lemma silent_header: "oneLine name \<Longrightarrow> oneLine t \<Longrightarrow> oneLine k \<Longrightarrow> silent z \<Longrightarrow> silent (writeHelp name t @ writeType name k @ z)"
  by (intro silent_append silent_comment)

lemma silent_duration: "silent (writeCheckDurationMetric srt results)"
  unfolding writeCheckDurationMetric_def
  by (rule silent_header [OF _ _ _ silent_append [OF silent_concat [OF silent_rows(1)] silent_blank]])
    (simp_all add: silent_simps)

lemma silent_summary: "silent (writeSummaryMetric s)"
  unfolding writeSummaryMetric_def
  by (rule silent_header [OF _ _ _ silent_append [OF silent_rows(5) silent_append [OF silent_rows(5)
        silent_append [OF silent_rows(5) silent_append [OF silent_rows(5) silent_blank]]]]])
    (simp_all add: silent_simps)

lemma silent_two: "silent (n @ sep @ v @ nl) \<Longrightarrow> silent (n @ sep @ v @ nl @ nl)"
  using silent_append [OF _ silent_blank, of "n @ sep @ v @ nl"] by simp

lemma silent_failures: "silent (writeRequiredFailuresMetric s)"
  unfolding writeRequiredFailuresMetric_def
  by (rule silent_header [OF _ _ _ silent_two [OF silent_rows(2)]]) (simp_all add: silent_simps)

lemma silent_last: "silent (writeLastRunMetric rep)"
  unfolding writeLastRunMetric_def
  by (rule silent_header [OF _ _ _ silent_two [OF silent_rows(3)]]) (simp_all add: silent_simps)

lemma silent_build: "silent (writeBuildInfoMetric goVersion t)"
  unfolding writeBuildInfoMetric_def
  by (rule silent_header [OF _ _ _ silent_rows(4)]) (simp_all add: silent_simps)

section \<open>Every row is read back\<close>

definition rowsOf :: "result \<Rightarrow> promRow list" where
  "rowsOf r = map (\<lambda>s. (toValidUTF8 (rCheckID r), toValidUTF8 (rSeverity r), s, if rState r = s then ''1'' else ''0''))
     promStateValues"

lemma stateLine_oneLine [simp]: "oneLine (stateLine r s)"
  by (simp add: stateLine_def silent_simps)

lemma readStateRows_silent:
  assumes "silent a" "silent b" "\<forall>l\<in>set ls. oneLine l"
  shows "readStateRows (a @ unlines ls @ b) = List.map_filter readStateRow ls"
proof -
  obtain la lb where a: "a = unlines la" "\<forall>l\<in>set la. oneLine l \<and> readStateRow l = None"
    and b: "b = unlines lb" "\<forall>l\<in>set lb. oneLine l \<and> readStateRow l = None"
    using assms(1,2) by (auto simp: silent_def)
  have "splitByte CHR 0x0A (unlines (la @ ls @ lb)) = (la @ ls @ lb) @ [[]]"
    using assms(3) a(2) b(2) by (intro splitByte_unlines) (auto simp: oneLine_def)
  moreover have "List.map_filter readStateRow la = []" "List.map_filter readStateRow (lb @ [[]]) = []"
    using a(2) b(2) no_row [of "[]"] by (auto simp: map_filter_Nil_iff metricCheckState_def)
  moreover have "List.map_filter f (xs @ ys) = List.map_filter f xs @ List.map_filter f ys" for f :: "string \<Rightarrow> promRow option" and xs ys
    by (simp add: map_filter_def)
  ultimately show ?thesis by (simp add: readStateRows_def a(1) b(1))
qed

lemma state_values_ascii: "s \<in> set promStateValues \<Longrightarrow> toValidUTF8 s = s"
proof -
  have "list_all ascii promStateValues" by code_simp
  then show "s \<in> set promStateValues \<Longrightarrow> toValidUTF8 s = s" by (simp add: list_all_iff toValid_ascii)
qed

lemma showNat_bit: "showNat (if b then 1 else 0) = (if b then ''1'' else ''0'')"
proof -
  have "showNat 1 = ''1''" "showNat 0 = ''0''" by code_simp+
  then show ?thesis by simp
qed

lemma readRows:
  "readStateRows (promText srt goVersion rep) = concat (map rowsOf (srt (repResults rep)))"
proof -
  let ?ls = "concat (map (\<lambda>r. map (stateLine r) promStateValues) (srt (repResults rep)))"
  let ?H = "writeHelp metricCheckState ''Result of one mitigation check (1 = current state).'' @ writeType metricCheckState ''gauge''"
  let ?T = "nl @ writeCheckDurationMetric srt (repResults rep) @ writeSummaryMetric (repSummary rep)
     @ writeRequiredFailuresMetric (repSummary rep) @ writeLastRunMetric rep @ writeBuildInfoMetric goVersion (repTool rep)"
  have "concat (map (\<lambda>r. concat (map (checkStateRow r) promStateValues)) rs)
      = unlines (concat (map (\<lambda>r. map (stateLine r) promStateValues) rs))" for rs
    by (induction rs) (simp_all add: promStateValues_def checkStateRow_line)
  then have "promText srt goVersion rep = ?H @ unlines ?ls @ ?T"
    by (simp add: promText_def writeCheckStateMetric_def)
  moreover have "silent ?H" by (intro silent_append silent_comment) (simp_all add: silent_simps)
  moreover have "silent ?T"
    by (intro silent_append silent_blank silent_duration silent_summary silent_failures silent_last silent_build)
  moreover have "\<forall>l\<in>set ?ls. oneLine l" by auto
  ultimately have "readStateRows (promText srt goVersion rep) = List.map_filter readStateRow ?ls"
    by (simp only: readStateRows_silent)
  also have "\<dots> = concat (map rowsOf (srt (repResults rep)))"
  proof -
    have "List.map_filter readStateRow (concat (map (\<lambda>r. map (stateLine r) promStateValues) rs)) = concat (map rowsOf rs)" for rs
      by (induction rs) (simp_all add: map_filter_def readStateRow_line rowsOf_def state_values_ascii showNat_bit)
    then show ?thesis .
  qed
  finally show ?thesis .
qed

text \<open>
  The check state rows of the Prometheus text can be read back. Whatever the identifiers and severities are, a
  reader of the text finds exactly the four rows of every result, in the order of the sort, with the labels that were
  written (invalid bytes replaced) and with 1 in the row of the result's state and 0 in the others; no other line of the
  text, the build labels included, can pass for such a row.
\<close>

theorem prom_rows_roundtrip:
  "readStateRows (promText srt goVersion rep) = concat (map rowsOf (srt (repResults rep)))"
  by (rule readRows)

end
