(* ===== verification/Delivery.thy ===== *)
theory Delivery
  imports RenderSarifFacts PromRead
begin

text \<open>
  The renderers, the registry and the command line together: what the report that was written says about the host is
  what the exit code says.
\<close>

text \<open>
  How a reader of each format takes the verdict from the text: the two counters of the JSON summary, the flag of the
  SARIF invocation, the line before the totals of the human report, as a terminal shows it, the rows of the required
  checks' states in the Prometheus text.
\<close>

text \<open>What a terminal shows of a text with colours: an escape sequence ends with its \<open>m\<close>.\<close>

primrec plainText :: "bool \<Rightarrow> string \<Rightarrow> string" where
  "plainText escaped [] = []"
| "plainText escaped (c # s) =
     (if escaped then plainText (c \<noteq> CHR ''m'') s
      else if c = esc then plainText True s
      else c # plainText False s)"

definition promClean :: "promRow list \<Rightarrow> bool" where
  "promClean rows \<longleftrightarrow>
     list_all (\<lambda>(i, sev, st, v). \<not> (sev = SeverityRequired \<and> (st = StateFail \<or> st = StateError) \<and> v = ''1'')) rows"

definition saysClean :: "Format \<Rightarrow> string \<Rightarrow> bool" where
  "saysClean f out =
     (if f = FormatJSON then
        (case decode out of None \<Rightarrow> False
         | Some v \<Rightarrow> jsonPath [''summary'', ''required'', ''fail''] v = Some (JNumber ''0'')
             \<and> jsonPath [''summary'', ''required'', ''error''] v = Some (JNumber ''0''))
      else if f = FormatSARIF then
        (case Option.bind (Option.bind (decode out) firstRun) (jsonPath [''invocations'']) of None \<Rightarrow> False
         | Some invs \<Rightarrow> Option.bind (jsonAt 0 invs) (jsonGet ''executionSuccessful'') = Some (JBool True))
      else if f = FormatPrometheus then promClean (readStateRows out)
      else plainText False (rev (splitByte CHR 0x0A out) ! 2) = ''validator result: PASS'')"

text \<open>
  A writer that keeps whatever it is given. It may be a file or not, a terminal or not, and whatever the environment
  variables are.
\<close>

definition keepsAll :: "string writeEnv \<Rightarrow> bool" where
  "keepsAll env \<longleftrightarrow> weWrite env = (\<lambda>w b. ((int (length b), None), w @ b))"

lemma keeps_mem: "keepsAll (memWriter g)"
  by (simp add: keepsAll_def memWriter_def)

lemma flush_keeps: "keepsAll env \<Longrightarrow> flushAll env w b = ((int (length b), None), w @ b)"
  by (simp add: flushAll_def keepsAll_def)

lemma colourless:
  assumes "keepsAll env"
  shows "renderJSON env w rep = renderJSON (memWriter (weGetenv env)) w rep"
    and "renderSARIF env w rep = renderSARIF (memWriter (weGetenv env)) w rep"
    and "renderPrometheus env srt goVersion w rep = renderPrometheus (memWriter (weGetenv env)) srt goVersion w rep"
proof -
  have "weGetenv (memWriter g) = g" for g by (simp add: memWriter_def)
  then show "renderJSON env w rep = renderJSON (memWriter (weGetenv env)) w rep"
    "renderSARIF env w rep = renderSARIF (memWriter (weGetenv env)) w rep"
    "renderPrometheus env srt goVersion w rep = renderPrometheus (memWriter (weGetenv env)) srt goVersion w rep"
    using assms by (simp_all add: renderJSON_def renderSARIF_def renderPrometheus_def flush_keeps flush_memWriter split: sum.split)
qed

lemma showNat_zero: "showNat n = ''0'' \<longleftrightarrow> n = 0"
  using showNat_hd_nonzero [of n] by (cases "n = 0") (auto simp: showNat_0)

lemma clean_json:
  assumes "reportEncodable rep" "nest (reportJson rep) \<le> 10000"
  shows "saysClean FormatJSON (snd (renderJSON (memWriter getenv) [] rep)) \<longleftrightarrow> computeExit rep = exitOK"
proof -
  have "computeExit rep = exitOK \<longleftrightarrow> bFail (sRequired (repSummary rep)) = 0 \<and> bError (sRequired (repSummary rep)) = 0"
    by (simp add: computeExit_def exitCodes)
  then show ?thesis
    by (simp add: saysClean_def report_texts(2) [OF assms] reportJson_def hostJson_def summaryJson_def bucketJson_def natJson_def
        doc_simps showNat_zero)
qed

lemma clean_sarif: "saysClean FormatSARIF (snd (renderSARIF (memWriter getenv) [] rep)) \<longleftrightarrow> computeExit rep = exitOK"
proof -
  obtain run invs where "firstRun (denoted (sarifDoc rep)) = Some run" "jsonPath [''invocations''] run = Some invs"
    "Option.bind (jsonAt 0 invs) (jsonGet ''executionSuccessful'') = Some (JBool (siExecutionSuccessful (buildSARIFInvocation rep)))"
    using sarif_paths by blast
  then show ?thesis
    by (simp add: saysClean_def sarif_text buildSARIFInvocation_def computeExit_def exitCodes del: jsonPath.simps)
qed

lemma splitByte_both: "splitByte c (x @ c # y) = splitByte c x @ splitByte c y"
  by (induction x) (auto split: list.split)

lemma splitByte_two_lines:
  "oneLine a \<Longrightarrow> oneLine b \<Longrightarrow> splitByte CHR 0x0A (a @ CHR 0x0A # b @ CHR 0x0A # []) = [a, b, []]"
  by (simp add: splitByte_both oneLine_def splitByte_absent)

text \<open>The verdict line, in colours or not, and the text around it\<close>

definition verdictText :: "bool \<Rightarrow> bool \<Rightarrow> string" where
  "verdictText ok useColor =
     ''validator result: '' @ (if useColor then (if ok then ansiGreen else ansiRed) @ ansiBold else [])
       @ (if ok then ''PASS'' else ''FAIL'') @ (if useColor then ansiReset else [])"

lemma verdictText_plain: "plainText False (verdictText ok useColor) = ''validator result: '' @ (if ok then ''PASS'' else ''FAIL'')"
  by (simp add: verdictText_def ansiGreen_def ansiRed_def ansiBold_def ansiReset_def)

lemma verdictText_oneLine: "oneLine (verdictText ok useColor)"
  by (simp add: verdictText_def ansiGreen_def ansiRed_def ansiBold_def ansiReset_def)

lemma lines_end: "concat (map (\<lambda>r. writeResultLine r useColor) rs) = [] \<or> (\<exists>t. concat (map (\<lambda>r. writeResultLine r useColor) rs) = t @ [CHR 0x0A])"
  by (cases rs rule: rev_cases) (auto simp: writeResultLine_def Let_def)

lemma human_verdict_line: "rev (splitByte CHR 0x0A (humanText rep useColor)) ! 2 = verdictText (computeExit rep = 0) useColor"
proof -
  let ?V = "verdictText (computeExit rep = 0) useColor"
  let ?R = "concat (map (\<lambda>r. writeResultLine r useColor) (repResults rep))"
  let ?F = "?V @ CHR 0x0A # totalsText (repSummary rep) @ CHR 0x0A # []"
  have F: "splitByte CHR 0x0A ?F = [?V, totalsText (repSummary rep), []]"
    by (rule splitByte_two_lines [OF verdictText_oneLine]) (auto simp: totalsText_def)
  have "humanText rep useColor = ?R @ ?F"
    by (simp add: humanText_def writeFooter_def verdictText_def totalsText_def computeExit_0 Let_def ansiGreen_def ansiRed_def)
  moreover have "rev (splitByte CHR 0x0A (?R @ ?F)) ! 2 = ?V"
  proof (cases "?R = []")
    case False
    then obtain t where "?R @ ?F = t @ CHR 0x0A # ?F" using lines_end [of useColor "repResults rep"] by fastforce
    then show ?thesis by (simp only: splitByte_both [of "CHR 0x0A" t ?F] F) simp
  qed (simp only: append.simps F, simp)
  ultimately show ?thesis by (simp only:)
qed

lemma clean_human:
  assumes "keepsAll env"
  shows "saysClean FormatHuman (snd (renderHuman env [] rep)) \<longleftrightarrow> computeExit rep = exitOK"
  by (simp add: saysClean_def renderHuman_def flush_keeps [OF assms] human_verdict_line verdictText_plain exitCodes)

lemma toValid_required: "toValidUTF8 s = SeverityRequired \<longleftrightarrow> s = SeverityRequired"
proof
  assume eq: "toValidUTF8 s = SeverityRequired"
  have "\<exists>cs. r = Inr cs" if "r \<in> set (runes s)" for r
  proof (cases r)
    case (Inl c)
    have "set replacementRune \<subseteq> set (toValidUTF8 s)" using that Inl by (force simp: toValidUTF8_def runeText_def)
    then have "set replacementRune \<subseteq> set SeverityRequired" using eq by simp
    then show ?thesis by (simp add: replacementRune_def)
  qed simp
  then have "validUTF8 s" by (simp add: validUTF8_def list_all_iff)
  then show "s = SeverityRequired" using eq toValidUTF8_valid by simp
qed (simp add: toValid_ascii ascii_def)

lemma promClean_rows: "promClean (concat (map rowsOf rs)) \<longleftrightarrow> (\<forall>r\<in>set rs. resultVerdict r = Mitigated)"
proof -
  have "promClean (rowsOf r) \<longleftrightarrow> resultVerdict r = Mitigated" for r
    by (auto simp: promClean_def rowsOf_def promStateValues_def resultVerdict_def isRequired_def toValid_required)
  moreover have "promClean (a @ b) \<longleftrightarrow> promClean a \<and> promClean b" for a b by (simp add: promClean_def)
  moreover have "promClean []" by (simp add: promClean_def)
  ultimately show ?thesis by (induction rs) simp_all
qed

lemma clean_prom:
  assumes "sortsByID srt" "repSummary rep = newSummary (repResults rep)"
  shows "saysClean FormatPrometheus (snd (renderPrometheus (memWriter getenv) srt goVersion [] rep)) \<longleftrightarrow> computeExit rep = exitOK"
proof -
  have "set (srt rs) = set rs" for rs using assms(1) by (metis set_mset_mset sortsByID_def)
  then have "promClean (readStateRows (promText srt goVersion rep)) \<longleftrightarrow> (\<forall>r\<in>set (repResults rep). resultVerdict r = Mitigated)"
    by (simp add: readRows promClean_rows)
  also have "\<dots> \<longleftrightarrow> computeExit rep = exitOK"
    using computeExit_cases [OF assms(2)] worstVerdict_Mitigated [of "repResults rep"]
    by (cases "worstVerdict (repResults rep)") (auto simp: exitCodes)
  finally show ?thesis by (simp add: saysClean_def renderPrometheus_def flush_memWriter)
qed

text \<open>Whatever was rendered without an error into an empty buffer says what the exit code says.\<close>

lemma json_success: "renderJSON env w rep = ((n, None), t) \<Longrightarrow> reportEncodable rep"
  by (auto simp: renderJSON_def marshalReport_def split: if_splits)

lemma delivered_clean:
  assumes "parseFormat s = Inr f" "sortsByID srt" "repSummary rep = newSummary (repResults rep)" "keepsAll env"
    and "writeTo (initRenderers env srt goVersion g) rep [] f = ((n, None), text)"
    and "nest (reportJson rep) \<le> 10000"
  shows "saysClean f text \<longleftrightarrow> computeExit rep = exitOK"
proof -
  have w: "formatRenderer srt goVersion f env [] rep = ((n, None), text)"
    using assms(5) by (simp add: writeTo_init [OF nameable_known [OF assms(1)]])
  from assms(1) show ?thesis
  proof (rule nameable_cases)
    assume f: "f = FormatJSON"
    with w have json: "renderJSON env [] rep = ((n, None), text)" by (simp add: formatRenderer_def)
    with colourless(1) [OF assms(4)] have "snd (renderJSON (memWriter (weGetenv env)) [] rep) = text" by simp
    with f clean_json [OF json_success [OF json] assms(6), of "weGetenv env"] show ?thesis by simp
  next
    assume f: "f = FormatSARIF"
    with w have "snd (renderSARIF env [] rep) = text" by (simp add: formatRenderer_def)
    with colourless(2) [OF assms(4)] f clean_sarif [of "weGetenv env" rep] show ?thesis by simp
  next
    assume f: "f = FormatHuman"
    with w have "snd (renderHuman env [] rep) = text" by (simp add: formatRenderer_def)
    with f clean_human [OF assms(4), of rep] show ?thesis by simp
  next
    assume f: "f = FormatPrometheus"
    with w have "snd (renderPrometheus env srt goVersion [] rep) = text" by (simp add: formatRenderer_def)
    with colourless(3) [OF assms(4)] f clean_prom [OF assms(2,3), of "weGetenv env" goVersion] show ?thesis by simp
  qed
qed

text \<open>The renderers fail on such a buffer only for a report that cannot be encoded.\<close>

lemma renders_kept:
  assumes "parseFormat s = Inr f" "keepsAll env" "reportEncodable rep" "nest (reportJson rep) \<le> 10000"
  shows "\<exists>n text. writeTo (initRenderers env srt goVersion g) rep w f = ((n, None), text)"
proof -
  have "int (nest (sarifDoc rep)) \<le> maxNestingDepth" using sarif_nest [of rep] by (simp add: maxNestingDepth_def)
  with assms show ?thesis
    by (simp add: writeTo_init [OF nameable_known [OF assms(1)]] formatRenderer_def renderHuman_def renderPrometheus_def
        renderJSON_def renderSARIF_def marshalReport_def indentDoc_def maxNestingDepth_def flush_keeps)
qed

text \<open>
  Property C4: the verdict that is written is the verdict that is returned. When the report is written to a writer that
  accepts everything, a terminal or not, in any of the four formats that the user can name, the run ends with the report written; reading
  the verdict from the text gives a clean host exactly when the exit code computed from the report is 0, and that is the
  code returned unless a signal takes precedence.
\<close>

theorem verdict_delivered:
  assumes "parseFormat s = Inr (opFormat opts)"
    and "sortsByID srt" "repSummary rep = newSummary (repResults rep)" "keepsAll env"
    and "openOutput outs (opOutput opts) = Inr []"
    and "reportEncodable rep" "nest (reportJson rep) \<le> 10000"
    and "finishRun (initRenderers env srt goVersion g) outs opts ctxErr rep = (code, out)"
  shows "\<exists>text. out = Some text \<and> (saysClean (opFormat opts) text \<longleftrightarrow> computeExit rep = exitOK)
    \<and> code = (if signalExitCode ctxErr \<noteq> 0 then signalExitCode ctxErr else computeExit rep)"
proof -
  obtain n out_text where w: "writeTo (initRenderers env srt goVersion g) rep [] (opFormat opts) = ((n, None), out_text)"
    using renders_kept [OF assms(1,4,6,7)] by blast
  from delivered_clean [OF assms(1-4) w assms(7)]
  have "saysClean (opFormat opts) out_text \<longleftrightarrow> computeExit rep = exitOK" .
  then show ?thesis using assms(5,8) w by (auto simp: finishRun_def split: if_splits)
qed

definition demoOpts :: "Format \<Rightarrow> options" where
  "demoOpts f = \<lparr>opFormat = f, opOutput = ''-'', opModule = [], opConf = [], opOnly = [], opSkip = [], opTimeout = 1,
     opConcurrency = 1, opVerbosity = 0, opNoColor = False\<rparr>"

theorem verdict_delivered_witness:
  "\<exists>text. finishRun (initRenderers (memWriter (\<lambda>_. [])) (sort_key rCheckID) ''go'' emptyRegistry)
      \<lparr>outStdout = [], outOpenFile = (\<lambda>p. Inl (plainErr p))\<rparr> (demoOpts FormatPrometheus) None demoReport
      = (exitMitigationGap, Some text) \<and> \<not> saysClean FormatPrometheus text"
proof -
  let ?outs = "\<lparr>outStdout = [], outOpenFile = (\<lambda>p. Inl (plainErr p))\<rparr>"
  obtain code out where r: "finishRun (initRenderers (memWriter (\<lambda>_. [])) (sort_key rCheckID) ''go'' emptyRegistry) ?outs
      (demoOpts FormatPrometheus) None demoReport = (code, out)" by fastforce
  have "toLower ''prometheus'' = ''prometheus''" by code_simp
  then have "parseFormat ''prometheus'' = Inr (opFormat (demoOpts FormatPrometheus))" by (simp add: parseFormat_def demoOpts_def)
  moreover have "sortsByID (sort_key rCheckID)" by (simp add: sortsByID_def)
  moreover have "repSummary demoReport = newSummary (repResults demoReport)" by (simp add: demoReport_def Let_def)
  moreover have "openOutput ?outs (opOutput (demoOpts FormatPrometheus)) = Inr []"
    by (simp add: openOutput_def demoOpts_def stdoutSentinel_def)
  ultimately have "\<exists>text. out = Some text \<and> (saysClean (opFormat (demoOpts FormatPrometheus)) text \<longleftrightarrow> computeExit demoReport = exitOK)
    \<and> code = (if signalExitCode None \<noteq> 0 then signalExitCode None else computeExit demoReport)"
    using demo_report r by (intro verdict_delivered [OF _ _ _ keeps_mem])
  moreover have "computeExit demoReport = exitMitigationGap"
    by (simp add: demoReport_def Let_def newSummary_tally isRequired_def computeExit_def exitCodes)
  ultimately show ?thesis using r by (auto simp: signalExitCode_def demoOpts_def exitCodes)
qed

end
