(* ===== verification/Program.thy ===== *)
theory Program
  imports Usage HostInfo MainProps Delivery RunnerLogFacts
begin

text \<open>
  The assembled program: \<open>main\<close> with \<open>run\<close>, the loaded renderers, the gathering of the host information, the build
  identity and what is written to standard error, the runner's log included. Its exit codes are those of the exit-code model
  \<open>cliRun\<close>.
\<close>

section \<open>The process\<close>

text \<open>
  What the operating system gives the process: its environment variables, the standard output, the file system and the
  commands, the clock, the random source; and how the binary was built.
\<close>

record ('s, 'w) process =
  pcGetenv :: "string \<Rightarrow> string"
  pcSetenv :: "goerr option"
  pcStdoutStat :: "goerr + bool"
  pcFrac :: "int \<Rightarrow> int \<Rightarrow> nat \<Rightarrow> int"
  pcRand :: "goerr + string"
  pcVars :: buildVars
  pcHostFS :: hostFS
  pcHostname :: "goerr + string"
  pcWorld :: 's
  pcOS :: "'s osEnv"
  pcNumCPU :: nat
  pcNow :: gotime
  pcWriters :: "'w writeEnv"
  pcOutputs :: "'w outputs"
  pcSort :: "result list \<Rightarrow> result list"
  pcGoVersion :: string

definition processFlags :: "('s, 'w) process \<Rightarrow> flagEnv" where
  "processFlags pc = \<lparr>feGetenv = pcGetenv pc, feStdout = pcStdoutStat pc, feFrac = pcFrac pc\<rparr>"

definition noColorEnv :: string where "noColorEnv = ''NO_COLOR''"

text \<open>The environment after \<open>os.Setenv\<close>, which the renderers read when they run\<close>

definition runGetenv :: "('s, 'w) process \<Rightarrow> options \<Rightarrow> string \<Rightarrow> string" where
  "runGetenv pc opts = (if opNoColor opts then (pcGetenv pc)(noColorEnv := ''1'') else pcGetenv pc)"

text \<open>The renderers as the blank import of \<open>internal/render\<close> registers them\<close>

definition loadedRegistry :: "('s, 'w) process \<Rightarrow> options \<Rightarrow> 'w renderer registry" where
  "loadedRegistry pc opts =
     initRenderers ((pcWriters pc)\<lparr>weGetenv := runGetenv pc opts\<rparr>) (pcSort pc) (pcGoVersion pc) emptyRegistry"

definition gatheredHost :: "('s, 'w) process \<Rightarrow> hostInfo \<times> goerr option" where
  "gatheredHost pc = fst (gather (pcHostFS pc) (pcHostname pc) (osRun (pcOS pc)) (pcWorld pc))"

definition processRunEnv :: "('s, 'w) process \<Rightarrow> options \<Rightarrow> ('s, 'w) runEnv" where
  "processRunEnv pc opts =
     \<lparr>reSetenv = pcSetenv pc, reOS = pcOS pc, reNumCPU = pcNumCPU pc, reHost = fst (gatheredHost pc),
      reTool = buildInfo (pcVars pc), reNow = pcNow pc, reOutputs = pcOutputs pc, reRegistry = loadedRegistry pc opts\<rparr>"

section \<open>Standard error\<close>

definition runLogger :: "('s, 'w) process \<Rightarrow> options \<Rightarrow> unit logger" where
  "runLogger pc opts =
     newLogger () (pcRand pc) (pcVars pc) \<lparr>loWriter = Some (), loRunID = [], loVerbosity = opVerbosity opts\<rparr>"

definition mainRunner :: "('s, 'w) process \<Rightarrow> options \<Rightarrow> unit checkRunner" where
  "mainRunner pc opts =
     \<lparr>ruLogger = Some (runLogger pc opts), ruTimeout = opTimeout opts, ruConcurrency = opConcurrency opts\<rparr>"

text \<open>\<open>fmt.Fprintln(os.Stderr, "copyfail-validate:", ...)\<close>\<close>

definition complain :: "string \<Rightarrow> stderrItem list" where
  "complain msg = [Printed (''copyfail-validate: '' @ msg @ [CHR 0x0A])]"

definition gatherLog :: "('s, 'w) process \<Rightarrow> options \<Rightarrow> stderrItem list" where
  "gatherLog pc opts =
     (case snd (gatheredHost pc) of
        None \<Rightarrow> []
      | Some e \<Rightarrow> logRecord (runLogger pc opts) LevelWarn ''hostinfo gather degraded'' [(''err'', errMsg e)])"

definition finishLog :: "('s, 'w) process \<Rightarrow> options \<Rightarrow> report \<Rightarrow> stderrItem list" where
  "finishLog pc opts rep =
     (case openOutput (pcOutputs pc) (opOutput opts) of
        Inl e \<Rightarrow> logRecord (runLogger pc opts) LevelError ''open output'' [(''err'', errMsg e)]
      | Inr out \<Rightarrow>
          (case snd (fst (writeTo (loadedRegistry pc opts) rep out (opFormat opts))) of
             None \<Rightarrow> []
           | Some e \<Rightarrow> logRecord (runLogger pc opts) LevelError ''render report''
               [(''err'', errMsg e), (''format'', opFormat opts)]))"

section \<open>\<open>main\<close>\<close>

record 'w processOutcome =
  ocCode :: int
  ocStderr :: "stderrItem list"
  ocWritten :: "'w option"

definition flagsOutcome :: "('s, 'w) process \<Rightarrow> string list \<Rightarrow> goerr \<Rightarrow> 'w processOutcome" where
  "flagsOutcome pc argv e =
     (let written = flagsWritten (pcVars pc) (processFlags pc) argv in
      if isHelpOrVersionExit (Some e)
      then \<lparr>ocCode = exitOK, ocStderr = [Printed written], ocWritten = None\<rparr>
      else \<lparr>ocCode = exitUsage, ocStderr = Printed written # complain (errMsg e), ocWritten = None\<rparr>)"

text \<open>
  In the last rule \<open>s\<close> is the state when \<open>Run\<close> has returned and \<open>u\<close> the one in which the context is read for the exit code:
  between the two, workers the run has abandoned may still log, in any order with the lines of \<open>run\<close> itself.
\<close>

inductive programRuns :: "'s hostEnv set \<Rightarrow> ('s, 'w) process \<Rightarrow> string list \<Rightarrow> 'w processOutcome \<Rightarrow> bool"
  for W :: "'s hostEnv set" and pc :: "('s, 'w) process" and argv :: "string list" where
  program_flags: "parseFlags (processFlags pc) argv = Inl e \<Longrightarrow> programRuns W pc argv (flagsOutcome pc argv e)"
| program_setenv: "parseFlags (processFlags pc) argv = Inr opts \<Longrightarrow> opNoColor opts \<Longrightarrow> pcSetenv pc = Some e \<Longrightarrow>
    programRuns W pc argv \<lparr>ocCode = exitToolError, ocStderr = complain (''set NO_COLOR: '' @ errMsg e), ocWritten = None\<rparr>"
| program_filter: "parseFlags (processFlags pc) argv = Inr opts \<Longrightarrow> \<not> (opNoColor opts \<and> pcSetenv pc \<noteq> None) \<Longrightarrow>
    cliChecks (processRunEnv pc opts) opts = Inl e \<Longrightarrow>
    programRuns W pc argv \<lparr>ocCode = exitUsage, ocStderr = gatherLog pc opts @ complain (errMsg e), ocWritten = None\<rparr>"
| program_finish: "parseFlags (processFlags pc) argv = Inr opts \<Longrightarrow> \<not> (opNoColor opts \<and> pcSetenv pc \<noteq> None) \<Longrightarrow>
    cliChecks (processRunEnv pc opts) opts = Inr checks \<Longrightarrow>
    k = effConcurrency (ruConcurrency (mainRunner pc opts)) (pcNumCPU pc) \<Longrightarrow>
    logReaches W gen k checks (logInit gen ctx k (ruTimeout (mainRunner pc opts)) checks) s \<Longrightarrow>
    sysMain (lsSys s) = Returned rep \<Longrightarrow>
    logReaches W gen k checks s u \<Longrightarrow>
    rep' = stampReport (fst (gatheredHost pc)) (buildInfo (pcVars pc)) (pcNow pc) rep \<Longrightarrow>
    finishRun (loadedRegistry pc opts) (pcOutputs pc) opts (sysCtx (lsSys u)) rep' = (code, out) \<Longrightarrow>
    rest \<in> shuffles (finishLog pc opts rep') (logLines (ruLogger (mainRunner pc opts)) (drop (length (lsLog s)) (lsLog u))) \<Longrightarrow>
    programRuns W pc argv
      \<lparr>ocCode = code, ocStderr = gatherLog pc opts @ logLines (ruLogger (mainRunner pc opts)) (lsLog s) @ rest, ocWritten = out\<rparr>"

section \<open>The exit codes\<close>

lemma processRunEnv_sel [simp]:
  "reSetenv (processRunEnv pc opts) = pcSetenv pc" "reNumCPU (processRunEnv pc opts) = pcNumCPU pc"
  "reHost (processRunEnv pc opts) = fst (gatheredHost pc)" "reTool (processRunEnv pc opts) = buildInfo (pcVars pc)"
  "reNow (processRunEnv pc opts) = pcNow pc" "reOutputs (processRunEnv pc opts) = pcOutputs pc"
  "reRegistry (processRunEnv pc opts) = loadedRegistry pc opts" "reOS (processRunEnv pc opts) = pcOS pc"
  by (simp_all add: processRunEnv_def)

lemma returned_reach:
  "runReaches W generated k checks s t \<Longrightarrow> sysMain s = Returned rep \<Longrightarrow> sysMain t = Returned rep"
  by (induction rule: rtranclp_induct) (auto elim: runStepE)

lemma logged_returned:
  assumes "logReaches W gen k checks (logInit gen ctx k timeout checks) s" "sysMain (lsSys s) = Returned rep"
    "logReaches W gen k checks s u"
  shows "runReaches W gen k checks (runInit gen ctx checks) (lsSys u)" "sysMain (lsSys u) = Returned rep"
  using logReaches_runReaches [OF rtranclp_trans [OF assms(1,3)]] returned_reach [OF logReaches_runReaches [OF assms(3)] assms(2)]
  by (simp_all add: logInit_def)

lemma program_cli:
  assumes "programRuns W pc argv oc" "parseFlags (processFlags pc) argv = Inr opts"
  shows "cliRun W (processRunEnv pc opts) opts (ocCode oc)"
  using assms(1)
proof (cases rule: programRuns.cases)
  case (program_finish opts' checks k gen ctx s rep u rep' code out rest)
  note run = logged_returned [OF program_finish(6-8)]
  have "opts' = opts" using program_finish(2) assms(2) by simp
  then show ?thesis
    using cli_finish [of opts "processRunEnv pc opts" checks W gen ctx "lsSys u" rep code out] program_finish run
    by (simp add: mainRunner_def)
qed (use assms(2) in \<open>auto intro: cliRun.intros\<close>)

lemma cli_program:
  assumes "cliRun W (processRunEnv pc opts) opts code" "parseFlags (processFlags pc) argv = Inr opts"
  shows "\<exists>oc. programRuns W pc argv oc \<and> ocCode oc = code"
  using assms(1)
proof (cases rule: cliRun.cases)
  case cli_setenv
  then obtain e where "pcSetenv pc = Some e" by auto
  from program_setenv [OF assms(2) cli_setenv(2) this] cli_setenv(1) show ?thesis by fastforce
next
  case (cli_filter e)
  with program_filter [OF assms(2) _ cli_filter(3)] show ?thesis by fastforce
next
  case (cli_finish checks gen ctx s rep out)
  let ?k = "effConcurrency (opConcurrency opts) (pcNumCPU pc)"
  obtain u where u: "logReaches W gen ?k checks (logInit gen ctx ?k (opTimeout opts) checks) u" "lsSys u = s"
    using logged_run cli_finish(3) by fastforce
  have k: "?k = effConcurrency (ruConcurrency (mainRunner pc opts)) (pcNumCPU pc)" by (simp add: mainRunner_def)
  have init: "logInit gen ctx ?k (opTimeout opts) checks = logInit gen ctx ?k (ruTimeout (mainRunner pc opts)) checks"
    by (simp add: mainRunner_def)
  from program_finish [OF assms(2) _ cli_finish(2) k u(1) [unfolded init] _ rtranclp.rtrancl_refl refl] u(2) cli_finish
  show ?thesis by fastforce
qed

section \<open>The depth of the report\<close>

text \<open>
  The evidence the five checks collect are scalars and one table of scalars, so the report is never nested deeper than the
  decoders of JSON accept.
\<close>

definition shallow :: "result \<Rightarrow> bool" where
  "shallow r \<longleftrightarrow> list_all (\<lambda>(k, e). nest (evidenceJson e) < 2) (rEvidence r)"

lemma shallow_fields:
  "shallow (r\<lparr>rState := x\<rparr>) = shallow r" "shallow (r\<lparr>rDetail := y\<rparr>) = shallow r" "shallow (r\<lparr>rErr := y\<rparr>) = shallow r"
  "shallow (r\<lparr>rDurationMS := d\<rparr>) = shallow r" "shallow (r\<lparr>rCheckID := y\<rparr>) = shallow r" "shallow (r\<lparr>rTitle := y\<rparr>) = shallow r"
  "shallow (r\<lparr>rSeverity := y\<rparr>) = shallow r" "shallow (r\<lparr>rStartedAt := t\<rparr>) = shallow r" "shallow zeroResult"
  "shallow (presetResult i y t ev) = list_all (\<lambda>(k, e). nest (evidenceJson e) < 2) ev"
  by (simp_all add: shallow_def zeroResult_def presetResult_def)

lemma shallow_put: "nest (evidenceJson v) < 2 \<Longrightarrow> shallow r \<Longrightarrow> shallow (evPut k v r)"
proof -
  have "list_all (\<lambda>(k, e). nest (evidenceJson e) < 2) ev \<Longrightarrow> nest (evidenceJson v) < 2 \<Longrightarrow>
      list_all (\<lambda>(k, e). nest (evidenceJson e) < 2) (evUpdate k v ev)" for ev
    by (induction k v ev rule: evUpdate.induct) auto
  then show "nest (evidenceJson v) < 2 \<Longrightarrow> shallow r \<Longrightarrow> shallow (evPut k v r)" by (simp add: shallow_def evPut_def)
qed

lemma nest_scalars: "nest (evidenceJson (EvStr s)) < 2" "nest (evidenceJson (EvBool b)) < 2" "nest (evidenceJson (EvInt i)) < 2"
  by simp_all

lemma nest_table:
  assumes "list_all (\<lambda>(k, e). nest (evidenceJson e) < Suc n) ms"
  shows "nest (evidenceJson (EvMap ms)) < Suc (Suc n)"
proof -
  have "nest (evidenceJson (EvMap ms)) \<le> Suc n" using assms by (auto simp: foldr_max_bound list_all_iff)
  then show ?thesis by simp
qed

lemma shallow_presets:
  "shallow (confPresentRun conf e)" "shallow (confCorrectRun conf m e)" "shallow (dryRunCheckRun run m e)"
  "shallow (chainRun dir m e)" "shallow (runWithSource m path e)"
proof -
  note s = shallow_put shallow_fields nest_scalars
  show "shallow (confPresentRun conf e)"
    by (auto simp: confPresentRun_def Let_def s simp del: evidenceJson.simps split: sum.split)
  show "shallow (confCorrectRun conf m e)"
    by (auto simp: confCorrectRun_def Let_def s simp del: evidenceJson.simps split: prod.split option.split)
  show "shallow (dryRunCheckRun run m e)"
    by (auto simp: dryRunCheckRun_def Let_def s simp del: evidenceJson.simps split: prod.split option.split)
  show "shallow (chainRun dir m e)"
    by (auto simp: chainRun_def Let_def s simp del: evidenceJson.simps split: prod.split option.split)
  have "nest (evidenceJson (EvMap [(a, EvStr b), (c, EvInt d), (f, EvInt g), (h, EvStr i)])) < 2" for a b c d f g h i
    using nest_table [of 0 "[(a, EvStr b), (c, EvInt d), (f, EvInt g), (h, EvStr i)]"] by simp
  then show "shallow (runWithSource m path e)"
    by (auto simp: runWithSource_def Let_def s simp del: evidenceJson.simps split: sum.split prod.split option.split)
qed

lemma shallow_slot:
  assumes "c \<in> set (allWithOptions env po)" "workerResult W c r \<or> cancelledResult c ctx r"
  shows "shallow r"
proof -
  have shallow_run: "ckRun c e = Ret r' \<Longrightarrow> shallow r'" for e r'
    using assms(1) shallow_presets
    by (auto simp: allWithOptions_def Let_def confPresentCheck_def confCorrectCheck_def dryRunCheck_def chainCheck_def
        notLoadedCheck_def)
  have "shallow (executeCheck e1 e2 t c)" for e1 e2 t
    using shallow_run by (auto simp: executeCheck_def panicResult_def stampResult_def fillIdentity_def shallow_fields
        split: outcome.split)
  then show ?thesis
    using assms(2) by (auto simp: workerResult_def cancelledResult_def newCancelledResult_def stampResult_def shallow_fields)
qed

lemma report_depth:
  assumes "\<forall>r\<in>set (repResults rep). shallow r"
  shows "nest (reportJson rep) \<le> 10000"
proof -
  have "nest (resultJson r) \<le> 3" if "shallow r" for r
  proof -
    have "nest (evidenceJson (EvMap (rEvidence r))) \<le> 2"
      using nest_table [of 1 "rEvidence r"] that by (simp add: shallow_def numeral_2_eq_2 del: evidenceJson.simps)
    then show ?thesis by (simp add: resultJson_def timeJson_def omitEmpty_def del: evidenceJson.simps)
  qed
  with assms have "foldr max (map (nest \<circ> resultJson) (repResults rep)) 0 \<le> 3" by (intro foldr_max_map) simp
  then show ?thesis
    by (simp add: reportJson_def timeJson_def hostJson_def toolJson_def summaryJson_def bucketJson_def natJson_def)
qed

lemma cliChecks_subset: "cliChecks re opts = Inr checks \<Longrightarrow> set checks \<subseteq> set (allWithOptions (reOS re) (cliOptions opts (reOS re)))"
  by (auto simp: cliChecks_def filter_checks_spec split: if_splits)

section \<open>What is written\<close>

definition runWriters :: "('s, 'w) process \<Rightarrow> options \<Rightarrow> 'w writeEnv" where
  "runWriters pc opts = (pcWriters pc)\<lparr>weGetenv := runGetenv pc opts\<rparr>"

lemma loadedRegistry_run: "loadedRegistry pc opts = initRenderers (runWriters pc opts) (pcSort pc) (pcGoVersion pc) emptyRegistry"
  by (simp add: loadedRegistry_def runWriters_def)

lemma keeps_run: "keepsAll (pcWriters pc) \<Longrightarrow> keepsAll (runWriters pc opts)"
  by (simp add: keepsAll_def runWriters_def)

lemma parse_format_known: "parseFlags fe argv = Inr opts \<Longrightarrow> \<exists>s. parseFormat s = Inr (opFormat opts)"
  by (auto simp: parseFlags_def Let_def split: sum.splits if_splits)

text \<open>A finished run: the report, its summary and the text that was written\<close>

lemma program_written:
  assumes "programRuns W pc argv oc" "parseFlags (processFlags pc) argv = Inr opts" "ocWritten oc = Some text"
    and "ocCode oc \<in> {exitOK, exitMitigationGap, exitCheckError}"
    and "openOutput (pcOutputs pc) (opOutput opts) = Inr w"
  obtains rep n where "repSummary rep = newSummary (repResults rep)" "ocCode oc = computeExit rep"
    "nest (reportJson rep) \<le> 10000" "writeTo (loadedRegistry pc opts) rep w (opFormat opts) = ((n, None), text)"
  using assms(1)
proof (cases rule: programRuns.cases)
  case (program_finish opts' checks k gen ctx s rep u rep' code out rest)
  have opts: "opts' = opts" using program_finish(2) assms(2) by simp
  note core = runner_report_core [OF logged_returned [OF program_finish(6-8)]]
  have "set checks \<subseteq> set (allWithOptions (pcOS pc) (cliOptions opts' (pcOS pc)))"
    using cliChecks_subset [OF program_finish(4)] by simp
  then have "shallow (repResults rep ! i)" if "i < length checks" for i
    using that core nth_mem [OF that] by (intro shallow_slot) auto
  then have "\<forall>r\<in>set (repResults rep). shallow r" using core by (auto simp: in_set_conv_nth)
  then have depth: "nest (reportJson rep') \<le> 10000"
    by (intro report_depth) (simp add: program_finish(9) stampReport_def)
  have "repSummary rep = newSummary (repResults rep)" using core by simp
  then have sum: "repSummary rep' = newSummary (repResults rep')"
    by (simp add: program_finish(9) stampReport_def)
  from program_finish(10) assms(3-5) program_finish(1) opts
  obtain n where "writeTo (loadedRegistry pc opts) rep' w (opFormat opts) = ((n, None), text)"
      and "code = (if signalExitCode (sysCtx (lsSys u)) \<noteq> 0 then signalExitCode (sysCtx (lsSys u)) else computeExit rep')"
    by (auto simp: finishRun_def exitCodes split: prod.splits option.splits)
  moreover from this(2) have "code = computeExit rep'"
    using assms(4) program_finish(1) by (auto simp: signalExitCode_def exitCodes split: option.splits if_splits)
  ultimately show thesis using that sum depth program_finish(1) by auto
qed (use assms(2,3) in \<open>auto simp: flagsOutcome_def Let_def split: if_splits\<close>)

text \<open>
  Property C2: the report certifies the host, end to end. When the program ends with a verdict and its report was written to a
  writer that starts empty and accepts everything, a terminal with its colours included, then in each of the four formats
  and in either layout of the JSON the text says that the host is clean exactly when the exit code is 0; and a text that
  says so, of a run without a filter, certifies the five conditions of the mitigation in environments the host went through
  during the run.
\<close>

theorem program_report:
  assumes "programRuns W pc argv oc" "parseFlags (processFlags pc) argv = Inr opts" "ocWritten oc = Some text"
    and "ocCode oc \<in> {exitOK, exitMitigationGap, exitCheckError}"
    and "openOutput (pcOutputs pc) (opOutput opts) = Inr []" "keepsAll (pcWriters pc)"
    and "sortsByID (pcSort pc)"
  shows "(saysClean (opFormat opts) text \<longleftrightarrow> ocCode oc = exitOK)
    \<and> (saysClean (opFormat opts) text \<and> opOnly opts = [] \<and> opSkip opts = [] \<longrightarrow> certified W (processRunEnv pc opts) opts)"
proof -
  obtain rep n where rep: "repSummary rep = newSummary (repResults rep)" "ocCode oc = computeExit rep"
    "nest (reportJson rep) \<le> 10000" "writeTo (loadedRegistry pc opts) rep [] (opFormat opts) = ((n, None), text)"
    using program_written [OF assms(1-5)] by blast
  obtain s where s: "parseFormat s = Inr (opFormat opts)" using parse_format_known [OF assms(2)] by blast
  note w = rep(4) [unfolded loadedRegistry_run]
  from delivered_clean [OF s assms(7) rep(1) keeps_run [OF assms(6)] w rep(3)] rep(2)
  have clean: "saysClean (opFormat opts) text \<longleftrightarrow> ocCode oc = exitOK" by simp
  have "certified W (processRunEnv pc opts) opts" if "saysClean (opFormat opts) text" "opOnly opts = []" "opSkip opts = []"
    using cli_zero_certified [OF _ that(2,3)] program_cli [OF assms(1,2)] clean that(1) by (simp add: exitCodes)
  with clean show ?thesis by blast
qed

text \<open>A process on a mitigated host, with a terminal as its standard output\<close>

definition demoProcess :: "(unit, string) process" where
  "demoProcess = \<lparr>pcGetenv = (\<lambda>_. []), pcSetenv = None, pcStdoutStat = Inr True, pcFrac = (\<lambda>_ _ _. 0), pcRand = Inl (plainErr []),
     pcVars = defaultBuildVars, pcHostFS = emptyFS, pcHostname = Inr ''h'', pcWorld = (), pcOS = reOS demoRunEnv, pcNumCPU = 4,
     pcNow = 9, pcWriters = (memWriter (\<lambda>_. []))\<lparr>weFile := \<lambda>_. Some (Inr True)\<rparr>,
     pcOutputs = \<lparr>outStdout = [], outOpenFile = (\<lambda>_. Inl (plainErr []))\<rparr>,
     pcSort = sort_key rCheckID, pcGoVersion = ''go1.26''\<rparr>"

lemma demo_parse: "parseFlags (processFlags demoProcess) [] = Inr (plainOptions (processFlags demoProcess))"
  by (rule parse_plain) (simp add: processFlags_def demoProcess_def)

lemma demo_human: "opFormat (plainOptions (processFlags demoProcess)) = FormatHuman"
    "opOutput (plainOptions (processFlags demoProcess)) = stdoutSentinel"
  by (simp_all add: plainOptions_def autoDetectFormat_def processFlags_def demoProcess_def)

lemma demo_keeps: "keepsAll (pcWriters demoProcess)"
  by (simp add: demoProcess_def keepsAll_def memWriter_def)

lemma demo_program: "\<exists>oc. programRuns {demoEnv} demoProcess [] oc \<and> ocCode oc = 0"
proof -
  let ?opts = "plainOptions (processFlags demoProcess)"
  have eff: "effModule demoOptions = effModule ?opts" "effConf demoOptions = effConf ?opts"
    by (simp_all add: plainOptions_def effModule_def effConf_def demoOptions_def)
  have os: "reOS (processRunEnv demoProcess ?opts) = reOS demoRunEnv" by (simp add: demoProcess_def)
  have "\<forall>e\<in>{demoEnv}. mitigatedEnv (processRunEnv demoProcess ?opts) ?opts e"
    using demo_mitigated by (simp only: mitigatedEnv_def eff os)
  moreover have "writable (processRunEnv demoProcess ?opts) ?opts"
    using flush_keeps [OF keeps_run [OF demo_keeps]]
    by (simp add: writable_def demo_human openOutput_def loadedRegistry_run writeTo_init knownFormat_def formatRenderer_def
        renderHuman_def)
  moreover have "0 < effConcurrency (opConcurrency ?opts) (reNumCPU (processRunEnv demoProcess ?opts))"
    by (simp add: effConcurrency_def plainOptions_def demoProcess_def)
  moreover have "opOnly ?opts = []" "opSkip ?opts = []" "\<not> opNoColor ?opts" by (simp_all add: plainOptions_def)
  ultimately have "cliRun {demoEnv} (processRunEnv demoProcess ?opts) ?opts 0"
    by (intro mitigated_exits_zero) auto
  from cli_program [OF this demo_parse] show ?thesis .
qed

lemma program_zero_written:
  "programRuns W pc argv oc \<Longrightarrow> parseFlags (processFlags pc) argv = Inr opts \<Longrightarrow> ocCode oc = 0 \<Longrightarrow> \<exists>text. ocWritten oc = Some text"
  by (erule programRuns.cases) (auto simp: finishRun_def exitCodes split: sum.splits prod.splits option.splits)

theorem program_report_witness:
  "\<exists>oc text. programRuns {demoEnv} demoProcess [] oc \<and> ocWritten oc = Some text \<and> saysClean FormatHuman text"
proof -
  obtain oc where oc: "programRuns {demoEnv} demoProcess [] oc" "ocCode oc = 0" using demo_program by blast
  obtain out_text where out_text: "ocWritten oc = Some out_text" using program_zero_written [OF oc(1) demo_parse oc(2)] by blast
  have "ocCode oc \<in> {exitOK, exitMitigationGap, exitCheckError}" using oc(2) by (simp add: exitCodes)
  moreover have "openOutput (pcOutputs demoProcess) (opOutput (plainOptions (processFlags demoProcess))) = Inr []"
    by (simp add: demo_human openOutput_def) (simp add: demoProcess_def)
  moreover have "sortsByID (pcSort demoProcess)" by (simp add: demoProcess_def sortsByID_def)
  ultimately have "saysClean (opFormat (plainOptions (processFlags demoProcess))) out_text \<longleftrightarrow> ocCode oc = exitOK"
    using program_report [OF oc(1) demo_parse out_text _ _ demo_keeps] by blast
  with oc out_text demo_human show ?thesis by (auto simp: exitCodes)
qed

section \<open>What is said on standard error\<close>

definition explains :: "stderrItem \<Rightarrow> bool" where
  "explains i \<longleftrightarrow> (\<exists>m. i = Printed (''copyfail-validate: '' @ m)) \<or> (\<exists>msg attrs. i = Logged LevelError msg attrs \<and> msg \<in> {''open output'', ''render report''})"

lemma complain_explains: "\<exists>i\<in>set (complain m). explains i"
  by (auto simp: complain_def explains_def)

lemma parseArgs_not_version: "parseArgs fe argv v = Inl e \<Longrightarrow> \<not> errIs e ErrHelpOrVersion"
  by (induction fe argv v rule: parseArgs.induct)
    (auto simp: parseArgs.simps(2) Let_def split: if_splits option.splits prod.splits sum.splits list.splits)

lemma computeExit_range: "computeExit rep \<in> {exitOK, exitMitigationGap, exitCheckError}"
  by (simp add: computeExit_def)

lemma help_written:
  assumes "parseFlags fe argv = Inl e" "isHelpOrVersionExit (Some e)"
  shows "flagsWritten vars fe argv \<in> {usageText, versionText vars}"
proof (cases "parseArgs fe argv (readEnvDefaults fe)")
  case (Inl a)
  then have "e = wrapErr2 [] (sentinelErr ErrFlagParse) '': '' a []" using assms(1) by (simp add: parseFlags_def)
  then have "errIs a FlagErrHelp"
    using assms(2) parseArgs_not_version [OF Inl] by (auto simp: isHelpOrVersionExit_def split: if_splits)
  with Inl show ?thesis by (simp add: flagsWritten_def)
next
  case (Inr v)
  have "fvVersion v"
  proof (rule ccontr)
    assume "\<not> fvVersion v"
    with assms Inr show False
      by (auto simp: parseFlags_def parseFormat_def parseCSVFilter_def isHelpOrVersionExit_def Let_def split: sum.splits if_splits)
  qed
  with Inr show ?thesis by (simp add: flagsWritten_def)
qed

lemma finish_explained:
  assumes "finishRun (loadedRegistry pc opts) (pcOutputs pc) opts ctxErr rep = (code, out)" "code \<in> {exitToolError, exitUsage}"
  shows "\<exists>i\<in>set (finishLog pc opts rep). explains i"
  using assms computeExit_range [of rep]
  by (auto simp: finishRun_def finishLog_def error_always_logged explains_def exitCodes signalExitCode_def
      split: sum.splits prod.splits option.splits if_splits)

text \<open>
  Property C5: no failure is silent. A run that ends with a tool error or a usage error says why on standard error, in a
  message of the program or in an error record of it, which no verbosity filters out; and a run that ends with 0 without writing a
  report was asked for the help or the version, which is all it has written.
\<close>

theorem program_explains:
  assumes "programRuns W pc argv oc"
  shows "(ocCode oc \<in> {exitToolError, exitUsage} \<longrightarrow> (\<exists>i\<in>set (ocStderr oc). explains i))
    \<and> (ocCode oc = exitOK \<and> ocWritten oc = None \<longrightarrow>
        ocStderr oc = [Printed usageText] \<or> ocStderr oc = [Printed (versionText (pcVars pc))])"
  using assms
proof (cases rule: programRuns.cases)
  case (program_flags e)
  with help_written [of "processFlags pc" argv e "pcVars pc"] complain_explains [of "errMsg e"] show ?thesis
    by (auto simp: flagsOutcome_def Let_def exitCodes)
next
  case (program_setenv opts e)
  with complain_explains [of "''set NO_COLOR: '' @ errMsg e"] show ?thesis by (auto simp: exitCodes)
next
  case (program_filter opts e)
  with complain_explains [of "errMsg e"] show ?thesis by (auto simp: exitCodes)
next
  case (program_finish opts checks k gen ctx s rep u rep' code out rest)
  then have "ocCode oc = exitOK \<Longrightarrow> ocWritten oc \<noteq> None"
    by (auto simp: finishRun_def exitCodes split: sum.splits prod.splits option.splits)
  moreover have "set (finishLog pc opts rep') \<subseteq> set (ocStderr oc)"
    using program_finish(1) set_shuffles [OF program_finish(11)] by auto
  ultimately show ?thesis
    using program_finish(1) finish_explained [OF program_finish(10)] by auto
qed

theorem program_explains_witness:
  "ocStderr (flagsOutcome demoProcess [''--help''] (wrapErr2 [] (sentinelErr ErrFlagParse) '': '' (sentinelErr FlagErrHelp) []))
     = [Printed usageText]"
proof -
  let ?e = "wrapErr2 [] (sentinelErr ErrFlagParse) '': '' (sentinelErr FlagErrHelp) []"
  have "parseFlags (processFlags demoProcess) [''--help''] = Inl ?e"
    by (simp add: parseFlags_def parseArgs.simps(2) flagArg_def splitFlag_def boolFlags_def valueFlags_def)
  from program_flags [OF this] have run: "programRuns {} demoProcess [''--help''] (flagsOutcome demoProcess [''--help''] ?e)" .
  have oc: "ocCode (flagsOutcome demoProcess [''--help''] ?e) = exitOK" "ocWritten (flagsOutcome demoProcess [''--help''] ?e) = None"
    "flagsWritten (pcVars demoProcess) (processFlags demoProcess) [''--help''] = usageText"
    by (simp_all add: flagsOutcome_def isHelpOrVersionExit_def flagsWritten_def parseArgs.simps(2) flagArg_def splitFlag_def
        boolFlags_def valueFlags_def)
  from program_explains [OF run] oc(1,2) show ?thesis using oc(3)
    by (auto simp: flagsOutcome_def isHelpOrVersionExit_def)
qed

section \<open>\<open>--no-color\<close>\<close>

text \<open>
  The flag reaches the renderer through the environment: with it, or with \<open>NO_COLOR\<close> set to anything, the human report is
  plain, on a terminal too.
\<close>

theorem no_color_plain:
  assumes "opNoColor opts \<or> pcGetenv pc noColorEnv \<noteq> []"
  shows "writeTo (loadedRegistry pc opts) rep w FormatHuman
      = flushAll ((pcWriters pc)\<lparr>weGetenv := runGetenv pc opts\<rparr>) w (humanText rep False)"
proof -
  have "runGetenv pc opts envNoColor \<noteq> []" using assms by (auto simp: runGetenv_def noColorEnv_def envNoColor_def)
  then show ?thesis
    by (simp add: loadedRegistry_def writeTo_init knownFormat_def formatRenderer_def renderHuman_def shouldColor_def)
qed

end
