(* ===== verification/RunnerLocks.thy ===== *)
theory RunnerLocks
  imports CheckRunnerProgress
begin

text \<open>
  The mutex of \<open>runState\<close>. In \<open>CheckRunner\<close> a worker's critical section and the freezing section of \<open>Run\<close> are one step
  each. Here they are the single reads and writes the code makes between \<open>mu.Lock\<close> and \<open>mu.Unlock\<close>, interleaved with
  everything that happens outside, and the two systems are proved to have the same runs.
\<close>

section \<open>The sections\<close>

text \<open>
  In \<open>runOne\<close>: before the test, before each of the two writes, before \<open>frozen := state.frozen\<close>, and with its value. In \<open>Run\<close>:
  before \<open>state.frozen = true\<close>, before \<open>ctx.Err\<close>, at the head of the loop in round \<open>j\<close>, and there between the two writes.
\<close>

datatype workerPc = WTest | WWrite | WMark | WRead | WDone bool

datatype mainPc = MFreeze | MNow | MLoop gotime "goerr option" nat | MMark gotime "goerr option" nat

datatype lockHolder = Free | WorkerIn nat result workerPc | MainIn mainPc

record lockSys =
  lkSys :: runSys
  lkHolder :: lockHolder

definition lockInit :: "gotime \<Rightarrow> goerr option \<Rightarrow> 'e check list \<Rightarrow> lockSys" where
  "lockInit generated ctx checks = \<lparr>lkSys = runInit generated ctx checks, lkHolder = Free\<rparr>"

text \<open>A step outside the sections: no worker records and the results are not frozen.\<close>

definition outside :: "runSys \<Rightarrow> runSys \<Rightarrow> bool" where
  "outside s t \<longleftrightarrow> (\<forall>i < length (sysWorkers s). sysWorkers t ! i = Recorded \<longrightarrow> sysWorkers s ! i = Recorded)
     \<and> (sysMain t = Frozen \<longrightarrow> sysMain s = Frozen)"

inductive lockStep :: "'e set \<Rightarrow> gotime \<Rightarrow> nat \<Rightarrow> 'e check list \<Rightarrow> lockSys \<Rightarrow> lockSys \<Rightarrow> bool"
  for W :: "'e set" and generated :: gotime and k :: nat and checks :: "'e check list" where
  lk_outside: "runStep W generated k checks (lkSys s) t \<Longrightarrow> outside (lkSys s) t \<Longrightarrow>
    lockStep W generated k checks s (s\<lparr>lkSys := t\<rparr>)"
| w_lock: "lkHolder s = Free \<Longrightarrow> i < length checks \<Longrightarrow> sysWorkers (lkSys s) ! i = Executed r \<Longrightarrow>
    lockStep W generated k checks s (s\<lparr>lkHolder := WorkerIn i r WTest\<rparr>)"
| w_test: "lkHolder s = WorkerIn i r WTest \<Longrightarrow> st = sysState (lkSys s) \<Longrightarrow>
    lockStep W generated k checks s
      (s\<lparr>lkHolder := WorkerIn i r (if \<not> rsFrozen st \<and> \<not> rsCompleted st ! i then WWrite else WRead)\<rparr>)"
| w_write: "lkHolder s = WorkerIn i r WWrite \<Longrightarrow> st = sysState (lkSys s) \<Longrightarrow>
    lockStep W generated k checks s
      (s\<lparr>lkSys := (lkSys s)\<lparr>sysState := st\<lparr>rsResults := (rsResults st)[i := r]\<rparr>\<rparr>, lkHolder := WorkerIn i r WMark\<rparr>)"
| w_mark: "lkHolder s = WorkerIn i r WMark \<Longrightarrow> st = sysState (lkSys s) \<Longrightarrow>
    lockStep W generated k checks s
      (s\<lparr>lkSys := (lkSys s)\<lparr>sysState := st\<lparr>rsCompleted := (rsCompleted st)[i := True]\<rparr>\<rparr>, lkHolder := WorkerIn i r WRead\<rparr>)"
| w_read: "lkHolder s = WorkerIn i r WRead \<Longrightarrow>
    lockStep W generated k checks s (s\<lparr>lkHolder := WorkerIn i r (WDone (rsFrozen (sysState (lkSys s))))\<rparr>)"
| w_unlock: "lkHolder s = WorkerIn i r (WDone b) \<Longrightarrow>
    lockStep W generated k checks s
      (s\<lparr>lkSys := (lkSys s)\<lparr>sysWorkers := (sysWorkers (lkSys s))[i := Recorded]\<rparr>, lkHolder := Free\<rparr>)"
| m_lock: "lkHolder s = Free \<Longrightarrow> sysMain (lkSys s) = Selected \<Longrightarrow>
    lockStep W generated k checks s (s\<lparr>lkHolder := MainIn MFreeze\<rparr>)"
| m_freeze: "lkHolder s = MainIn MFreeze \<Longrightarrow> st = sysState (lkSys s) \<Longrightarrow>
    lockStep W generated k checks s
      (s\<lparr>lkSys := (lkSys s)\<lparr>sysState := st\<lparr>rsFrozen := True\<rparr>\<rparr>, lkHolder := MainIn MNow\<rparr>)"
| m_now: "lkHolder s = MainIn MNow \<Longrightarrow>
    lockStep W generated k checks s (s\<lparr>lkHolder := MainIn (MLoop now (sysCtx (lkSys s)) 0)\<rparr>)"
| m_skip: "lkHolder s = MainIn (MLoop now e j) \<Longrightarrow> j < length checks \<Longrightarrow> rsCompleted (sysState (lkSys s)) ! j \<Longrightarrow>
    lockStep W generated k checks s (s\<lparr>lkHolder := MainIn (MLoop now e (Suc j))\<rparr>)"
| m_write: "lkHolder s = MainIn (MLoop now e j) \<Longrightarrow> j < length checks \<Longrightarrow> st = sysState (lkSys s) \<Longrightarrow> \<not> rsCompleted st ! j \<Longrightarrow>
    lockStep W generated k checks s
      (s\<lparr>lkSys := (lkSys s)\<lparr>sysState := st\<lparr>rsResults := (rsResults st)[j := newCancelledResult (checks ! j) now e]\<rparr>\<rparr>,
         lkHolder := MainIn (MMark now e j)\<rparr>)"
| m_mark: "lkHolder s = MainIn (MMark now e j) \<Longrightarrow> st = sysState (lkSys s) \<Longrightarrow>
    lockStep W generated k checks s
      (s\<lparr>lkSys := (lkSys s)\<lparr>sysState := st\<lparr>rsCompleted := (rsCompleted st)[j := True]\<rparr>\<rparr>,
         lkHolder := MainIn (MLoop now e (Suc j))\<rparr>)"
| m_unlock: "lkHolder s = MainIn (MLoop now e j) \<Longrightarrow> j = length checks \<Longrightarrow>
    lockStep W generated k checks s (s\<lparr>lkSys := (lkSys s)\<lparr>sysMain := Frozen\<rparr>, lkHolder := Free\<rparr>)"

inductive_cases lockStepE: "lockStep W generated k checks s t"

abbreviation lockReaches :: "'e set \<Rightarrow> gotime \<Rightarrow> nat \<Rightarrow> 'e check list \<Rightarrow> lockSys \<Rightarrow> lockSys \<Rightarrow> bool" where
  "lockReaches W generated k checks \<equiv> (lockStep W generated k checks)\<^sup>*\<^sup>*"

section \<open>The atomic state behind a state\<close>

text \<open>
  A worker's section takes effect when it takes the lock: what is left of it is done at once. That of \<open>Run\<close> takes effect when
  it reads \<open>ctx.Err\<close>: before, its write of \<open>frozen\<close>, which nobody else can have seen, is undone.
\<close>

fun finishWorker :: "workerPc \<Rightarrow> nat \<Rightarrow> result \<Rightarrow> runState \<Rightarrow> runState" where
  "finishWorker WTest i r st = recordResult i r st"
| "finishWorker WWrite i r st = st\<lparr>rsResults := (rsResults st)[i := r], rsCompleted := (rsCompleted st)[i := True]\<rparr>"
| "finishWorker WMark i r st = st\<lparr>rsCompleted := (rsCompleted st)[i := True]\<rparr>"
| "finishWorker WRead i r st = st"
| "finishWorker (WDone b) i r st = st"

fun finishMain :: "'e check list \<Rightarrow> mainPc \<Rightarrow> runState \<Rightarrow> runState" where
  "finishMain checks MFreeze st = st"
| "finishMain checks MNow st = st\<lparr>rsFrozen := False\<rparr>"
| "finishMain checks (MLoop now e j) st = backfillLoop now e j (drop j checks) st"
| "finishMain checks (MMark now e j) st =
     backfillLoop now e (Suc j) (drop (Suc j) checks) (st\<lparr>rsCompleted := (rsCompleted st)[j := True]\<rparr>)"

fun mainAt :: "mainPc \<Rightarrow> mainPhase" where
  "mainAt MFreeze = Selected"
| "mainAt MNow = Selected"
| "mainAt (MLoop now e j) = Frozen"
| "mainAt (MMark now e j) = Frozen"

definition absSys :: "'e check list \<Rightarrow> lockSys \<Rightarrow> runSys" where
  "absSys checks s =
     (case lkHolder s of
        Free \<Rightarrow> lkSys s
      | WorkerIn i r pc \<Rightarrow> (lkSys s)\<lparr>sysWorkers := (sysWorkers (lkSys s))[i := Recorded],
                                   sysState := finishWorker pc i r (sysState (lkSys s))\<rparr>
      | MainIn pc \<Rightarrow> (lkSys s)\<lparr>sysState := finishMain checks pc (sysState (lkSys s)), sysMain := mainAt pc\<rparr>)"

section \<open>The invariant\<close>

fun frozenAt :: "mainPc \<Rightarrow> bool" where
  "frozenAt MFreeze = False"
| "frozenAt pc = True"

definition lockInv :: "nat \<Rightarrow> 'e check list \<Rightarrow> lockSys \<Rightarrow> bool" where
  "lockInv k checks s \<longleftrightarrow>
     sizesInv k checks (lkSys s)
   \<and> (sysMain (lkSys s) = Frozen \<longrightarrow> rsFrozen (sysState (lkSys s)))
   \<and> (sysMain (lkSys s) = Selected \<and> (\<forall>pc. lkHolder s \<noteq> MainIn pc) \<longrightarrow> \<not> rsFrozen (sysState (lkSys s)))
   \<and> (sysMain (lkSys s) = Selecting \<longrightarrow> \<not> rsFrozen (sysState (lkSys s)))
   \<and> (\<forall>i r pc. lkHolder s = WorkerIn i r pc \<longrightarrow> i < length checks \<and> sysWorkers (lkSys s) ! i = Executed r
        \<and> (pc = WWrite \<or> pc = WMark \<longrightarrow> \<not> rsFrozen (sysState (lkSys s))))
   \<and> (\<forall>pc. lkHolder s = MainIn pc \<longrightarrow> sysMain (lkSys s) = Selected \<and> rsFrozen (sysState (lkSys s)) = frozenAt pc)"

lemma lockInv_init: "lockInv k checks (lockInit generated ctx checks)"
  using sizesInv_init [of k checks generated ctx] by (simp add: lockInv_def lockInit_def) (simp add: runInit_def Let_def)

lemma executed_kept: "(\<And>r. ws ! i \<noteq> Executed r) \<Longrightarrow> ws ! j = Executed r \<Longrightarrow> ws[i := w] ! j = Executed r"
  by (cases "i = j") auto

lemma outside_frame:
  assumes "runStep W generated k checks s t" "outside s t" "sizesInv k checks s"
  shows "sysState t = sysState s
    \<and> (\<forall>i < length checks. \<forall>r. sysWorkers s ! i = Executed r \<longrightarrow> sysWorkers t ! i = Executed r)
    \<and> (sysMain t = sysMain s \<or> sysMain s = Selecting \<and> sysMain t = Selected \<or> sysMain s = Frozen \<and> (\<exists>rep. sysMain t = Returned rep))"
  using assms
proof (cases rule: runStep.cases)
  case dispatch
  then have "sysWorkers s ! sysNext s = Idle" using assms(3) by (auto simp: sizesInv_def)
  with dispatch show ?thesis by (simp add: executed_kept)
next
  case (record_result i r)
  then have False using assms(2,3) by (auto simp: outside_def sizesInv_def)
  then show ?thesis ..
qed (auto simp: outside_def executed_kept)

lemma sizesInv_frame:
  assumes "sizesInv k checks s" "length (rsResults st) = length checks" "length (rsCompleted st) = length checks"
  shows "sizesInv k checks (s\<lparr>sysState := st\<rparr>)"
  using assms by (simp add: sizesInv_def)

lemma sizesInv_unlock:
  assumes "sizesInv k checks s" "i < length checks" "sysWorkers s ! i = Executed r"
  shows "sizesInv k checks (s\<lparr>sysWorkers := (sysWorkers s)[i := Recorded]\<rparr>)"
  using assms holders_update [of i "sysWorkers s" Recorded] by (auto simp: sizesInv_def nth_list_update)

lemma lockInv_step: "lockStep W generated k checks s t \<Longrightarrow> lockInv k checks s \<Longrightarrow> lockInv k checks t"
proof (induction rule: lockStep.induct)
  case (lk_outside s t)
  have "sizesInv k checks (lkSys s)" using lk_outside(3) by (simp add: lockInv_def)
  moreover from sizesInv_step [OF lk_outside(1) this] have "sizesInv k checks t" .
  ultimately show ?case using lk_outside(3) outside_frame [OF lk_outside(1,2)] by (auto simp: lockInv_def)
next
  case (w_write s i r st)
  then show ?case by (auto simp: lockInv_def sizesInv_def)
next
  case (w_mark s i r st)
  then show ?case by (auto simp: lockInv_def sizesInv_def)
next
  case (w_unlock s i r b)
  then show ?case using sizesInv_unlock [of k checks "lkSys s" i r] by (auto simp: lockInv_def)
next
  case (m_freeze s st)
  then show ?case by (auto simp: lockInv_def sizesInv_def)
next
  case (m_write s now e j st)
  then show ?case by (auto simp: lockInv_def sizesInv_def)
next
  case (m_mark s now e j st)
  then show ?case by (auto simp: lockInv_def sizesInv_def)
next
  case (m_unlock s now e j)
  then show ?case by (auto simp: lockInv_def sizesInv_def)
qed (auto simp: lockInv_def)

lemma lockInv_reach:
  "lockReaches W generated k checks (lockInit generated ctx checks) s \<Longrightarrow> lockInv k checks s"
  by (induction rule: rtranclp_induct) (auto intro: lockInv_init lockInv_step)

section \<open>Every run of the sections is a run of the atomic system\<close>

lemma runStep_eq: "runStep W generated k checks s u \<Longrightarrow> t = u \<Longrightarrow> runStep W generated k checks s t"
  by simp

lemma worker_frame:
  assumes "runStep W generated k checks s t" "outside s t" "sizesInv k checks s" "i < length checks"
    "sysWorkers s ! i = Executed r"
  shows "runStep W generated k checks (s\<lparr>sysWorkers := (sysWorkers s)[i := Recorded]\<rparr>) (t\<lparr>sysWorkers := (sysWorkers t)[i := Recorded]\<rparr>)"
proof -
  let ?s = "s\<lparr>sysWorkers := (sysWorkers s)[i := Recorded]\<rparr>"
  have len: "length (sysWorkers s) = length checks" using assms(3) by (simp add: sizesInv_def)
  show ?thesis
    using assms(1)
  proof (cases rule: runStep.cases)
    case dispatch
    then have "sysNext s \<noteq> i" using assms(3,5) by (auto simp: sizesInv_def)
    with dispatch show ?thesis
      by (intro runStep_eq [OF runStep.dispatch] runSys.equality) (simp_all add: list_update_swap)
  next
    case close_done
    then have False using assms(4,5) len by (auto simp: list_all_length)
    then show ?thesis ..
  next
    case (work j r' d e1 e2 st)
    then have "j \<noteq> i" using assms(5) by auto
    with work len show ?thesis
      by (intro runStep_eq [OF runStep.work [of j checks ?s r' d e1 e2 st W generated k]] runSys.equality) (simp_all add: list_update_swap)
  next
    case (record_result j r')
    then have False using assms(2) len by (auto simp: outside_def)
    then show ?thesis ..
  next
    case (release j)
    then have "j \<noteq> i" using assms(5) by auto
    with release len show ?thesis
      by (intro runStep_eq [OF runStep.release [of j checks ?s W generated k]] runSys.equality) (simp_all add: list_update_swap)
  next
    case (wg_done j)
    then have "j \<noteq> i" using assms(5) by auto
    with wg_done len show ?thesis
      by (intro runStep_eq [OF runStep.wg_done [of j checks ?s W generated k]] runSys.equality) (simp_all add: list_update_swap)
  next
    case (cancel e)
    then show ?thesis by (intro runStep_eq [OF runStep.cancel [of ?s W generated k checks e]] runSys.equality) simp_all
  next
    case (freeze now)
    then show ?thesis by (intro runStep_eq [OF runStep.freeze [of ?s W generated k checks now]] runSys.equality) simp_all
  next
    case return
    then show ?thesis by (intro runStep_eq [OF runStep.return [of ?s W generated k checks]] runSys.equality) simp_all
  next
    case select_done
    then show ?thesis by (intro runStep_eq [OF runStep.select_done [of ?s W generated k checks]] runSys.equality) simp_all
  next
    case select_cancelled
    then show ?thesis by (intro runStep_eq [OF runStep.select_cancelled [of ?s W generated k checks]] runSys.equality) simp_all
  next
    case dispatch_cancelled
    then show ?thesis by (intro runStep_eq [OF runStep.dispatch_cancelled [of ?s checks W generated k]] runSys.equality) simp_all
  next
    case dispatch_finished
    then show ?thesis by (intro runStep_eq [OF runStep.dispatch_finished [of ?s checks W generated k]] runSys.equality) simp_all
  qed
qed

text \<open>Outside the sections only \<open>Run\<close> reads the results, and only to return them.\<close>

lemma state_frame:
  assumes "runStep W generated k checks s t" "outside s t" "sizesInv k checks s"
    and "sysMain s = Frozen \<Longrightarrow> rsResults st = rsResults (sysState s)"
  shows "runStep W generated k checks (s\<lparr>sysState := st\<rparr>) (t\<lparr>sysState := st\<rparr>)"
  using assms(1)
proof (cases rule: runStep.cases)
  case dispatch
  then show ?thesis
    by (intro runStep_eq [OF runStep.dispatch [of "s\<lparr>sysState := st\<rparr>" checks k W generated]] runSys.equality) simp_all
next
  case (work j r' d e1 e2 u)
  then show ?thesis
    by (intro runStep_eq [OF runStep.work [of j checks "s\<lparr>sysState := st\<rparr>" r' d e1 e2 u W generated k]] runSys.equality) simp_all
next
  case (record_result j r')
  then have False using assms(2,3) by (auto simp: outside_def sizesInv_def)
  then show ?thesis ..
next
  case (freeze now)
  then have False using assms(2) by (simp add: outside_def)
  then show ?thesis ..
next
  case return
  with assms(4) show ?thesis
    by (intro runStep_eq [OF runStep.return [of "s\<lparr>sysState := st\<rparr>" W generated k checks]] runSys.equality) simp_all
next
  case dispatch_cancelled
  then show ?thesis
    by (intro runStep_eq [OF runStep.dispatch_cancelled [of "s\<lparr>sysState := st\<rparr>" checks W generated k]] runSys.equality) simp_all
next
  case dispatch_finished
  then show ?thesis
    by (intro runStep_eq [OF runStep.dispatch_finished [of "s\<lparr>sysState := st\<rparr>" checks W generated k]] runSys.equality) simp_all
next
  case close_done
  then show ?thesis
    by (intro runStep_eq [OF runStep.close_done [of "s\<lparr>sysState := st\<rparr>" W generated k checks]] runSys.equality) simp_all
next
  case (release j)
  then show ?thesis
    by (intro runStep_eq [OF runStep.release [of j checks "s\<lparr>sysState := st\<rparr>" W generated k]] runSys.equality) simp_all
next
  case (wg_done j)
  then show ?thesis
    by (intro runStep_eq [OF runStep.wg_done [of j checks "s\<lparr>sysState := st\<rparr>" W generated k]] runSys.equality) simp_all
next
  case (cancel e)
  then show ?thesis
    by (intro runStep_eq [OF runStep.cancel [of "s\<lparr>sysState := st\<rparr>" W generated k checks e]] runSys.equality) simp_all
next
  case select_done
  then show ?thesis
    by (intro runStep_eq [OF runStep.select_done [of "s\<lparr>sysState := st\<rparr>" W generated k checks]] runSys.equality) simp_all
next
  case select_cancelled
  then show ?thesis
    by (intro runStep_eq [OF runStep.select_cancelled [of "s\<lparr>sysState := st\<rparr>" W generated k checks]] runSys.equality) simp_all
qed

lemma main_frame:
  assumes "runStep W generated k checks s t" "outside s t" "sizesInv k checks s" "sysMain s = Selected"
  shows "runStep W generated k checks (s\<lparr>sysState := st, sysMain := p\<rparr>) (t\<lparr>sysState := st, sysMain := p\<rparr>)"
  using assms(1)
proof (cases rule: runStep.cases)
  case dispatch
  then show ?thesis
    by (intro runStep_eq [OF runStep.dispatch [of "s\<lparr>sysState := st, sysMain := p\<rparr>" checks k W generated]] runSys.equality) simp_all
next
  case (work j r' d e1 e2 u)
  then show ?thesis
    by (intro runStep_eq [OF runStep.work [of j checks "s\<lparr>sysState := st, sysMain := p\<rparr>" r' d e1 e2 u W generated k]] runSys.equality) simp_all
next
  case (record_result j r')
  then have False using assms(2,3) by (auto simp: outside_def sizesInv_def)
  then show ?thesis ..
next
  case (freeze now)
  then have False using assms(2) by (simp add: outside_def)
  then show ?thesis ..
next
  case dispatch_cancelled
  then show ?thesis
    by (intro runStep_eq [OF runStep.dispatch_cancelled [of "s\<lparr>sysState := st, sysMain := p\<rparr>" checks W generated k]] runSys.equality) simp_all
next
  case dispatch_finished
  then show ?thesis
    by (intro runStep_eq [OF runStep.dispatch_finished [of "s\<lparr>sysState := st, sysMain := p\<rparr>" checks W generated k]] runSys.equality) simp_all
next
  case close_done
  then show ?thesis
    by (intro runStep_eq [OF runStep.close_done [of "s\<lparr>sysState := st, sysMain := p\<rparr>" W generated k checks]] runSys.equality) simp_all
next
  case (release j)
  then show ?thesis
    by (intro runStep_eq [OF runStep.release [of j checks "s\<lparr>sysState := st, sysMain := p\<rparr>" W generated k]] runSys.equality) simp_all
next
  case (wg_done j)
  then show ?thesis
    by (intro runStep_eq [OF runStep.wg_done [of j checks "s\<lparr>sysState := st, sysMain := p\<rparr>" W generated k]] runSys.equality) simp_all
next
  case (cancel e)
  then show ?thesis
    by (intro runStep_eq [OF runStep.cancel [of "s\<lparr>sysState := st, sysMain := p\<rparr>" W generated k checks e]] runSys.equality) simp_all
qed (use assms(4) in simp_all)

lemma outside_record:
  assumes "outside s t"
  shows "outside (s\<lparr>sysWorkers := (sysWorkers s)[i := Recorded]\<rparr>) (t\<lparr>sysWorkers := (sysWorkers t)[i := Recorded]\<rparr>)"
proof -
  have "(sysWorkers s)[i := Recorded] ! j = Recorded"
    if "j < length (sysWorkers s)" "(sysWorkers t)[i := Recorded] ! j = Recorded" for j
    using assms that by (cases "i = j") (auto simp: outside_def)
  with assms show ?thesis by (simp add: outside_def)
qed

lemma backfill_at:
  "j < length checks \<Longrightarrow> backfillLoop now e j (drop j checks) st =
    (if rsCompleted st ! j then backfillLoop now e (Suc j) (drop (Suc j) checks) st
     else backfillLoop now e (Suc j) (drop (Suc j) checks)
        (st\<lparr>rsResults := (rsResults st)[j := newCancelledResult (checks ! j) now e],
            rsCompleted := (rsCompleted st)[j := True]\<rparr>))"
  by (simp add: Cons_nth_drop_Suc [symmetric])

text \<open>Each step is a step of the atomic system, or none.\<close>

lemma lockStep_sim:
  "lockStep W generated k checks s t \<Longrightarrow> lockInv k checks s \<Longrightarrow>
    runStep W generated k checks (absSys checks s) (absSys checks t) \<or> absSys checks t = absSys checks s"
proof (induction rule: lockStep.induct)
  case (lk_outside s t)
  have sizes: "sizesInv k checks (lkSys s)" using lk_outside(3) by (simp add: lockInv_def)
  note fr = outside_frame [OF lk_outside(1,2) sizes]
  show ?case
  proof (cases "lkHolder s")
    case Free
    with lk_outside(1) show ?thesis by (simp add: absSys_def)
  next
    case (WorkerIn i r pc)
    let ?st = "finishWorker pc i r (sysState (lkSys s))"
    have w: "i < length checks" "sysWorkers (lkSys s) ! i = Executed r" using lk_outside(3) WorkerIn by (auto simp: lockInv_def)
    have "rsResults ?st = rsResults (sysState (lkSys s))" if "sysMain (lkSys s) = Frozen"
      using that lk_outside(3) WorkerIn by (cases pc) (auto simp: lockInv_def)
    from state_frame [OF worker_frame [OF lk_outside(1,2) sizes w] _ sizesInv_unlock [OF sizes w], of ?st] this fr
    have "outside (lkSys s\<lparr>sysWorkers := (sysWorkers (lkSys s))[i := Recorded]\<rparr>) (t\<lparr>sysWorkers := (sysWorkers t)[i := Recorded]\<rparr>) \<Longrightarrow> ?thesis"
      using WorkerIn by (simp add: absSys_def)
    moreover have "outside (lkSys s\<lparr>sysWorkers := (sysWorkers (lkSys s))[i := Recorded]\<rparr>) (t\<lparr>sysWorkers := (sysWorkers t)[i := Recorded]\<rparr>)"
      by (rule outside_record [OF lk_outside(2)])
    ultimately show ?thesis by blast
  next
    case (MainIn pc)
    then have "sysMain (lkSys s) = Selected" using lk_outside(3) by (auto simp: lockInv_def)
    from main_frame [OF lk_outside(1,2) sizes this] fr MainIn show ?thesis by (simp add: absSys_def)
  qed
next
  case (w_lock s i r)
  then show ?case using record_result [of i checks "lkSys s" r W generated k] by (simp add: absSys_def)
next
  case (w_test s i r st)
  then show ?case by (simp add: absSys_def recordResult_def)
next
  case (w_write s i r st)
  then show ?case by (simp add: absSys_def)
next
  case (w_mark s i r st)
  then show ?case by (simp add: absSys_def)
next
  case (w_read s i r)
  then show ?case by (simp add: absSys_def)
next
  case (w_unlock s i r b)
  then show ?case by (simp add: absSys_def)
next
  case (m_lock s)
  then show ?case by (simp add: absSys_def)
next
  case (m_freeze s st)
  then have "sysMain (lkSys s) = Selected" "\<not> rsFrozen st" by (auto simp: lockInv_def)
  with m_freeze show ?case by (simp add: absSys_def)
next
  case (m_now s now)
  then have "sysMain (lkSys s) = Selected" "rsFrozen (sysState (lkSys s))" by (auto simp: lockInv_def)
  from this(2) have fr: "(sysState (lkSys s))\<lparr>rsFrozen := True\<rparr> = sysState (lkSys s)"
    by (intro runState.equality) simp_all
  have "runStep W generated k checks (absSys checks s) (absSys checks (s\<lparr>lkHolder := MainIn (MLoop now (sysCtx (lkSys s)) 0)\<rparr>))"
    using m_now(1) \<open>sysMain (lkSys s) = Selected\<close>
    by (intro runStep_eq [OF freeze [of "absSys checks s" W generated k checks now]] runSys.equality)
      (simp_all add: absSys_def freezeBackfill_def fr)
  then show ?case ..
next
  case (m_skip s now e j)
  then show ?case by (simp add: absSys_def backfill_at)
next
  case (m_write s now e j st)
  then show ?case by (simp add: absSys_def backfill_at)
next
  case (m_mark s now e j st)
  then show ?case by (simp add: absSys_def)
next
  case (m_unlock s now e j)
  then show ?case by (simp add: absSys_def)
qed

lemma lock_reach_sim:
  assumes "lockReaches W generated k checks (lockInit generated ctx checks) s"
  shows "runReaches W generated k checks (runInit generated ctx checks) (absSys checks s)"
  using assms
proof (induction rule: rtranclp_induct)
  case base
  show ?case by (simp add: absSys_def lockInit_def)
next
  case (step s t)
  from lockStep_sim [OF step(2) lockInv_reach [OF step(1)]] step(3) show ?case
    by (auto intro: rtranclp.rtrancl_into_rtrancl)
qed

section \<open>Every run of the atomic system is a run of the sections\<close>

lemma lockStep_eq: "lockStep W generated k checks s u \<Longrightarrow> t = u \<Longrightarrow> lockStep W generated k checks s t"
  by simp

lemma locked_record:
  assumes "lkHolder s = Free" "i < length checks" "sysWorkers (lkSys s) ! i = Executed r"
  shows "lockReaches W generated k checks s
    (s\<lparr>lkSys := (lkSys s)\<lparr>sysWorkers := (sysWorkers (lkSys s))[i := Recorded],
                        sysState := recordResult i r (sysState (lkSys s))\<rparr>\<rparr>)"
proof -
  let ?R = "lockStep W generated k checks"
  let ?st = "recordResult i r (sysState (lkSys s))"
  let ?at = "\<lambda>st pc. s\<lparr>lkSys := (lkSys s)\<lparr>sysState := st\<rparr>, lkHolder := WorkerIn i r pc\<rparr>"
  have "?R\<^sup>*\<^sup>* s (?at (sysState (lkSys s)) WTest)"
    using w_lock [OF assms, of W generated k] by auto
  also have "?R\<^sup>*\<^sup>* (?at (sysState (lkSys s)) WTest) (?at ?st WRead)"
  proof (cases "\<not> rsFrozen (sysState (lkSys s)) \<and> \<not> rsCompleted (sysState (lkSys s)) ! i")
    case True
    let ?s1 = "?at (sysState (lkSys s)) WWrite"
    let ?st1 = "(sysState (lkSys s))\<lparr>rsResults := (rsResults (sysState (lkSys s)))[i := r]\<rparr>"
    have "?R (?at (sysState (lkSys s)) WTest) ?s1"
      using True w_test [of "?at (sysState (lkSys s)) WTest" i r _ W generated k checks] by simp
    moreover have "?R ?s1 (?at ?st1 WMark)"
      using w_write [of ?s1 i r _ W generated k checks] by simp
    moreover have "?R (?at ?st1 WMark) (?at ?st WRead)"
      using True w_mark [of "?at ?st1 WMark" i r _ W generated k checks] by (simp add: recordResult_def)
    ultimately show ?thesis by (meson r_into_rtranclp rtranclp_trans)
  next
    case False
    then have "?R (?at (sysState (lkSys s)) WTest) (?at ?st WRead)"
      using w_test [of "?at (sysState (lkSys s)) WTest" i r _ W generated k checks] by (auto simp: recordResult_def)
    then show ?thesis by auto
  qed
  also have "?R (?at ?st WRead) (?at ?st (WDone (rsFrozen ?st)))"
    using w_read [of "?at ?st WRead" i r W generated k checks] by simp
  also have "?R (?at ?st (WDone (rsFrozen ?st)))
      (s\<lparr>lkSys := (lkSys s)\<lparr>sysWorkers := (sysWorkers (lkSys s))[i := Recorded], sysState := ?st\<rparr>\<rparr>)"
    using assms(1)
    by (intro lockStep_eq [OF w_unlock [of "?at ?st (WDone (rsFrozen ?st))" i r]] lockSys.equality runSys.equality) simp_all
  finally show ?thesis .
qed

lemma locked_backfill:
  "j \<le> length checks \<Longrightarrow> lkHolder s = MainIn (MLoop now e j) \<Longrightarrow>
    lockReaches W generated k checks s
      (s\<lparr>lkSys := (lkSys s)\<lparr>sysState := backfillLoop now e j (drop j checks) (sysState (lkSys s))\<rparr>,
         lkHolder := MainIn (MLoop now e (length checks))\<rparr>)"
proof (induction "length checks - j" arbitrary: j s)
  case 0
  then have "s\<lparr>lkSys := (lkSys s)\<lparr>sysState := backfillLoop now e j (drop j checks) (sysState (lkSys s))\<rparr>,
      lkHolder := MainIn (MLoop now e (length checks))\<rparr> = s"
    by (intro lockSys.equality runSys.equality) simp_all
  then show ?case by simp
next
  case (Suc n)
  then have j: "j < length checks" "n = length checks - Suc j" "Suc j \<le> length checks" by auto
  let ?R = "lockStep W generated k checks"
  let ?st = "sysState (lkSys s)"
  show ?case
  proof (cases "rsCompleted ?st ! j")
    case True
    let ?s1 = "s\<lparr>lkHolder := MainIn (MLoop now e (Suc j))\<rparr>"
    have "?R s ?s1" using m_skip [OF Suc(4) j(1) True] .
    moreover have "?R\<^sup>*\<^sup>* ?s1 (s\<lparr>lkSys := (lkSys s)\<lparr>sysState := backfillLoop now e j (drop j checks) ?st\<rparr>,
        lkHolder := MainIn (MLoop now e (length checks))\<rparr>)"
      using Suc(1) [OF j(2,3), of ?s1] True j(1) by (simp add: backfill_at)
    ultimately show ?thesis by (rule converse_rtranclp_into_rtranclp)
  next
    case False
    let ?c = "newCancelledResult (checks ! j) now e"
    let ?s1 = "s\<lparr>lkSys := (lkSys s)\<lparr>sysState := ?st\<lparr>rsResults := (rsResults ?st)[j := ?c]\<rparr>\<rparr>, lkHolder := MainIn (MMark now e j)\<rparr>"
    let ?s2 = "s\<lparr>lkSys := (lkSys s)\<lparr>sysState := ?st\<lparr>rsResults := (rsResults ?st)[j := ?c], rsCompleted := (rsCompleted ?st)[j := True]\<rparr>\<rparr>,
       lkHolder := MainIn (MLoop now e (Suc j))\<rparr>"
    have "?R s ?s1" using m_write [OF Suc(4) j(1) refl False] .
    moreover have "?R ?s1 ?s2" using m_mark [of ?s1 now e j _ W generated k checks] by simp
    moreover have "?R\<^sup>*\<^sup>* ?s2 (s\<lparr>lkSys := (lkSys s)\<lparr>sysState := backfillLoop now e j (drop j checks) ?st\<rparr>,
        lkHolder := MainIn (MLoop now e (length checks))\<rparr>)"
      using Suc(1) [OF j(2,3), of ?s2] False j(1) by (simp add: backfill_at)
    ultimately show ?thesis by (meson converse_rtranclp_into_rtranclp)
  qed
qed

lemma locked_freeze:
  assumes "lkHolder s = Free" "sysMain (lkSys s) = Selected"
  shows "lockReaches W generated k checks s
    (s\<lparr>lkSys := (lkSys s)\<lparr>sysMain := Frozen, sysState := freezeBackfill now (sysCtx (lkSys s)) checks (sysState (lkSys s))\<rparr>\<rparr>)"
proof -
  let ?R = "lockStep W generated k checks"
  let ?st = "sysState (lkSys s)"
  let ?e = "sysCtx (lkSys s)"
  let ?at = "\<lambda>st pc. s\<lparr>lkSys := (lkSys s)\<lparr>sysState := st\<rparr>, lkHolder := MainIn pc\<rparr>"
  let ?fr = "?st\<lparr>rsFrozen := True\<rparr>"
  let ?z = "freezeBackfill now ?e checks ?st"
  have "?R\<^sup>*\<^sup>* s (?at ?st MFreeze)" using m_lock [OF assms, of W generated k checks] by auto
  also have "?R (?at ?st MFreeze) (?at ?fr MNow)" using m_freeze [of "?at ?st MFreeze" _ W generated k checks] by simp
  also have "?R (?at ?fr MNow) (?at ?fr (MLoop now ?e 0))" using m_now [of "?at ?fr MNow" W generated k checks now] by simp
  also have "?R\<^sup>*\<^sup>* (?at ?fr (MLoop now ?e 0)) (?at ?z (MLoop now ?e (length checks)))"
    using locked_backfill [of 0 checks "?at ?fr (MLoop now ?e 0)" now ?e W generated k] by (simp add: freezeBackfill_def)
  also have "?R (?at ?z (MLoop now ?e (length checks))) (s\<lparr>lkSys := (lkSys s)\<lparr>sysMain := Frozen, sysState := ?z\<rparr>\<rparr>)"
  proof -
    have "?R (?at ?z (MLoop now ?e (length checks))) ((?at ?z (MLoop now ?e (length checks)))
       \<lparr>lkSys := (lkSys (?at ?z (MLoop now ?e (length checks))))\<lparr>sysMain := Frozen\<rparr>, lkHolder := Free\<rparr>)"
      by (rule m_unlock) simp_all
    moreover have "(?at ?z (MLoop now ?e (length checks)))
       \<lparr>lkSys := (lkSys (?at ?z (MLoop now ?e (length checks))))\<lparr>sysMain := Frozen\<rparr>, lkHolder := Free\<rparr>
      = s\<lparr>lkSys := (lkSys s)\<lparr>sysMain := Frozen, sysState := ?z\<rparr>\<rparr>"
      by (rule lockSys.equality) (simp_all add: assms(1))
    ultimately show ?thesis by simp
  qed
  finally show ?thesis .
qed

lemma recorded_kept: "w \<noteq> Recorded \<Longrightarrow> ws[i := w] ! j = Recorded \<Longrightarrow> ws ! j = Recorded"
  by (cases "i = j"; cases "i < length ws") (auto simp: list_update_beyond)

lemma outside_or_section:
  assumes "runStep W generated k checks s t" "sizesInv k checks s"
  shows "outside s t
    \<or> (\<exists>i r. i < length checks \<and> sysWorkers s ! i = Executed r
          \<and> t = s\<lparr>sysWorkers := (sysWorkers s)[i := Recorded], sysState := recordResult i r (sysState s)\<rparr>)
    \<or> (\<exists>now. sysMain s = Selected
          \<and> t = s\<lparr>sysMain := Frozen, sysState := freezeBackfill now (sysCtx s) checks (sysState s)\<rparr>)"
  using assms(1)
proof (cases rule: runStep.cases)
  case (record_result i r)
  then show ?thesis by blast
next
  case (freeze now)
  then show ?thesis by blast
qed (auto simp: outside_def dest: recorded_kept [rotated])

lemma locked_run:
  "runReaches W generated k checks (runInit generated ctx checks) t \<Longrightarrow>
    \<exists>s. lockReaches W generated k checks (lockInit generated ctx checks) s \<and> lkHolder s = Free \<and> lkSys s = t"
proof (induction rule: rtranclp_induct)
  case base
  show ?case by (rule exI [of _ "lockInit generated ctx checks"]) (simp add: lockInit_def)
next
  case (step t u)
  then obtain s where s: "lockReaches W generated k checks (lockInit generated ctx checks) s" "lkHolder s = Free" "lkSys s = t"
    by blast
  have "sizesInv k checks t" using lockInv_reach [OF s(1)] s(3) by (auto simp: lockInv_def)
  from outside_or_section [OF step(2) this] have "lockReaches W generated k checks s (s\<lparr>lkSys := u\<rparr>)"
  proof (elim disjE exE conjE)
    assume "outside t u"
    with lk_outside [of W generated k checks s u] step(2) s(3) show ?thesis by auto
  next
    fix i r
    assume "i < length checks" "sysWorkers t ! i = Executed r"
      "u = t\<lparr>sysWorkers := (sysWorkers t)[i := Recorded], sysState := recordResult i r (sysState t)\<rparr>"
    with locked_record [OF s(2), of i checks r W generated k] s(3) show ?thesis by simp
  next
    fix now
    assume "sysMain t = Selected" "u = t\<lparr>sysMain := Frozen, sysState := freezeBackfill now (sysCtx t) checks (sysState t)\<rparr>"
    with locked_freeze [OF s(2), of W generated k checks now] s(3) show ?thesis by simp
  qed
  with s show ?case by (intro exI [of _ "s\<lparr>lkSys := u\<rparr>"]) auto
qed

text \<open>
  Property C9: the critical sections are atomic. The system in which workers and \<open>Run\<close> read and write the shared state field
  by field, under the mutex, is, whenever nobody holds the mutex, in exactly the states of the one in which each section is
  a single step; and so it is at any other moment, when the section in progress is taken to be done or not yet begun. What
  holds of the runs of \<open>runStep\<close> holds of the interleaved reads and writes too.
\<close>

theorem runner_sections_atomic:
  "((\<exists>s. lockReaches W generated k checks (lockInit generated ctx checks) s \<and> lkHolder s = Free \<and> lkSys s = t)
      \<longleftrightarrow> runReaches W generated k checks (runInit generated ctx checks) t)
   \<and> ((\<exists>s. lockReaches W generated k checks (lockInit generated ctx checks) s \<and> absSys checks s = t)
      \<longleftrightarrow> runReaches W generated k checks (runInit generated ctx checks) t)"
proof -
  have free: "absSys checks s = lkSys s" if "lkHolder s = Free" for s using that by (simp add: absSys_def)
  have "\<exists>s. lockReaches W generated k checks (lockInit generated ctx checks) s \<and> lkHolder s = Free \<and> lkSys s = t"
    if "runReaches W generated k checks (runInit generated ctx checks) t"
    using locked_run [OF that] by blast
  then show ?thesis using lock_reach_sim free by metis
qed

text \<open>
  Once \<open>Run\<close> has returned, the report is safe to read without the mutex: whatever section a leaked worker is in, and whatever
  it does from then on, the results stay those of the report.
\<close>

lemma returned_abs:
  "lockInv k checks s \<Longrightarrow> sysMain (lkSys s) = Returned rep \<Longrightarrow> sysMain (absSys checks s) = Returned rep
     \<and> rsFrozen (sysState (absSys checks s)) = rsFrozen (sysState (lkSys s))"
proof (cases "lkHolder s")
  case (WorkerIn i r pc)
  then show "sysMain (lkSys s) = Returned rep \<Longrightarrow> ?thesis" by (cases pc) (simp_all add: absSys_def)
qed (auto simp: absSys_def lockInv_def)

lemma returned_results:
  assumes "lockInv k checks s" "sysMain (lkSys s) = Returned rep" "rsFrozen (sysState (lkSys s))"
  shows "rsResults (sysState (absSys checks s)) = rsResults (sysState (lkSys s))"
proof (cases "lkHolder s")
  case (WorkerIn i r pc)
  with assms show ?thesis by (cases pc) (auto simp: absSys_def lockInv_def)
qed (use assms in \<open>auto simp: absSys_def lockInv_def\<close>)

lemma lock_returned_step:
  assumes "lockStep W generated k checks s t" "lockInv k checks s" "sysMain (lkSys s) = Returned rep"
  shows "sysMain (lkSys t) = Returned rep"
  using assms(1)
proof (cases rule: lockStep.cases)
  case (lk_outside t')
  have "sizesInv k checks (lkSys s)" using assms(2) by (simp add: lockInv_def)
  from outside_frame [OF lk_outside(2,3) this] lk_outside(1) assms(3) show ?thesis by auto
qed (use assms in \<open>auto simp: lockInv_def\<close>)

lemma lock_report:
  assumes "lockReaches W generated k checks (lockInit generated ctx checks) s" "checks \<noteq> []"
    and "sysMain (lkSys s) = Returned rep"
  shows "rsResults (sysState (lkSys s)) = repResults rep"
proof -
  note inv = lockInv_reach [OF assms(1)]
  note abs = returned_abs [OF inv assms(3)]
  from reachable_runInv [OF assms(2) lock_reach_sim [OF assms(1)]] abs
  have "rep = emptyReport generated (rsResults (sysState (absSys checks s)))" "rsFrozen (sysState (lkSys s))"
    by (auto simp: runInv_def phaseInv_def)
  with returned_results [OF inv assms(3)] show ?thesis by (simp add: emptyReport_def)
qed

lemma lock_snapshot:
  assumes "lockReaches W generated k checks (lockInit generated ctx checks) s" "checks \<noteq> []"
    and "sysMain (lkSys s) = Returned rep" "lockReaches W generated k checks s t"
  shows "sysMain (lkSys t) = Returned rep \<and> rsResults (sysState (lkSys t)) = repResults rep"
  using assms(4)
proof (induction rule: rtranclp_induct)
  case base
  show ?case using lock_report [OF assms(1-3)] assms(3) by simp
next
  case (step t u)
  have t: "lockReaches W generated k checks (lockInit generated ctx checks) t" using assms(1) step(1) by (rule rtranclp_trans)
  from lock_returned_step [OF step(2) lockInv_reach [OF t]] step(3) have u: "sysMain (lkSys u) = Returned rep" by blast
  from lock_report [OF rtranclp.rtrancl_into_rtrancl [OF t step(2)] assms(2) u] u show ?case by simp
qed

end
