(* ===== verification/TimeRead.thy ===== *)
theory TimeRead
  imports GoTime GoStringFacts GoNumbers
begin

text \<open>
  A reader of \<open>RFC3339\<close> times in UTC, as the consumers of the reports have to do it, and the proof that it inverts
  the printer: no instant of the years 0 to 9999 is lost or moved, to the nanosecond.
\<close>

section \<open>Decimal digits\<close>

definition decVal :: "string \<Rightarrow> int" where
  "decVal s = foldl (\<lambda>a c. a * 10 + (int (byte c) - 48)) 0 s"

lemma decVal_snoc [simp]: "decVal (s @ [c]) = decVal s * 10 + (int (byte c) - 48)" "decVal [] = 0"
  by (simp_all add: decVal_def)

lemma decVal_showNat: "decVal (showNat n) = int n"
proof (induction n rule: showNat.induct)
  case (1 n)
  have d: "int (byte (digitChar m)) = 48 + int m" if "m < 10" for m using byte_digitChar [OF that] by simp
  show ?case
  proof (cases "n < 10")
    case True
    with d [OF True] decVal_snoc(1) [of "[]" "digitChar n"] show ?thesis by (subst showNat.simps) simp
  next
    case False
    moreover have "int (n div 10) * 10 + int (n mod 10) = int n" by presburger
    ultimately show ?thesis using 1 d [of "n mod 10"] by (subst showNat.simps) simp
  qed
qed

lemma decVal_zeros: "decVal (replicate k (CHR ''0'') @ s) = decVal s"
proof -
  have "foldl (\<lambda>a c. a * 10 + (int (byte c) - 48)) 0 (replicate k (CHR ''0'')) = 0" by (induction k) simp_all
  then show ?thesis by (simp add: decVal_def)
qed

lemma showNat_length: "n < 10 ^ w \<Longrightarrow> 0 < w \<Longrightarrow> length (showNat n) \<le> w"
proof (induction n arbitrary: w rule: showNat.induct)
  case (1 n)
  show ?case
  proof (cases "n < 10")
    case False
    with 1(2,3) obtain v where v: "w = Suc v" "0 < v" by (cases w; cases "w - 1") auto
    then have "n div 10 < 10 ^ v" using 1(2) by (simp add: div_less_iff_less_mult mult.commute)
    with 1(1) [OF False this v(2)] v show ?thesis by (subst showNat.simps) simp
  qed (use 1 in \<open>subst showNat.simps, simp\<close>)
qed

lemma padInt_facts:
  assumes "0 \<le> i" "i < 10 ^ w" "0 < w"
  shows "length (padInt w i) = w" "list_all isDigit (padInt w i)" "decVal (padInt w i) = i"
proof -
  have "nat i < 10 ^ w" using assms(1,2) by (simp add: nat_less_iff)
  then have "length (showNat (nat i)) \<le> w" using showNat_length assms(3) by blast
  then show "length (padInt w i) = w" "list_all isDigit (padInt w i)" "decVal (padInt w i) = i"
    using assms showNat_digits [of "nat i"]
    by (auto simp: padInt_def Let_def decVal_zeros decVal_showNat list_all_iff isDigit_def)
qed

section \<open>Reading\<close>

definition readDigits :: "nat \<Rightarrow> string \<Rightarrow> (int \<times> string) option" where
  "readDigits w s =
     (if w \<le> length s \<and> list_all isDigit (take w s) then Some (decVal (take w s), drop w s) else None)"

definition readChar :: "char \<Rightarrow> string \<Rightarrow> string option" where
  "readChar c s = (case s of x # r \<Rightarrow> if x = c then Some r else None | [] \<Rightarrow> None)"

text \<open>An optional fraction of up to nine digits, in nanoseconds\<close>

definition readFraction :: "string \<Rightarrow> (int \<times> string) option" where
  "readFraction s =
     (case readChar CHR ''.'' s of
        None \<Rightarrow> Some (0, s)
      | Some r \<Rightarrow>
          let ds = takeWhile isDigit r in
          if ds = [] \<or> 9 < length ds then None
          else Some (decVal (ds @ replicate (9 - length ds) (CHR ''0'')), dropWhile isDigit r))"

definition readDate :: "string \<Rightarrow> (int \<times> string) option" where
  "readDate s =
     Option.bind (readDigits 4 s) (\<lambda>(y, s). Option.bind (readChar CHR ''-'' s) (\<lambda>s.
     Option.bind (readDigits 2 s) (\<lambda>(m, s). Option.bind (readChar CHR ''-'' s) (\<lambda>s.
     Option.bind (readDigits 2 s) (\<lambda>(d, s).
       let ls = monthLengths (leapYear y) in
       if 1 \<le> m \<and> m \<le> 12 \<and> 1 \<le> d \<and> d \<le> ls ! nat (m - 1)
       then Some (daysBeforeYear y + sum_list (take (nat (m - 1)) ls) + d - 1, s) else None)))))"

definition readClock :: "string \<Rightarrow> (int \<times> string) option" where
  "readClock s =
     Option.bind (readDigits 2 s) (\<lambda>(h, s). Option.bind (readChar CHR '':'' s) (\<lambda>s.
     Option.bind (readDigits 2 s) (\<lambda>(m, s). Option.bind (readChar CHR '':'' s) (\<lambda>s.
     Option.bind (readDigits 2 s) (\<lambda>(sec, s).
       if h < 24 \<and> m < 60 \<and> sec < 60 then Some (h * 3600 + m * 60 + sec, s) else None)))))"

definition readRFC3339 :: "string \<Rightarrow> gotime option" where
  "readRFC3339 s =
     Option.bind (readDate s) (\<lambda>(days, s). Option.bind (readChar CHR ''T'' s) (\<lambda>s.
     Option.bind (readClock s) (\<lambda>(secs, s). Option.bind (readFraction s) (\<lambda>(ns, s).
       if s = ''Z'' then Some ((days * 86400 + secs) * nanosPerSecond + ns) else None))))"

section \<open>Reading what was printed\<close>

lemma readDigits_padInt: "0 \<le> i \<Longrightarrow> i < 10 ^ w \<Longrightarrow> 0 < w \<Longrightarrow> readDigits w (padInt w i @ s) = Some (i, s)"
  using padInt_facts [of i w] by (simp add: readDigits_def)

lemma readChar_Cons [simp]: "readChar c (c # s) = Some s"
  by (simp add: readChar_def)

lemma trimRight_zeros: "\<exists>k. s = trimRightSet (\<lambda>c. c = CHR ''0'') s @ replicate k (CHR ''0'')"
proof -
  have "takeWhile (\<lambda>c. c = CHR ''0'') (rev s) = replicate (length (takeWhile (\<lambda>c. c = CHR ''0'') (rev s))) (CHR ''0'')"
    by (rule replicate_eqI) (auto dest: set_takeWhileD)
  then have "rev s = replicate (length (takeWhile (\<lambda>c. c = CHR ''0'') (rev s))) (CHR ''0'') @ dropWhile (\<lambda>c. c = CHR ''0'') (rev s)"
    by (metis takeWhile_dropWhile_id)
  then have "s = rev (dropWhile (\<lambda>c. c = CHR ''0'') (rev s)) @ replicate (length (takeWhile (\<lambda>c. c = CHR ''0'') (rev s))) (CHR ''0'')"
    by (metis rev_append rev_replicate rev_rev_ident)
  then show ?thesis unfolding trimRightSet_def by blast
qed

lemma readFraction_printed:
  assumes "0 \<le> ns" "ns < nanosPerSecond" "s = [] \<or> \<not> isDigit (hd s) \<and> hd s \<noteq> CHR ''.''"
  shows "readFraction (fracSecond ns @ s) = Some (ns, s)"
proof (cases "ns = 0")
  case True
  with assms(3) show ?thesis by (cases s) (auto simp: fracSecond_def readFraction_def readChar_def)
next
  case False
  let ?p = "padInt 9 ns" and ?t = "trimRightSet (\<lambda>c. c = CHR ''0'') (padInt 9 ns)"
  have p: "length ?p = 9" "list_all isDigit ?p" "decVal ?p = ns"
    using padInt_facts [of ns 9] assms(1,2) by (simp_all add: nanosPerSecond_def)
  obtain k where k: "?p = ?t @ replicate k (CHR ''0'')" using trimRight_zeros by blast
  then have len: "length ?t + k = 9" using p(1) by (metis length_append length_replicate)
  have "list_all isDigit ?t" using p(2) k by (metis list_all_append)
  then have tw: "takeWhile isDigit (?t @ s) = ?t" "dropWhile isDigit (?t @ s) = s"
    using assms(3) by (cases s; simp add: list_all_iff takeWhile_append dropWhile_append; simp add: takeWhile_append2 list_all_iff)+
  have "?t \<noteq> []"
  proof
    assume "?t = []"
    then have "decVal ?p = 0" using k decVal_zeros [of k "[]"] by simp
    with p(3) False show False by simp
  qed
  moreover have "9 - length ?t = k" using len by simp
  ultimately show ?thesis
    using False tw len p(3) k by (simp add: fracSecond_def readFraction_def Let_def)
qed

lemma monthLengths_facts: "length (monthLengths leap) = 12" "list_all (\<lambda>l. 0 < l \<and> l \<le> 31) (monthLengths leap)"
    "sum_list (monthLengths leap) = (if leap then 366 else 365)"
  by (simp_all add: monthLengths_def)

lemma readDate_printed:
  assumes "yearAndDay days = (y, yday)" "monthLoop 1 (monthLengths (leapYear y)) yday = (m, d)" "0 \<le> y" "y \<le> 9999"
  shows "readDate (padInt 4 y @ CHR ''-'' # padInt 2 m @ CHR ''-'' # padInt 2 d @ s) = Some (days, s)"
proof -
  let ?ls = "monthLengths (leapYear y)"
  from yearAndDay_day [OF assms(1)] have y: "daysBeforeYear y + yday = days" "0 \<le> yday" "yday < sum_list ?ls"
    by (auto simp: monthLengths_facts)
  have "list_all (\<lambda>l. 0 < l) ?ls" using monthLengths_facts(2) [of "leapYear y"] by (auto simp: list_all_iff)
  from monthLoop_day [OF assms(2) y(2,3) this] have m: "1 \<le> m" "m \<le> 12" "1 \<le> d" "d \<le> ?ls ! nat (m - 1)"
    "sum_list (take (nat (m - 1)) ?ls) + d = yday + 1"
    by (auto simp: monthLengths_facts)
  have "?ls ! nat (m - 1) \<in> set ?ls" using m(1,2) by (intro nth_mem) (simp add: monthLengths_facts)
  then have "d \<le> 31" using m(4) monthLengths_facts(2) [of "leapYear y"] by (auto simp: list_all_iff)
  with m y(1) assms(3,4) show ?thesis
    by (simp add: readDate_def readDigits_padInt Let_def)
qed

lemma readClock_fields:
  "0 \<le> h \<Longrightarrow> h < 24 \<Longrightarrow> 0 \<le> m \<Longrightarrow> m < 60 \<Longrightarrow> 0 \<le> x \<Longrightarrow> x < 60 \<Longrightarrow>
    readClock (padInt 2 h @ CHR '':'' # padInt 2 m @ CHR '':'' # padInt 2 x @ s) = Some (h * 3600 + m * 60 + x, s)"
  by (simp add: readClock_def readDigits_padInt)

lemma clock_value: "sod div 3600 * 3600 + sod div 60 mod 60 * 60 + sod mod 60 = sod" for sod :: int
proof -
  have "sod div 60 = 60 * (sod div 3600) + sod div 60 mod 60"
    using zdiv_zmult2_eq [of 60 sod 60] mult_div_mod_eq [of 60 "sod div 60"] by simp
  then show ?thesis using mult_div_mod_eq [of 60 sod] by linarith
qed

lemma readClock_printed:
  assumes "0 \<le> sod" "sod < 86400"
  shows "readClock (padInt 2 (sod div 3600) @ CHR '':'' # padInt 2 (sod div 60 mod 60) @ CHR '':'' # padInt 2 (sod mod 60) @ s)
    = Some (sod, s)"
proof -
  have "sod div 3600 < 24" using assms by linarith
  moreover have "0 \<le> sod div 3600" using assms(1) by (rule pos_imp_zdiv_nonneg_iff [THEN iffD2, rotated]) simp
  ultimately show ?thesis by (subst readClock_fields) (simp_all only: clock_value pos_mod_sign pos_mod_bound zero_less_numeral)
qed

lemma read_printed_time:
  assumes "timeEncodable t"
  shows "readRFC3339 (formatRFC3339 True t) = Some t"
proof -
  define secs where "secs = t div nanosPerSecond"
  define days sod ns where "days = secs div 86400" and "sod = secs mod 86400" and "ns = t mod nanosPerSecond"
  obtain y yday where y: "yearAndDay days = (y, yday)" by fastforce
  obtain m d where m: "monthLoop 1 (monthLengths (leapYear y)) yday = (m, d)" by fastforce
  have b: "0 \<le> y" "y \<le> 9999"
    using assms y by (simp_all add: timeEncodable_def goYear_def days_def secs_def)
  have s: "0 \<le> sod" "sod < 86400" "0 \<le> ns" "ns < nanosPerSecond" by (simp_all add: sod_def ns_def nanosPerSecond_def)
  have f: "formatRFC3339 True t = padInt 4 y @ CHR ''-'' # padInt 2 m @ CHR ''-'' # padInt 2 d @ CHR ''T''
      # padInt 2 (sod div 3600) @ CHR '':'' # padInt 2 (sod div 60 mod 60) @ CHR '':'' # padInt 2 (sod mod 60)
      @ fracSecond ns @ ''Z''"
    using y m by (simp add: formatRFC3339_def Let_def days_def sod_def ns_def secs_def)
  have "(days * 86400 + sod) * nanosPerSecond + ns = t" by (simp add: days_def sod_def ns_def secs_def)
  then show ?thesis
    unfolding f readRFC3339_def
    by (simp add: readDate_printed [OF y m b] readClock_printed [OF s(1,2)] readFraction_printed [OF s(3,4)] isDigit_def)
qed

end
