(* ===== verification/GoFloatFacts.thy ===== *)
theory GoFloatFacts
  imports GoFloat
begin

text \<open>
  A whole number of thousandths below \<open>10^15\<close>, divided by 1000 as a \<open>float64\<close>: it has fewer digits than the mantissa can
  tell apart, so its shortest decimal is the exact one.
\<close>

lemma ten_split: "i \<le> 3 \<Longrightarrow> 10 ^ nat (3 - i) * 10 ^ nat i = (1000 :: 'a :: comm_semiring_1) * 10 ^ nat (- i)"
proof -
  assume i: "i \<le> 3"
  have "nat (3 - i) + nat i = 3 + nat (- i)" using i by simp
  then have "(10 :: 'a) ^ (nat (3 - i) + nat i) = 10 ^ (3 + nat (- i))" by simp
  then show ?thesis by (simp add: power_add power3_eq_cube)
qed

lemma real_pow: "real (10 ^ k) = 10 ^ k"
  by simp

lemma ratio_eq: "v * d = 1000 * n \<Longrightarrow> 0 < d \<Longrightarrow> n / d = v / (1000 :: real)"
  by (simp add: field_simps)

lemma two_errors:
  fixes F V U :: real
  assumes "\<bar>F - V / 1000\<bar> \<le> V / 1000 / 2 ^ 53" "\<bar>F - U / 1000\<bar> \<le> U / 1000 / 2 ^ 53"
  shows "\<bar>V - U\<bar> \<le> (V + U) / 2 ^ 53"
proof -
  have "\<bar>V / 1000 - U / 1000\<bar> \<le> \<bar>F - V / 1000\<bar> + \<bar>F - U / 1000\<bar>" by simp
  also have "\<dots> \<le> V / 1000 / 2 ^ 53 + U / 1000 / 2 ^ 53" using assms by (rule add_mono)
  also have "\<dots> = (V + U) / 2 ^ 53 / 1000" by simp
  finally have "\<bar>V - U\<bar> / 1000 \<le> (V + U) / 2 ^ 53 / 1000" by (simp flip: diff_divide_distrib)
  then show ?thesis by simp
qed

lemma one_error:
  fixes K U :: real
  assumes "\<bar>K - U / 1000\<bar> \<le> U / 1000 / 2 ^ 53"
  shows "\<bar>1000 * K - U\<bar> \<le> U / 2 ^ 53"
proof -
  have p: "(2 :: real) ^ 53 = 9007199254740992" by simp
  show ?thesis using assms unfolding p abs_le_iff by - (elim conjE, intro conjI; linarith)
qed

text \<open>No decimal with at most three places is read as the quotient but the exact one.\<close>

lemma read_back:
  assumes "0 < u" "u < 10 ^ 15" "decimalFloat c i = float64Of u 1000" "i \<le> 3"
  shows "c * 10 ^ nat (3 - i) = u"
proof (rule ccontr)
  let ?n = "c * 10 ^ nat (- i)" and ?d = "10 ^ nat i :: nat"
  let ?f = "float64Of u 1000" and ?v = "c * 10 ^ nat (3 - i)"
  assume ne: "?v \<noteq> u"
  have f: "float64Of ?n ?d = ?f" using assms(3) by (simp add: decimalFloat_def)
  have pos: "0 < fval ?f" using fval_pos [OF assms(1), of 1000] by simp
  have n: "0 < ?n"
  proof (rule ccontr)
    assume "\<not> 0 < ?n"
    then have "float64Of ?n ?d = (0, 0)" by (simp add: float64Of_def)
    then have "fval ?f = 0" using f by (simp add: fval_def)
    with pos show False by simp
  qed
  have d: "0 < ?d" by simp
  have "real ?v * real ?d = real (c * (10 ^ nat (3 - i) * 10 ^ nat i))" by (simp only: of_nat_mult mult.assoc)
  also have "\<dots> = real (c * (1000 * 10 ^ nat (- i)))" by (simp only: ten_split [OF assms(4)])
  also have "\<dots> = 1000 * real ?n" by simp
  finally have "real ?v * real ?d = 1000 * real ?n" .
  then have y: "real ?n / real ?d = real ?v / 1000" by (rule ratio_eq) simp
  have "\<bar>fval ?f - real ?v / 1000\<bar> \<le> real ?v / 1000 / 2 ^ 53"
    using float64Of_error [OF n d] unfolding f y .
  moreover have "\<bar>fval ?f - real u / 1000\<bar> \<le> real u / 1000 / 2 ^ 53"
    using float64Of_error [OF assms(1), of 1000] by simp
  ultimately have close: "\<bar>real ?v - real u\<bar> \<le> (real ?v + real u) / 2 ^ 53" by (rule two_errors)
  have u: "real u < 10 ^ 15" using assms(2) by (metis of_nat_less_iff of_nat_numeral of_nat_power)
  have "1 \<le> \<bar>real ?v - real u\<bar>"
  proof (cases "u < ?v")
    case True
    then have "real u + 1 \<le> real ?v" by (metis Suc_leI of_nat_Suc of_nat_le_iff add.commute)
    then show ?thesis by simp
  next
    case False
    then have "real ?v + 1 \<le> real u" using ne by (metis Suc_leI linorder_neqE_nat of_nat_Suc of_nat_le_iff add.commute)
    then show ?thesis by simp
  qed
  with close u show False by (simp add: abs_if split: if_splits)
qed

text \<open>And the exact one is among those that are tried.\<close>

lemma exact_tried:
  assumes "0 < u" "u < 10 ^ 15" "c * 10 ^ nat (3 - i) = u" "i \<le> 3"
  shows "c \<in> set (decimalsAt (float64Of u 1000) i)"
proof -
  let ?f = "float64Of u 1000"
  have "c * (10 ^ nat (3 - i) * 10 ^ nat i) = u * 10 ^ nat i" using assms(3) by (simp flip: mult.assoc)
  then have ratio: "(c * 10 ^ nat (- i)) * 1000 = u * 10 ^ nat i"
    unfolding ten_split [OF assms(4)] by (simp add: ac_simps)
  have reads: "decimalFloat c i = ?f"
    unfolding decimalFloat_def by (rule float64Of_ratio [OF assms(1) _ _ ratio]) simp_all
  obtain n d where nd: "floatFrac ?f = (n, d)" by fastforce
  note val = floatFrac_val [OF nd]
  let ?a = "n * 10 ^ nat i" and ?b = "d * 10 ^ nat (- i)"
  let ?t = "10 ^ nat i / 10 ^ nat (- i) :: real"
  have b: "0 < ?b" using val by simp
  have "real ?a / real ?b = real n / real d * ?t" by simp
  then have z: "real ?a / real ?b = fval ?f * ?t" by (simp only: conjunct2 [OF val])
  have cx: "real c = real u / 1000 * ?t"
  proof -
    have "real ((c * 10 ^ nat (- i)) * 1000) = real (u * 10 ^ nat i)" by (simp only: ratio)
    then show ?thesis by (simp add: field_simps)
  qed
  have t: "0 < ?t" by simp
  have "\<bar>fval ?f - real u / 1000\<bar> \<le> real u / 1000 / 2 ^ 53" using float64Of_error [OF assms(1), of 1000] by simp
  then have "\<bar>fval ?f - real u / 1000\<bar> * ?t \<le> real u / 1000 / 2 ^ 53 * ?t" using t by (intro mult_right_mono) auto
  moreover have "\<bar>fval ?f - real u / 1000\<bar> * ?t = \<bar>fval ?f * ?t - real u / 1000 * ?t\<bar>"
    using t by (metis abs_mult_pos left_diff_distrib less_imp_le)
  ultimately have "\<bar>real ?a / real ?b - real c\<bar> \<le> real c / 2 ^ 53" unfolding z cx by (simp add: mult.commute)
  moreover have "c \<le> u" using assms(3) by (metis One_nat_def dvd_triv_left dvd_imp_le assms(1))
  then have "real c \<le> real u" by simp
  moreover have "real u < 10 ^ 15" using assms(2) by (metis of_nat_less_iff of_nat_numeral of_nat_power)
  ultimately have near: "\<bar>real ?a / real ?b - real c\<bar> < 1" by simp
  then have "real ?a / real ?b < real c + 1" "real c < real ?a / real ?b + 1" by linarith+
  then have "real ?a < (real c + 1) * real ?b" "real c * real ?b < real ?a + real ?b"
    using b by (simp_all add: field_simps)
  then have hi: "?a < Suc c * ?b" and lo: "c * ?b < ?a + ?b" by (simp_all flip: of_nat_mult of_nat_add of_nat_Suc add: add.commute)
  have "?a div ?b = c \<or> Suc (?a div ?b) = c \<and> ?a mod ?b \<noteq> 0"
  proof -
    have "?a div ?b < Suc c" using hi b by (simp only: div_less_iff_less_mult)
    moreover have "c < Suc (Suc (?a div ?b))"
    proof -
      have "?a < Suc (?a div ?b) * ?b" using b by (simp add: dividend_less_div_times)
      with lo have "c * ?b < Suc (Suc (?a div ?b)) * ?b" by simp
      then show ?thesis using b by (simp only: mult_less_cancel2)
    qed
    moreover have "?a mod ?b \<noteq> 0" if "Suc (?a div ?b) = c"
    proof
      assume "?a mod ?b = 0"
      then have "?a = (?a div ?b) * ?b" by (metis add.right_neutral div_mult_mod_eq)
      then have "c * ?b = ?a + ?b" using that by (metis add.commute mult_Suc)
      with lo show False by simp
    qed
    ultimately show ?thesis by linarith
  qed
  then show ?thesis unfolding decimalsAt_def nd using reads by (auto simp: Let_def)
qed

lemma find_upto: "P t \<Longrightarrow> a \<le> t \<Longrightarrow> t \<le> b \<Longrightarrow> \<exists>j. find P [a..b] = Some j \<and> j \<le> t \<and> P j" for t :: int
proof (induction "nat (t - a)" arbitrary: a)
  case 0
  then have "a = t" by simp
  with 0 show ?case by (simp add: upto.simps [of t b])
next
  case (Suc k)
  show ?case
  proof (cases "P a")
    case True
    with Suc show ?thesis by (simp add: upto.simps [of a b])
  next
    case False
    have "k = nat (t - (a + 1))" "a + 1 \<le> t" using Suc by simp_all
    with Suc False show ?thesis by (simp add: upto.simps [of a b])
  qed
qed

lemma shortest_millis:
  assumes "0 < u" "u < 10 ^ 15" "\<not> 1000 dvd u"
  obtains c j where "shortest (float64Of u 1000) = (c, j)" "1 \<le> j" "j \<le> 3" "c * 10 ^ nat (3 - j) = u"
proof -
  let ?f = "float64Of u 1000" and ?P = "\<lambda>j. decimalsAt (float64Of u 1000) j \<noteq> []"
  have member: "c * 10 ^ nat (3 - j) = u" if "c \<in> set (decimalsAt ?f j)" "j \<le> 3" for c j
    by (rule read_back [OF assms(1,2) _ that(2)]) (use that(1) in \<open>auto simp: decimalsAt_def Let_def split: prod.splits if_splits\<close>)
  have three: "?P 3" using exact_tried [OF assms(1,2), of u 3] by auto
  have "(-20::int) \<le> 3" "3 \<le> (80::int)" by simp_all
  from find_upto [of ?P, OF three this] obtain j where j: "find ?P [-20..80] = Some j" "j \<le> 3" "?P j" by blast
  define c where "c = hd (decimalsAt ?f j)"
  have c: "c * 10 ^ nat (3 - j) = u" using member [of c j] j(2) hd_in_set [OF j(3)] by (simp only: c_def)
  moreover have "1 \<le> j"
  proof (rule ccontr)
    assume "\<not> 1 \<le> j"
    then have "nat (3 - j) = 3 + nat (- j)" by simp
    then have "u = c * 10 ^ nat (- j) * 1000" using c by (simp add: power_add power3_eq_cube ac_simps)
    with assms(3) show False by simp
  qed
  moreover have "shortest ?f = (c, j)" by (simp only: shortest_def j(1) option.case c_def)
  ultimately show thesis using that j(2) by blast
qed

lemma floatDiv_millis:
  assumes "0 < u" "u < 2 ^ 53"
  shows "floatDiv (float64Of u 1) 1000 = float64Of u 1000"
proof -
  obtain n d where nd: "floatFrac (float64Of u 1) = (n, d)" by fastforce
  from floatFrac_val [OF this] float64Of_exact [OF assms] have d: "0 < d" and "real n / real d = real u" by simp_all
  then have "real n = real (u * d)" by (simp add: field_simps)
  then have "n = u * d" by (simp only: of_nat_eq_iff)
  then show ?thesis using d nd by (simp add: floatDiv_def) (rule float64Of_ratio [OF assms(1)], simp_all)
qed

lemma whole_millis:
  assumes "0 < u" "u < 10 ^ 15"
  shows "isWhole (float64Of u 1000) \<longleftrightarrow> 1000 dvd u" "1000 dvd u \<Longrightarrow> wholePart (float64Of u 1000) = u div 1000"
proof -
  let ?f = "float64Of u 1000"
  obtain n d where nd: "floatFrac ?f = (n, d)" by fastforce
  note val = floatFrac_val [OF nd]
  have yes: "n = (u div 1000) * d" if "1000 dvd u"
  proof -
    let ?w = "u div 1000"
    have w: "0 < ?w" "?w < 2 ^ 53" "u = ?w * 1000" using assms that by auto
    have "float64Of u 1000 = float64Of ?w 1" by (rule float64Of_ratio) (use w in simp_all)
    then have "real n / real d = real ?w" using val float64Of_exact [OF w(1,2)] by (simp only:)
    moreover have "real d \<noteq> 0" using val by simp
    ultimately have "real n = real ?w * real d" using nonzero_divide_eq_eq [of "real d"] by blast
    then have "real n = real (?w * d)" by (simp only: of_nat_mult)
    then show ?thesis by (simp only: of_nat_eq_iff)
  qed
  then show "1000 dvd u \<Longrightarrow> wholePart ?f = u div 1000" using val by (simp add: wholePart_def nd)
  have "1000 dvd u" if dvd: "d dvd n"
  proof -
    obtain k where k: "n = d * k" using dvd by blast
    then have f: "fval ?f = real k" using val by (auto split: if_splits)
    have "\<bar>fval ?f - real u / 1000\<bar> \<le> real u / 1000 / 2 ^ 53" using float64Of_error [OF assms(1), of 1000] by simp
    then have "\<bar>real (1000 * k) - real u\<bar> \<le> real u / 2 ^ 53" unfolding f of_nat_mult of_nat_numeral by (rule one_error)
    moreover have "real u < 10 ^ 15" using assms(2) by (metis of_nat_less_iff of_nat_numeral of_nat_power)
    ultimately have "\<bar>real (1000 * k) - real u\<bar> < 1" by simp
    then have "1000 * k = u" by linarith
    then show ?thesis by auto
  qed
  with yes show "isWhole ?f \<longleftrightarrow> 1000 dvd u" by (auto simp: isWhole_def nd)
qed

end
