(* ===== verification/PromText.thy ===== *)
theory PromText
  imports PromRead TimeRead GoFloatFacts
begin

text \<open>
  A reader of the exposition format the Prometheus renderer writes: comments, samples with their labels, numbers. Reading
  the text of a report gives back every metric with its labels and its value, and nothing else.
\<close>

section \<open>Numbers\<close>

text \<open>A decimal number, with a fraction and an exponent as \<open>%g\<close> writes them, in thousandths\<close>

definition thousandths :: "int \<Rightarrow> int \<Rightarrow> int option" where
  "thousandths m k =
     (if 0 \<le> k then Some (m * 10 ^ nat k)
      else if 10 ^ nat (- k) dvd m then Some (m div 10 ^ nat (- k)) else None)"

definition readExponent :: "string \<Rightarrow> int option" where
  "readExponent r =
     (if r = [] then Some 0
      else Option.bind (expect ''e+'' r) (\<lambda>q. if q \<noteq> [] \<and> list_all isDigit q then Some (decVal q) else None))"

definition readUnsigned :: "string \<Rightarrow> int option" where
  "readUnsigned b =
     (let ip = takeWhile isDigit b; r = dropWhile isDigit b;
          (fp, q) = (case readChar CHR ''.'' r of
              Some t \<Rightarrow> (takeWhile isDigit t, dropWhile isDigit t) | None \<Rightarrow> ([], r)) in
      if ip = [] then None
      else Option.bind (readExponent q) (\<lambda>e. thousandths (decVal (ip @ fp)) (e - int (length fp) + 3)))"

definition readNumber :: "string \<Rightarrow> int option" where
  "readNumber s = (case readChar CHR ''-'' s of Some r \<Rightarrow> map_option uminus (readUnsigned r) | None \<Rightarrow> readUnsigned s)"

lemma decVal_append: "decVal (a @ b) = decVal a * 10 ^ length b + decVal b"
proof (induction b rule: rev_induct)
  case (snoc c b)
  have "decVal (a @ b @ [c]) = decVal (a @ b) * 10 + (int (byte c) - 48)"
    using decVal_snoc(1) [of "a @ b" c] by simp
  with snoc show ?case by (simp add: algebra_simps)
qed simp

lemma decVal_trailing: "decVal (a @ replicate k (CHR ''0'')) = decVal a * 10 ^ k"
  using decVal_zeros [of k "[]"] by (simp add: decVal_append)

lemma trimZeros_split: obtains k where "s = trimZeros s @ replicate k (CHR ''0'')"
proof -
  let ?P = "\<lambda>c. c = CHR ''0''"
  have "s = rev (dropWhile ?P (rev s)) @ rev (takeWhile ?P (rev s))"
    by (metis rev_append rev_rev_ident takeWhile_dropWhile_id)
  moreover have "rev (dropWhile ?P (rev s)) = trimZeros s" by (simp add: trimZeros_def trimRightSet_def)
  moreover have "rev (takeWhile ?P (rev s)) = replicate (length (takeWhile ?P (rev s))) (CHR ''0'')"
    by (rule replicate_eqI) (auto dest: set_takeWhileD)
  ultimately show thesis using that by metis
qed

lemma trimZeros_digits: "list_all isDigit s \<Longrightarrow> list_all isDigit (trimZeros s)"
  by (rule trimZeros_split [of s]) (metis list_all_append)

lemma digits_split: "list_all isDigit ds \<Longrightarrow> \<not> isDigit c \<Longrightarrow> takeWhile isDigit (ds @ c # r) = ds \<and> dropWhile isDigit (ds @ c # r) = c # r"
  by (induction ds) auto

lemma digits_all: "list_all isDigit ds \<Longrightarrow> takeWhile isDigit ds = ds \<and> dropWhile isDigit ds = []"
  by (induction ds) auto

lemma not_digit: "\<not> isDigit CHR ''.''" "\<not> isDigit CHR ''e''" "\<not> isDigit CHR ''-''"
  by (simp_all add: isDigit_def)

lemma readUnsigned_nat: "readUnsigned (showNat n) = Some (1000 * int n)"
proof -
  have d: "takeWhile isDigit (showNat n) = showNat n" "dropWhile isDigit (showNat n) = []"
    using digits_all [OF showNat_digits [of n]] by blast+
  have "readExponent [] = Some 0" "readChar CHR ''.'' [] = None" by (simp_all add: readExponent_def readChar_def)
  then show ?thesis unfolding readUnsigned_def Let_def d by (simp add: showNat_nonempty thousandths_def decVal_showNat)
qed

lemma readUnsigned_fraction:
  assumes "list_all isDigit ip" "ip \<noteq> []" "list_all isDigit fp" "readExponent q = Some e"
    and "q = [] \<or> (\<exists>r. q = CHR ''e'' # r)" "decVal (ip @ fp) = m" "e - int (length fp) + 3 = int k"
  shows "readUnsigned (ip @ ''.'' @ fp @ q) = Some (m * 10 ^ k)"
proof -
  have "takeWhile isDigit (fp @ q) = fp \<and> dropWhile isDigit (fp @ q) = q"
    using assms(5) digits_all [OF assms(3)] digits_split [OF assms(3) not_digit(2)] by auto
  with assms digits_split [OF assms(1) not_digit(1), of "fp @ q"] show ?thesis
    by (simp add: readUnsigned_def readChar_def thousandths_def)
qed

lemma readUnsigned_no_minus: "readUnsigned s = Some v \<Longrightarrow> readChar CHR ''-'' s = None"
  using not_digit(3) by (cases s) (auto simp: readUnsigned_def readChar_def Let_def)

lemma readNumber_unsigned: "readUnsigned s = Some v \<Longrightarrow> readNumber s = Some v"
  by (simp add: readNumber_def readUnsigned_no_minus)

lemma readNumber_minus: "readUnsigned s = Some v \<Longrightarrow> readNumber (CHR ''-'' # s) = Some (- v)"
  by (simp add: readNumber_def readChar_def)

lemma readNumber_nat: "readNumber (showNat n) = Some (1000 * int n)"
  by (rule readNumber_unsigned [OF readUnsigned_nat])

lemma readNumber_itoa: "readNumber (itoa i) = Some (1000 * i)"
  using readNumber_minus [OF readUnsigned_nat [of "nat (- i)"]] readNumber_nat [of "nat i"] by (simp add: itoa_def)

lemma showNat_value: "list_all isDigit s \<Longrightarrow> trimZeros s @ replicate t (CHR ''0'') = s \<Longrightarrow> decVal s = decVal (trimZeros s) * 10 ^ t"
  using decVal_trailing [of "trimZeros s" t] by simp

text \<open>The text of a decimal with a fraction\<close>

lemma readExponent_text:
  assumes "0 \<le> x"
  shows "readExponent (exponentText x) = Some x"
proof -
  let ?s = "showNat (nat x)"
  let ?pad = "(if length ?s < 2 then ''0'' else []) @ ?s"
  have digs: "list_all isDigit ?pad" using showNat_digits [of "nat x"] by (auto simp: isDigit_def)
  have "decVal ?pad = x" using decVal_zeros [of 1 ?s] assms by (simp add: decVal_showNat)
  moreover have "exponentText x = ''e+'' @ ?pad" using assms by (simp add: exponentText_def Let_def)
  moreover have "?pad \<noteq> []" by simp
  ultimately show ?thesis
    unfolding readExponent_def using digs by (simp only: expect_append bind.bind_lunit if_True append_is_Nil_conv) auto
qed

lemma readUnsigned_formatG:
  assumes "shortest f = (c, j)" "1 \<le> j" "j \<le> 3" "c * 10 ^ nat (3 - j) = u" "\<not> 1000 dvd u"
  shows "readUnsigned (formatG f) = Some (int u)"
proof -
  let ?s = "showNat c"
  let ?ds = "trimZeros ?s" and ?dp = "int (length (showNat c)) - j"
  obtain t where t: "?s = ?ds @ replicate t (CHR ''0'')" using trimZeros_split by blast
  have len: "length ?s = length ?ds + t" using arg_cong [OF t, of length] by simp
  have dig: "list_all isDigit ?ds" by (rule trimZeros_digits [OF showNat_digits])
  have cval: "int c = decVal ?ds * 10 ^ t" using decVal_trailing [of ?ds t] t decVal_showNat [of c] by simp
  have small: "int t < j"
  proof (rule ccontr)
    assume "\<not> int t < j"
    then have "3 \<le> nat (3 - j) + t" using assms(2,3) by linarith
    then have "(10 :: int) ^ 3 dvd 10 ^ (nat (3 - j) + t)" by (rule le_imp_power_dvd)
    moreover have "int u = decVal ?ds * 10 ^ (nat (3 - j) + t)"
      using assms(4) cval by (simp add: power_add ac_simps flip: of_nat_mult) (metis mult.assoc mult.commute of_nat_mult of_nat_numeral of_nat_power)
    ultimately have "int 1000 dvd int u" by (simp add: dvd_mult)
    with assms(5) show False by (simp only: of_nat_dvd_iff)
  qed
  have scaled: "decVal ?ds * 10 ^ nat (3 - j + int t) = int u"
  proof -
    have "nat (3 - j + int t) = nat (3 - j) + t" using assms(3) by (simp add: nat_add_distrib)
    then have "decVal ?ds * 10 ^ nat (3 - j + int t) = int c * 10 ^ nat (3 - j)" by (simp add: cval power_add)
    also have "\<dots> = int u" using assms(4) by (metis of_nat_mult of_nat_numeral of_nat_power)
    finally show ?thesis .
  qed
  have none: "readExponent [] = Some 0" by (simp add: readExponent_def)
  have lt: "?dp < int (length ?ds)" using len small by simp
  show ?thesis
  proof (cases "6 \<le> ?dp - 1")
    case True
    then have two: "1 < length ?ds" using lt by linarith
    have g: "formatG f = take 1 ?ds @ ''.'' @ drop 1 ?ds @ exponentText (?dp - 1)"
      using True two by (simp add: formatG_def assms(1) Let_def)
    have fp: "list_all isDigit (take 1 ?ds)" "list_all isDigit (drop 1 ?ds)" "take 1 ?ds \<noteq> []"
      using dig two by (auto simp: list_all_iff dest: in_set_takeD in_set_dropD)
    have e: "readExponent (exponentText (?dp - 1)) = Some (?dp - 1)" by (rule readExponent_text) (use True in linarith)
    have tail: "exponentText (?dp - 1) = [] \<or> (\<exists>r. exponentText (?dp - 1) = CHR ''e'' # r)" by (simp add: exponentText_def Let_def)
    have k: "?dp - 1 - int (length (drop 1 ?ds)) + 3 = int (nat (3 - j + int t))" using len two assms(3) by simp
    have dv: "decVal (take 1 ?ds @ drop 1 ?ds) = decVal ?ds" by (simp only: append_take_drop_id)
    show ?thesis unfolding g using readUnsigned_fraction [OF fp(1,3,2) e tail dv k] scaled by (simp only:)
  next
    case False
    have low: "\<not> ?dp - 1 < -4" using len small assms(3) showNat_nonempty [of c] lt
      by (cases "?s") auto
    show ?thesis
    proof (cases "0 < ?dp")
      case True
      let ?n = "nat ?dp"
      have n: "?n < length ?ds" using lt True by linarith
      have g: "formatG f = take ?n ?ds @ ''.'' @ drop ?n ?ds @ []"
        using False low True n by (simp add: formatG_def assms(1) Let_def)
      have fp: "list_all isDigit (take ?n ?ds)" "list_all isDigit (drop ?n ?ds)" "take ?n ?ds \<noteq> []"
        using dig n True by (auto simp: list_all_iff dest: in_set_takeD in_set_dropD)
      have k: "0 - int (length (drop ?n ?ds)) + 3 = int (nat (3 - j + int t))" using len n True assms(3) by simp
      have dv: "decVal (take ?n ?ds @ drop ?n ?ds) = decVal ?ds" by (simp only: append_take_drop_id)
      show ?thesis unfolding g using readUnsigned_fraction [OF fp(1,3,2) none disjI1 [OF refl] dv k] scaled by (simp only:)
    next
      case neg: False
      let ?fp = "replicate (nat (- ?dp)) (CHR ''0'') @ ?ds"
      have g: "formatG f = ''0'' @ ''.'' @ ?fp @ []"
        using False low neg lt by (simp add: formatG_def assms(1) Let_def)
      have fp: "list_all isDigit ''0''" "list_all isDigit ?fp" "''0'' \<noteq> []" using dig by (auto simp: isDigit_def list_all_iff)
      have k: "0 - int (length ?fp) + 3 = int (nat (3 - j + int t))" using len neg assms(3) by simp
      have dv: "decVal (''0'' @ ?fp) = decVal ?ds" using decVal_zeros [of "Suc (nat (- ?dp))" ?ds] by simp
      show ?thesis unfolding g using readUnsigned_fraction [OF fp(1,3,2) none disjI1 [OF refl] dv k] scaled by (simp only:)
    qed
  qed
qed

lemma readNumber_signed: "readUnsigned b = Some v \<Longrightarrow> readNumber ((if neg then ''-'' else []) @ b) = Some (if neg then - v else v)"
  using readNumber_minus readNumber_unsigned by (cases neg) (simp_all only: if_True if_False append.simps)

text \<open>A duration is read back to the millisecond.\<close>

lemma readNumber_millis:
  assumes "\<bar>ms\<bar> < 10 ^ 15"
  shows "readNumber (formatMillis ms) = Some ms"
proof (cases "ms = 0")
  case True
  have "floatDiv (float64Of 0 1) 1000 = (0, 0)" by (simp add: floatDiv_def float64Of_def floatFrac_def)
  moreover have "isWhole (0, 0)" "wholePart (0, 0) = 0" by (simp_all add: isWhole_def wholePart_def floatFrac_def)
  ultimately have "formatMillis ms = itoa 0" using True by (simp add: formatMillis_def)
  then show ?thesis using readNumber_itoa [of 0] True by simp
next
  case False
  let ?u = "nat \<bar>ms\<bar>"
  have u: "0 < ?u" "?u < 10 ^ 15" "?u < 2 ^ 53" using False assms by auto
  have f: "floatDiv (float64Of ?u 1) 1000 = float64Of ?u 1000" by (rule floatDiv_millis [OF u(1,3)])
  have sign: "(if ms < 0 then - int ?u else int ?u) = ms" by simp
  show ?thesis
  proof (cases "1000 dvd ?u")
    case True
    then have "1000 * (if ms < 0 then - int (?u div 1000) else int (?u div 1000)) = (if ms < 0 then - int ?u else int ?u)"
      by auto
    then show ?thesis
      using whole_millis [OF u(1,2)] True readNumber_itoa [of "if ms < 0 then - int (?u div 1000) else int (?u div 1000)"]
      unfolding formatMillis_def Let_def f sign by (simp only: if_True)
  next
    case frac: False
    obtain c j where "shortest (float64Of ?u 1000) = (c, j)" "1 \<le> j" "j \<le> 3" "c * 10 ^ nat (3 - j) = ?u"
      using shortest_millis [OF u(1,2) frac] by blast
    from readNumber_signed [OF readUnsigned_formatG [OF this frac], of "ms < 0"] show ?thesis
      using whole_millis(1) [OF u(1,2)] frac unfolding formatMillis_def Let_def f sign by (simp only: if_False)
  qed
qed

section \<open>Lines\<close>

definition nameChar :: "char \<Rightarrow> bool" where
  "nameChar c \<longleftrightarrow> (97 \<le> byte c \<and> byte c \<le> 122) \<or> (65 \<le> byte c \<and> byte c \<le> 90) \<or> isDigit c \<or> c = CHR ''_'' \<or> c = CHR '':''"

definition readName :: "string \<Rightarrow> (string \<times> string) option" where
  "readName s = (let n = takeWhile nameChar s in if n = [] then None else Some (n, dropWhile nameChar s))"

type_synonym promLabels = "(string \<times> string) list"

datatype promLine = PromBlank | PromHelp string string | PromType string string | PromSample string promLabels int

lemma expect_shorter: "expect p s = Some t \<Longrightarrow> length t \<le> length s"
  by (auto simp: expect_def split: if_splits)

lemma readLabel_shorter: "readLabel s = Some (v, r) \<Longrightarrow> length r < length s"
  by (induction s arbitrary: v rule: readLabel.induct) (fastforce split: if_splits list.splits)+

lemma readChar_shorter: "readChar c s = Some r \<Longrightarrow> length r < length s"
  by (auto simp: readChar_def split: list.splits if_splits)

text \<open>The labels of a sample after its opening brace, up to the closing one\<close>

function readPairs :: "string \<Rightarrow> (promLabels \<times> string) option" where
  "readPairs s =
     (case expect [CHR ''='', CHR 0x22] (dropWhile nameChar s) of
        None \<Rightarrow> None
      | Some t \<Rightarrow>
          (case readLabel t of
             None \<Rightarrow> None
           | Some (v, u) \<Rightarrow>
               (case readChar CHR '','' u of
                  Some w \<Rightarrow> map_option (\<lambda>(ls, z). ((takeWhile nameChar s, v) # ls, z)) (readPairs w)
                | None \<Rightarrow> map_option (\<lambda>z. ([(takeWhile nameChar s, v)], z)) (readChar CHR ''}'' u))))"
  by pat_completeness auto
termination
proof (relation "measure length")
  fix s t :: string and p v u w
  assume *: "expect [CHR ''='', CHR 0x22] (dropWhile nameChar s) = Some t" "readLabel t = Some p" "(v, u) = p"
    "readChar CHR '','' u = Some w"
  have "length w < length u" "length u < length t" "length t \<le> length (dropWhile nameChar s)"
    using * expect_shorter readLabel_shorter readChar_shorter by blast+
  then show "(w, s) \<in> measure length" using length_dropWhile_le [of nameChar s] by simp
qed simp

declare readPairs.simps [simp del]

definition readComment :: "(string \<Rightarrow> string \<Rightarrow> promLine) \<Rightarrow> string \<Rightarrow> promLine option" where
  "readComment f t = Option.bind (readName t) (\<lambda>(n, r). map_option (f n) (expect '' '' r))"

definition readSample :: "string \<Rightarrow> promLine option" where
  "readSample line =
     Option.bind (readName line) (\<lambda>(n, t).
     Option.bind (case readChar CHR ''{'' t of Some q \<Rightarrow> readPairs q | None \<Rightarrow> Some ([], t)) (\<lambda>(ls, u).
     Option.bind (expect '' '' u) (\<lambda>v. map_option (PromSample n ls) (readNumber v))))"

definition readLine :: "string \<Rightarrow> promLine option" where
  "readLine line =
     (if line = [] then Some PromBlank
      else case expect ''# HELP '' line of
        Some t \<Rightarrow> readComment PromHelp t
      | None \<Rightarrow> (case expect ''# TYPE '' line of Some t \<Rightarrow> readComment PromType t | None \<Rightarrow> readSample line))"

definition readExposition :: "string \<Rightarrow> promLine list option" where
  "readExposition text =
     (let ls = splitByte CHR 0x0A text in if last ls = [] then those (map readLine (butlast ls)) else None)"

section \<open>What the renderer writes is read back, line by line\<close>

fun pairsText :: "promLabels \<Rightarrow> string" where
  "pairsText [] = []"
| "pairsText [(k, v)] = k @ ''='' @ promLabelValue v"
| "pairsText ((k, v) # p # ps) = k @ ''='' @ promLabelValue v @ '','' @ pairsText (p # ps)"

definition sampleText :: "string \<Rightarrow> promLabels \<Rightarrow> string \<Rightarrow> string" where
  "sampleText n ps v = n @ (if ps = [] then [] else ''{'' @ pairsText ps @ ''}'') @ '' '' @ v"

definition nameLike :: "string \<Rightarrow> bool" where
  "nameLike n \<longleftrightarrow> n \<noteq> [] \<and> list_all nameChar n"

lemma name_split:
  assumes "list_all nameChar n" "\<not> nameChar c"
  shows "takeWhile nameChar (n @ c # r) = n" "dropWhile nameChar (n @ c # r) = c # r"
  using assms by (induction n) auto

lemma not_name: "\<not> nameChar CHR '' ''" "\<not> nameChar CHR ''{''" "\<not> nameChar CHR ''=''" "\<not> nameChar CHR ''#''"
  by (simp_all add: nameChar_def isDigit_def)

lemma readName_written: "nameLike n \<Longrightarrow> \<not> nameChar c \<Longrightarrow> readName (n @ c # r) = Some (n, c # r)"
  by (simp add: readName_def nameLike_def name_split)

lemma readPairs_first:
  assumes "list_all nameChar k"
  shows "readPairs (k @ ''='' @ promLabelValue v @ u) =
    (case readChar CHR '','' u of
       Some w \<Rightarrow> map_option (\<lambda>(ls, z). ((k, toValidUTF8 v) # ls, z)) (readPairs w)
     | None \<Rightarrow> map_option (\<lambda>z. ([(k, toValidUTF8 v)], z)) (readChar CHR ''}'' u))"
proof -
  have "expect [CHR ''='', CHR 0x22] (CHR ''='' # promLabelValue v @ u) = Some (concat (map promRune (runes v)) @ CHR 0x22 # u)"
    using expect_append [of "[CHR ''='', CHR 0x22]"] by (simp add: promLabelValue_def)
  then show ?thesis
    unfolding append_Cons append_Nil
    by (subst readPairs.simps) (simp only: name_split [OF assms not_name(3)] option.case readLabel_written prod.case)
qed

lemma readPairs_written:
  "ps \<noteq> [] \<Longrightarrow> \<forall>(k, v)\<in>set ps. list_all nameChar k \<Longrightarrow>
    readPairs (pairsText ps @ CHR ''}'' # rest) = Some (map (apsnd toValidUTF8) ps, rest)"
proof (induction ps rule: pairsText.induct)
  case (2 k v)
  then show ?case using readPairs_first [of k v "CHR ''}'' # rest"] by (simp add: readChar_def)
next
  case (3 k v p ps)
  then have "readPairs (pairsText (p # ps) @ CHR ''}'' # rest) = Some (map (apsnd toValidUTF8) (p # ps), rest)"
    "list_all nameChar k" by auto
  with readPairs_first [of k v "CHR '','' # pairsText (p # ps) @ CHR ''}'' # rest"] show ?case by (simp add: readChar_def)
qed simp

lemma expect_miss: "n \<noteq> [] \<Longrightarrow> p \<noteq> [] \<Longrightarrow> hd n \<noteq> hd p \<Longrightarrow> expect p (n @ s) = None"
  by (cases n; cases p) (auto simp: expect_def)

lemma readLine_sample:
  assumes "nameLike n" "\<forall>(k, v)\<in>set ps. list_all nameChar k" "readNumber v = Some i"
  shows "readLine (sampleText n ps v) = Some (PromSample n (map (apsnd toValidUTF8) ps) i)"
proof -
  have n: "n \<noteq> []" "hd n \<noteq> CHR ''#''" using assms(1) not_name(4) by (cases n; auto simp: nameLike_def)+
  then have "readLine (sampleText n ps v) = readSample (sampleText n ps v)"
    unfolding readLine_def sampleText_def by (simp add: expect_miss)
  also have "\<dots> = Some (PromSample n (map (apsnd toValidUTF8) ps) i)"
  proof (cases "ps = []")
    case True
    have "readName (n @ CHR '' '' # v) = Some (n, CHR '' '' # v)" by (rule readName_written [OF assms(1) not_name(1)])
    with True assms(3) expect_append [of "'' ''" v] show ?thesis by (simp add: readSample_def sampleText_def readChar_def)
  next
    case False
    have "readName (n @ CHR ''{'' # pairsText ps @ CHR ''}'' # CHR '' '' # v)
        = Some (n, CHR ''{'' # pairsText ps @ CHR ''}'' # CHR '' '' # v)"
      by (rule readName_written [OF assms(1) not_name(2)])
    with False assms(3) readPairs_written [OF False assms(2), of "CHR '' '' # v"] expect_append [of "'' ''" v] show ?thesis
      by (simp add: readSample_def sampleText_def readChar_def)
  qed
  finally show ?thesis .
qed

lemma readLine_comment:
  assumes "nameLike n"
  shows "readLine (''# HELP '' @ n @ '' '' @ t) = Some (PromHelp n t)" "readLine (''# TYPE '' @ n @ '' '' @ t) = Some (PromType n t)"
proof -
  have "readName (n @ CHR '' '' # t) = Some (n, CHR '' '' # t)" by (rule readName_written [OF assms not_name(1)])
  then have c: "readComment f (n @ '' '' @ t) = Some (f n t)" for f
    using expect_append [of "'' ''" t] by (simp add: readComment_def)
  show "readLine (''# HELP '' @ n @ '' '' @ t) = Some (PromHelp n t)" unfolding readLine_def expect_append using c [of PromHelp] by simp
  have "expect ''# HELP '' (''# TYPE '' @ s) = None" for s by (simp add: expect_def)
  then show "readLine (''# TYPE '' @ n @ '' '' @ t) = Some (PromType n t)"
    unfolding readLine_def expect_append by (simp only: option.case c) simp
qed

text \<open>A text of whole lines, with what they are read as\<close>

definition reads :: "string \<Rightarrow> promLine list \<Rightarrow> bool" where
  "reads t ps \<longleftrightarrow> (\<exists>ls. t = unlines ls \<and> list_all2 (\<lambda>l p. oneLine l \<and> readLine l = Some p) ls ps)"

lemma reads_append: "reads a ps \<Longrightarrow> reads b qs \<Longrightarrow> reads (a @ b) (ps @ qs)"
  unfolding reads_def by (elim exE conjE, rule exI, rule conjI [OF _ list_all2_appendI]) simp_all

lemma reads_line: "oneLine l \<Longrightarrow> readLine l = Some p \<Longrightarrow> reads (l @ nl) [p]"
  unfolding reads_def by (rule exI [of _ "[l]"]) simp

lemma reads_concat: "(\<And>x. x \<in> set xs \<Longrightarrow> reads (f x) (g x)) \<Longrightarrow> reads (concat (map f xs)) (concat (map g xs))"
proof (induction xs)
  case Nil
  show ?case unfolding reads_def by (rule exI [of _ "[]"]) simp
qed (simp add: reads_append)

lemma reads_blank: "reads nl [PromBlank]"
  using reads_line [of "[]" PromBlank] by (simp add: readLine_def)

lemma reads_comment:
  assumes "nameLike n" "oneLine n" "oneLine t"
  shows "reads (writeHelp n t) [PromHelp n t]" "reads (writeType n t) [PromType n t]"
  using reads_line [OF _ readLine_comment(1) [OF assms(1)], of t] reads_line [OF _ readLine_comment(2) [OF assms(1)], of t] assms
  by (simp_all add: writeHelp_def writeType_def)

lemma pairsText_oneLine: "\<forall>(k, v)\<in>set ps. oneLine k \<Longrightarrow> oneLine (pairsText ps)"
  by (induction ps rule: pairsText.induct) auto

lemma names_oneLine: "list_all nameChar n \<Longrightarrow> oneLine n"
  by (auto simp: list_all_iff oneLine_def nameChar_def isDigit_def)

lemma reads_sample:
  assumes "nameLike n" "\<forall>(k, v)\<in>set ps. list_all nameChar k" "readNumber v = Some i" "oneLine v"
  shows "reads (sampleText n ps v @ nl) [PromSample n (map (apsnd toValidUTF8) ps) i]"
proof -
  have "oneLine (pairsText ps)" using assms(2) names_oneLine by (intro pairsText_oneLine) auto
  moreover have "oneLine n" using assms(1) names_oneLine by (simp add: nameLike_def)
  ultimately have "oneLine (sampleText n ps v)" using assms(4) by (simp add: sampleText_def)
  then show ?thesis by (rule reads_line [OF _ readLine_sample [OF assms(1-3)]])
qed

lemma those_some: "list_all2 (\<lambda>x y. f x = Some y) xs ys \<Longrightarrow> those (map f xs) = Some ys"
  by (induction xs ys rule: list_all2_induct) simp_all

lemma readExposition_reads:
  assumes "reads t ps"
  shows "readExposition t = Some ps"
proof -
  obtain ls where ls: "t = unlines ls" "list_all2 (\<lambda>l p. oneLine l \<and> readLine l = Some p) ls ps"
    using assms unfolding reads_def by blast
  have "\<forall>l\<in>set ls. CHR 0x0A \<notin> set l" using ls(2) by (auto simp: list_all2_conv_all_nth oneLine_def in_set_conv_nth)
  moreover have "those (map readLine ls) = Some ps" by (rule those_some, rule list_all2_mono [OF ls(2)]) simp
  ultimately show ?thesis by (simp add: readExposition_def ls(1) splitByte_unlines)
qed

section \<open>The exposition of a report\<close>

definition family :: "string \<Rightarrow> string \<Rightarrow> promLine list" where
  "family n help = [PromHelp n help, PromType n ''gauge'']"

text \<open>What the text of a report says: the values are in thousandths, the texts of labels are made valid UTF-8.\<close>

definition expositionOf :: "(result list \<Rightarrow> result list) \<Rightarrow> string \<Rightarrow> report \<Rightarrow> promLine list" where
  "expositionOf srt goVersion rep =
     (let rs = srt (repResults rep); s = repSummary rep; t = repTool rep; u = toValidUTF8 in
      family metricCheckState ''Result of one mitigation check (1 = current state).''
      @ concat (map (\<lambda>r. map (\<lambda>st. PromSample metricCheckState
            [(''check_id'', u (rCheckID r)), (''severity'', u (rSeverity r)), (''state'', st)]
            (if rState r = st then 1000 else 0)) promStateValues) rs) @ [PromBlank]
      @ family metricCheckDurationSeconds ''Time spent running each check.''
      @ map (\<lambda>r. PromSample metricCheckDurationSeconds [(''check_id'', u (rCheckID r))] (rDurationMS r)) rs @ [PromBlank]
      @ family metricSummary ''Summary of last validation run.''
      @ map (\<lambda>(o', n). PromSample metricSummary [(''outcome'', o')] (1000 * int n))
          [(''pass'', sPass s), (''fail'', sFail s), (''skip'', sSkip s), (''error'', sError s)] @ [PromBlank]
      @ family metricRequiredFailures ''Required-check failures (drives paging).''
      @ [PromSample metricRequiredFailures [] (1000 * int (bFail (sRequired s))), PromBlank]
      @ family metricLastRunTimestamp ''Unix time of last successful run.''
      @ [PromSample metricLastRunTimestamp [] (1000 * unixSeconds (repGenerated rep)), PromBlank]
      @ family metricBuildInfo ''Build info as labels (value always 1).''
      @ [PromSample metricBuildInfo [(''version'', u (tVersion t)), (''commit'', u (tCommit t)), (''go_version'', u goVersion)] 1000])"

lemma metric_names:
  "nameLike metricCheckState" "nameLike metricCheckDurationSeconds" "nameLike metricSummary" "nameLike metricRequiredFailures"
  "nameLike metricLastRunTimestamp" "nameLike metricBuildInfo"
  by code_simp+

lemma reads_count:
  "nameLike n \<Longrightarrow> \<forall>(k, v)\<in>set ps. list_all nameChar k \<Longrightarrow>
    reads (sampleText n ps (showNat c) @ nl) [PromSample n (map (apsnd toValidUTF8) ps) (1000 * int c)]"
  by (rule reads_sample [OF _ _ readNumber_nat]) simp_all

lemma reads_family:
  assumes "nameLike n" "oneLine t" "reads z ps"
  shows "reads (writeHelp n t @ writeType n ''gauge'' @ z) (family n t @ ps)"
proof -
  have "oneLine n" using assms(1) names_oneLine by (simp add: nameLike_def)
  with assms reads_append [OF reads_comment(1) reads_append [OF reads_comment(2) assms(3)]] show ?thesis
    by (simp add: family_def)
qed

lemma reads_checkStateRow:
  assumes "s \<in> set promStateValues"
  shows "reads (checkStateRow r s) [PromSample metricCheckState
    [(''check_id'', toValidUTF8 (rCheckID r)), (''severity'', toValidUTF8 (rSeverity r)), (''state'', s)]
    (if rState r = s then 1000 else 0)]"
proof -
  have "1000 * int (if b then 1 else 0) = (if b then 1000 else 0)" for b by simp
  then show ?thesis
    using reads_count [OF metric_names(1), of "[(''check_id'', rCheckID r), (''severity'', rSeverity r), (''state'', s)]"
        "if rState r = s then 1 else 0"]
    by (simp add: nameChar_def state_values_ascii [OF assms] sampleText_def checkStateRow_def split del: if_split)
qed

lemma reads_summaryRow: "toValidUTF8 o' = o' \<Longrightarrow> reads (summaryRow o' n) [PromSample metricSummary [(''outcome'', o')] (1000 * int n)]"
  using reads_count [OF metric_names(3), of "[(''outcome'', o')]" n] by (simp add: nameChar_def sampleText_def summaryRow_def)

lemma reads_duration: "\<bar>d\<bar> < 10 ^ 15 \<Longrightarrow> reads (metricCheckDurationSeconds @ ''{check_id='' @ promLabelValue v @ ''} '' @ formatMillis d @ nl)
    [PromSample metricCheckDurationSeconds [(''check_id'', toValidUTF8 v)] d]"
  using reads_sample [OF metric_names(2) _ readNumber_millis formatMillis_oneLine, of "[(''check_id'', v)]" d]
  by (simp add: nameChar_def sampleText_def)

lemma reads_plain:
  "reads (metricRequiredFailures @ '' '' @ showNat n @ nl) [PromSample metricRequiredFailures [] (1000 * int n)]"
  "reads (metricLastRunTimestamp @ '' '' @ itoa i @ nl) [PromSample metricLastRunTimestamp [] (1000 * i)]"
  using reads_count [OF metric_names(4), of "[]" n] reads_sample [OF metric_names(5) _ readNumber_itoa itoa_oneLine, of "[]" i]
  by (simp_all add: sampleText_def)

lemma reads_build:
  "reads (metricBuildInfo @ ''{version='' @ promLabelValue v @ '',commit='' @ promLabelValue c @ '',go_version='' @ promLabelValue g
      @ ''} 1'' @ nl)
    [PromSample metricBuildInfo [(''version'', toValidUTF8 v), (''commit'', toValidUTF8 c), (''go_version'', toValidUTF8 g)] 1000]"
proof -
  have "showNat 1 = ''1''" by code_simp
  then show ?thesis using reads_count [OF metric_names(6), of "[(''version'', v), (''commit'', c), (''go_version'', g)]" 1]
    by (simp add: nameChar_def sampleText_def)
qed

lemma outcomes_ascii: "o' \<in> {''pass'', ''fail'', ''skip'', ''error''} \<Longrightarrow> toValidUTF8 o' = o'"
proof -
  have "list_all ascii [''pass'', ''fail'', ''skip'', ''error'']" by code_simp
  then show "o' \<in> {''pass'', ''fail'', ''skip'', ''error''} \<Longrightarrow> toValidUTF8 o' = o'" by (auto simp: list_all_iff toValid_ascii)
qed

lemma helps_oneLine: "oneLine ''Result of one mitigation check (1 = current state).''" "oneLine ''Time spent running each check.''"
  "oneLine ''Summary of last validation run.''" "oneLine ''Required-check failures (drives paging).''"
  "oneLine ''Unix time of last successful run.''" "oneLine ''Build info as labels (value always 1).''"
  by simp_all

lemma reads_map: "(\<And>x. x \<in> set xs \<Longrightarrow> reads (f x) [g x]) \<Longrightarrow> reads (concat (map f xs)) (map g xs)"
  using reads_concat [of xs f "\<lambda>x. [g x]"] by simp

lemma reads_check_states:
  "reads (writeCheckStateMetric srt rs) (family metricCheckState ''Result of one mitigation check (1 = current state).''
      @ concat (map (\<lambda>r. map (\<lambda>st. PromSample metricCheckState
            [(''check_id'', toValidUTF8 (rCheckID r)), (''severity'', toValidUTF8 (rSeverity r)), (''state'', st)]
            (if rState r = st then 1000 else 0)) promStateValues) (srt rs)) @ [PromBlank])"
  unfolding writeCheckStateMetric_def
  by (intro reads_family metric_names helps_oneLine reads_append reads_concat reads_map reads_checkStateRow reads_blank)

lemma reads_durations:
  "\<forall>r\<in>set (srt rs). \<bar>rDurationMS r\<bar> < 10 ^ 15 \<Longrightarrow> reads (writeCheckDurationMetric srt rs) (family metricCheckDurationSeconds ''Time spent running each check.''
      @ map (\<lambda>r. PromSample metricCheckDurationSeconds [(''check_id'', toValidUTF8 (rCheckID r))] (rDurationMS r)) (srt rs) @ [PromBlank])"
  unfolding writeCheckDurationMetric_def
  by (intro reads_family metric_names helps_oneLine reads_append reads_map reads_duration reads_blank) blast

lemma reads_summary:
  "reads (writeSummaryMetric s) (family metricSummary ''Summary of last validation run.''
      @ map (\<lambda>(o', n). PromSample metricSummary [(''outcome'', o')] (1000 * int n))
          [(''pass'', sPass s), (''fail'', sFail s), (''skip'', sSkip s), (''error'', sError s)] @ [PromBlank])"
proof -
  note row = reads_summaryRow [OF outcomes_ascii]
  have "reads (summaryRow ''pass'' (sPass s) @ summaryRow ''fail'' (sFail s) @ summaryRow ''skip'' (sSkip s)
      @ summaryRow ''error'' (sError s) @ nl)
     ([PromSample metricSummary [(''outcome'', ''pass'')] (1000 * int (sPass s))]
      @ [PromSample metricSummary [(''outcome'', ''fail'')] (1000 * int (sFail s))]
      @ [PromSample metricSummary [(''outcome'', ''skip'')] (1000 * int (sSkip s))]
      @ [PromSample metricSummary [(''outcome'', ''error'')] (1000 * int (sError s))] @ [PromBlank])"
    by (intro reads_append row reads_blank) simp_all
  from reads_family [OF metric_names(3) helps_oneLine(3) this] show ?thesis by (simp add: writeSummaryMetric_def)
qed

lemma reads_two: "reads (n @ sep @ v @ nl) [p] \<Longrightarrow> reads (n @ sep @ v @ nl @ nl) [p, PromBlank]"
  using reads_append [OF _ reads_blank, of "n @ sep @ v @ nl" "[p]"] by simp

text \<open>
  Property C36: the whole Prometheus text of a report reads back. A reader of the exposition format that knows names, labels
  with their escapes, decimal numbers with fractions and exponents, comments and empty lines accepts every text the
  renderer writes and finds exactly the metrics of the report: the four states of every result, its duration to the
  millisecond, the summary, the required failures, the time of the run and the build labels, whatever bytes the texts hold
  (invalid ones replaced) and whatever the order of the sort. The durations are below \<open>10^15\<close> milliseconds (a Go
  \<open>time.Duration\<close>, from which the runner takes them, holds less than \<open>10^13\<close>): from there on the division by 1000 in
  floating point loses the millisecond.
\<close>

theorem prom_text_roundtrip:
  assumes "\<forall>r\<in>set (srt (repResults rep)). \<bar>rDurationMS r\<bar> < 10 ^ 15"
  shows "readExposition (promText srt goVersion rep) = Some (expositionOf srt goVersion rep)"
proof (rule readExposition_reads)
  let ?s = "repSummary rep" and ?t = "repTool rep"
  have durations: "reads (writeCheckDurationMetric srt (repResults rep)) (family metricCheckDurationSeconds
      ''Time spent running each check.'' @ map (\<lambda>r. PromSample metricCheckDurationSeconds
        [(''check_id'', toValidUTF8 (rCheckID r))] (rDurationMS r)) (srt (repResults rep)) @ [PromBlank])"
    using assms by (intro reads_durations)
  have failures: "reads (writeRequiredFailuresMetric ?s) (family metricRequiredFailures ''Required-check failures (drives paging).''
      @ [PromSample metricRequiredFailures [] (1000 * int (bFail (sRequired ?s))), PromBlank])"
    unfolding writeRequiredFailuresMetric_def by (intro reads_family metric_names helps_oneLine reads_two reads_plain)
  have last: "reads (writeLastRunMetric rep) (family metricLastRunTimestamp ''Unix time of last successful run.''
      @ [PromSample metricLastRunTimestamp [] (1000 * unixSeconds (repGenerated rep)), PromBlank])"
    unfolding writeLastRunMetric_def by (intro reads_family metric_names helps_oneLine reads_two reads_plain)
  have build: "reads (writeBuildInfoMetric goVersion ?t) (family metricBuildInfo ''Build info as labels (value always 1).''
      @ [PromSample metricBuildInfo [(''version'', toValidUTF8 (tVersion ?t)), (''commit'', toValidUTF8 (tCommit ?t)),
          (''go_version'', toValidUTF8 goVersion)] 1000])"
    unfolding writeBuildInfoMetric_def by (intro reads_family metric_names helps_oneLine reads_build)
  show "reads (promText srt goVersion rep) (expositionOf srt goVersion rep)"
    using reads_append [OF reads_check_states reads_append [OF durations reads_append [OF reads_summary
        reads_append [OF failures reads_append [OF last build]]]]]
    unfolding promText_def expositionOf_def Let_def append.assoc .
qed

text \<open>A report whose one result took 1234.567 seconds\<close>

definition timedReport :: report where
  "timedReport = emptyReport 0 [demoResult\<lparr>rDurationMS := 1234567\<rparr>]"

theorem prom_text_roundtrip_witness:
  "\<exists>ps n ls. readExposition (promText (sort_key rCheckID) ''go'' timedReport) = Some ps \<and> PromSample n ls 1234567 \<in> set ps"
proof -
  have rs: "repResults timedReport = [demoResult\<lparr>rDurationMS := 1234567\<rparr>]" by (simp add: timedReport_def emptyReport_def)
  then have "readExposition (promText (sort_key rCheckID) ''go'' timedReport)
      = Some (expositionOf (sort_key rCheckID) ''go'' timedReport)"
    by (intro prom_text_roundtrip) simp
  moreover have "PromSample metricCheckDurationSeconds [(''check_id'', toValidUTF8 (rCheckID demoResult))] 1234567
      \<in> set (expositionOf (sort_key rCheckID) ''go'' timedReport)"
    by (simp add: expositionOf_def Let_def rs)
  ultimately show ?thesis by blast
qed

end
