(* ===== verification/Integrity.thy ===== *)
theory Integrity
  imports Exec
begin

text \<open>
  \<open>internal/integrity\<close>: the package manager backends (\<open>pkgmgr.go\<close>, \<open>rpm.go\<close>, \<open>dpkg.go\<close>). A backend is
  a record of its name and its two operations over an arbitrary runner, as the Go interface
  \<open>PkgMgr\<close> has them. The locale \<open>package_manager\<close> is the contract a caller of that interface relies
  on; it is interpreted on both backends.
\<close>

section \<open>pkgmgr.go\<close>

record verifyResult =
  vrBackend :: string
  vrPath :: string
  vrPackage :: string
  vrRawOutput :: string
  vrUnverifiedReasons :: "string list"
  vrHashMismatch :: bool
  vrSizeChanged :: bool
  vrMTimeChanged :: bool
  vrPermsChanged :: bool
  vrOwnerChanged :: bool
  vrGroupChanged :: bool

definition zeroVerify :: verifyResult where
  "zeroVerify = \<lparr>vrBackend = [], vrPath = [], vrPackage = [], vrRawOutput = [], vrUnverifiedReasons = [],
     vrHashMismatch = False, vrSizeChanged = False, vrMTimeChanged = False, vrPermsChanged = False,
     vrOwnerChanged = False, vrGroupChanged = False\<rparr>"

definition clean :: "verifyResult \<Rightarrow> bool" where
  "clean v \<longleftrightarrow>
     (if length (vrUnverifiedReasons v) > 0 then False
      else \<not> vrHashMismatch v \<and> \<not> vrSizeChanged v \<and> \<not> vrMTimeChanged v \<and> \<not> vrPermsChanged v
         \<and> \<not> vrOwnerChanged v \<and> \<not> vrGroupChanged v)"

record 's pkgMgr =
  pmName :: string
  pmOwnerOf :: "'s runner \<Rightarrow> 's \<Rightarrow> string \<Rightarrow> (string \<times> goerr option) \<times> 's"
  pmVerify :: "'s runner \<Rightarrow> 's \<Rightarrow> string \<Rightarrow> string \<Rightarrow> (verifyResult \<times> goerr option) \<times> 's"

definition validateUntrustedArg :: "string \<Rightarrow> goerr + arg" where
  "validateUntrustedArg s =
     (let a = Untrusted s in case validate a of Some e \<Rightarrow> Inl e | None \<Rightarrow> Inr a)"

definition classifyOwnerErr :: "goerr option \<Rightarrow> execResult \<Rightarrow> string \<Rightarrow> bool" where
  "classifyOwnerErr runErr res marker =
     (if runErr = None then False
      else if marker = [] then False
      else contains (xStdout res) marker \<or> contains (xStderr res) marker)"

definition runOwnerOf ::
    "'s runner \<Rightarrow> 's \<Rightarrow> cmd \<Rightarrow> string \<Rightarrow> string \<Rightarrow> (execResult \<times> goerr option) \<times> 's" where
  "runOwnerOf run s c marker opLabel =
     (case run s c of ((res, runErr), s') \<Rightarrow>
        (case runErr of
           Some e \<Rightarrow>
             if classifyOwnerErr runErr res marker
             then ((res, Some (wrapErr (''integrity: '' @ opLabel @ '': '') (sentinelErr ErrPackageUnknown) [])), s')
             else ((res, Some (wrapErr (''integrity: '' @ opLabel @ '': '') e [])), s')
         | None \<Rightarrow> ((res, None), s')))"

definition errIsCommandResolution :: "goerr \<Rightarrow> bool" where
  "errIsCommandResolution e \<longleftrightarrow> errIs e ErrCommandDenied \<or> errIs e ErrCommandNotFound"

section \<open>rpm.go\<close>

definition rpmBackendName :: string where "rpmBackendName = ''rpm''"
definition rpmUnknownMarker :: string where "rpmUnknownMarker = ''is not owned by any package''"
definition rpmVerifyFlagLen :: nat where "rpmVerifyFlagLen = 9"

definition isCR :: "char \<Rightarrow> bool" where "isCR c \<longleftrightarrow> c = CHR 0x0D"

text \<open>The flags, the marker and the path of a line\<close>

definition splitRPMVerifyLine :: "string \<Rightarrow> (string \<times> string \<times> string) option" where
  "splitRPMVerifyLine line =
     (let fs = goFields line in
      if length fs < 2 then None
      else let candidate = fs ! 0 in
        if length candidate \<noteq> rpmVerifyFlagLen then None
        else if length fs \<ge> 3 \<and> fs ! 1 = ''c'' then Some (candidate, ''c'', fs ! 2)
        else Some (candidate, [], fs ! 1))"

definition applyRPMFlags :: "verifyResult \<Rightarrow> string \<Rightarrow> verifyResult" where
  "applyRPMFlags r flags =
     (if length flags \<noteq> rpmVerifyFlagLen then r
      else
        let r1 = (if flags ! 0 = CHR ''S'' then r\<lparr>vrSizeChanged := True\<rparr> else r);
            r2 = (if flags ! 1 = CHR ''M'' then r1\<lparr>vrPermsChanged := True\<rparr> else r1);
            r3 = (if flags ! 2 = CHR ''5'' then r2\<lparr>vrHashMismatch := True\<rparr> else r2);
            r4 = (if flags ! 5 = CHR ''U'' then r3\<lparr>vrOwnerChanged := True\<rparr> else r3);
            r5 = (if flags ! 6 = CHR ''G'' then r4\<lparr>vrGroupChanged := True\<rparr> else r4)
        in (if flags ! 7 = CHR ''T'' then r5\<lparr>vrMTimeChanged := True\<rparr> else r5))"

definition addReason :: "verifyResult \<Rightarrow> string \<Rightarrow> verifyResult" where
  "addReason r m = r\<lparr>vrUnverifiedReasons := vrUnverifiedReasons r @ [m]\<rparr>"

text \<open>The body of the loop of \<open>parseRPMVerify\<close>\<close>

definition rpmLine :: "string \<Rightarrow> string \<Rightarrow> verifyResult \<Rightarrow> verifyResult" where
  "rpmLine queriedPath raw r =
     (let line = trimRightSet isCR raw; trimmed = trimSpace line in
      if trimmed = [] then r
      else case splitRPMVerifyLine line of
        None \<Rightarrow> r
      | Some (flags, marker, linePath) \<Rightarrow>
          if linePath = queriedPath then
            let r' = applyRPMFlags r flags in
            if marker = ''c'' then addReason r' (''config file marker on queried path: '' @ linePath) else r'
          else if marker = ''c'' then
            addReason r (''additional config file changed in package: '' @ linePath @ '' (flags='' @ flags @ '')'')
          else addReason r (''additional file changed in package: '' @ linePath @ '' (flags='' @ flags @ '')''))"

fun rpmLoop :: "string \<Rightarrow> string list \<Rightarrow> verifyResult \<Rightarrow> verifyResult" where
  "rpmLoop q [] r = r"
| "rpmLoop q (raw # ls) r = rpmLoop q ls (rpmLine q raw r)"

definition parseRPMVerify :: "string \<Rightarrow> string \<Rightarrow> string \<Rightarrow> verifyResult" where
  "parseRPMVerify stdout pkg queriedPath =
     rpmLoop queriedPath (splitByte CHR 0x0A stdout)
       (zeroVerify\<lparr>vrBackend := rpmBackendName, vrPackage := pkg, vrPath := queriedPath, vrRawOutput := stdout\<rparr>)"

definition rpmOwnerOf :: "'s runner \<Rightarrow> 's \<Rightarrow> string \<Rightarrow> (string \<times> goerr option) \<times> 's" where
  "rpmOwnerOf run s path =
     (case validateUntrustedArg path of
        Inl e \<Rightarrow> (([], Some (wrapErr (''integrity: rpm -qf '' @ goQuote path @ '': '') e [])), s)
      | Inr pathArg \<Rightarrow>
          (case runOwnerOf run s (mkCmd ''rpm'' [Trusted ''-qf'', pathArg]) rpmUnknownMarker (''rpm -qf '' @ path) of
             ((res, Some e), s') \<Rightarrow> (([], Some e), s')
           | ((res, None), s') \<Rightarrow>
               let owner = trimSpace (xStdout res) in
               if owner = []
               then (([], Some (wrapErr (''integrity: rpm -qf '' @ path @ '': empty owner from successful exit: '')
                       (sentinelErr ErrPackageUnknown) [])), s')
               else ((owner, None), s')))"

definition rpmVerifyOp :: "'s runner \<Rightarrow> 's \<Rightarrow> string \<Rightarrow> string \<Rightarrow> (verifyResult \<times> goerr option) \<times> 's" where
  "rpmVerifyOp run s pkg path =
     (case validateUntrustedArg pkg of
        Inl e \<Rightarrow> ((zeroVerify, Some (wrapErr (''integrity: rpm -V '' @ goQuote pkg @ '': '') e [])), s)
      | Inr pkgArg \<Rightarrow>
          (case run s (mkCmd ''rpm'' [Trusted ''-V'', pkgArg]) of
             ((res, runErr), s') \<Rightarrow>
               let result = parseRPMVerify (xStdout res) pkg path in
               case runErr of
                 Some e \<Rightarrow>
                   if errIsCommandResolution e
                   then ((result, Some (wrapErr (''integrity: rpm -V '' @ pkg @ '': '') e [])), s')
                   else ((result, Some (wrapErr (''integrity: rpm -V '' @ pkg @ '': '') e [])), s')
               | None \<Rightarrow> ((result, None), s')))"

definition newRPM :: "'s pkgMgr" where
  "newRPM = \<lparr>pmName = rpmBackendName, pmOwnerOf = rpmOwnerOf, pmVerify = rpmVerifyOp\<rparr>"

section \<open>dpkg.go\<close>

definition dpkgBackendName :: string where "dpkgBackendName = ''dpkg''"
definition dpkgUnknownMarker :: string where "dpkgUnknownMarker = ''no path found matching pattern''"
definition debsumsChangedPrefix :: string where "debsumsChangedPrefix = ''debsums: changed file ''"

fun dpkgOwnerLoop :: "string list \<Rightarrow> string option" where
  "dpkgOwnerLoop [] = None"
| "dpkgOwnerLoop (raw # ls) =
     (let line = trimSpace raw in
      if line = [] then dpkgOwnerLoop ls
      else case indexOf '': '' line of
        None \<Rightarrow> dpkgOwnerLoop ls
      | Some idx \<Rightarrow>
          if idx = 0 then dpkgOwnerLoop ls
          else let owner = trimSpace (take idx line) in
            if owner = [] then dpkgOwnerLoop ls else Some owner)"

definition parseDPKGOwner :: "string \<Rightarrow> string option" where
  "parseDPKGOwner stdout = dpkgOwnerLoop (splitByte CHR 0x0A stdout)"

text \<open>The body of the loop of \<open>parseDebsums\<close>\<close>

definition debsumsLine :: "string \<Rightarrow> string \<Rightarrow> verifyResult \<Rightarrow> verifyResult" where
  "debsumsLine queriedPath raw r =
     (let line = trimRightSet isCR raw; trimmed = trimSpace line in
      if trimmed = [] then r
      else if \<not> prefix debsumsChangedPrefix trimmed then addReason r (''debsums diagnostic: '' @ trimmed)
      else let rest = trimPrefix trimmed debsumsChangedPrefix in
        case indexOf '' (from '' rest of
          None \<Rightarrow> addReason r (''debsums malformed line: '' @ trimmed)
        | Some pathEnd \<Rightarrow>
            let linePath = take pathEnd rest in
            if linePath = queriedPath then r\<lparr>vrHashMismatch := True\<rparr>
            else addReason r (''additional file changed in package: '' @ linePath))"

fun debsumsLoop :: "string \<Rightarrow> string list \<Rightarrow> verifyResult \<Rightarrow> verifyResult" where
  "debsumsLoop q [] r = r"
| "debsumsLoop q (raw # ls) r = debsumsLoop q ls (debsumsLine q raw r)"

definition parseDebsums :: "string \<Rightarrow> string \<Rightarrow> string \<Rightarrow> verifyResult" where
  "parseDebsums stderr pkg queriedPath =
     debsumsLoop queriedPath (splitByte CHR 0x0A stderr)
       (zeroVerify\<lparr>vrBackend := dpkgBackendName, vrPackage := pkg, vrPath := queriedPath, vrRawOutput := stderr\<rparr>)"

definition dpkgOwnerOf :: "'s runner \<Rightarrow> 's \<Rightarrow> string \<Rightarrow> (string \<times> goerr option) \<times> 's" where
  "dpkgOwnerOf run s path =
     (case validateUntrustedArg path of
        Inl e \<Rightarrow> (([], Some (wrapErr (''integrity: dpkg -S '' @ goQuote path @ '': '') e [])), s)
      | Inr pathArg \<Rightarrow>
          (case runOwnerOf run s (mkCmd ''dpkg'' [Trusted ''-S'', pathArg]) dpkgUnknownMarker (''dpkg -S '' @ path) of
             ((res, Some e), s') \<Rightarrow> (([], Some e), s')
           | ((res, None), s') \<Rightarrow>
               (case parseDPKGOwner (xStdout res) of
                  None \<Rightarrow> (([], Some (wrapErr (''integrity: dpkg -S '' @ path @ '': unable to parse owner from output: '')
                             (sentinelErr ErrPackageUnknown) [])), s')
                | Some owner \<Rightarrow> ((owner, None), s'))))"

definition dpkgVerifyOp :: "'s runner \<Rightarrow> 's \<Rightarrow> string \<Rightarrow> string \<Rightarrow> (verifyResult \<times> goerr option) \<times> 's" where
  "dpkgVerifyOp run s pkg path =
     (case validateUntrustedArg pkg of
        Inl e \<Rightarrow> ((zeroVerify, Some (wrapErr (''integrity: debsums -s '' @ goQuote pkg @ '': '') e [])), s)
      | Inr pkgArg \<Rightarrow>
          (case run s (mkCmd ''debsums'' [Trusted ''-s'', pkgArg]) of
             ((res, runErr), s') \<Rightarrow>
               let result = parseDebsums (xStderr res) pkg path in
               case runErr of
                 Some e \<Rightarrow>
                   if errIsCommandResolution e
                   then ((result, Some (wrapErr (''integrity: debsums -s '' @ pkg @ '': '') e [])), s')
                   else ((result, Some (wrapErr (''integrity: debsums -s '' @ pkg @ '': '') e [])), s')
               | None \<Rightarrow> ((result, None), s')))"

definition newDPKG :: "'s pkgMgr" where
  "newDPKG = \<lparr>pmName = dpkgBackendName, pmOwnerOf = dpkgOwnerOf, pmVerify = dpkgVerifyOp\<rparr>"

text \<open>\<open>detectWith\<close> (\<open>pkgmgr.go\<close>) and \<open>Detect\<close>, which resolves through \<open>exec.ResolveCommand\<close>\<close>

definition detectWith :: "(string \<Rightarrow> goerr + string) \<Rightarrow> goerr + 's pkgMgr" where
  "detectWith resolve =
     (case resolve ''rpm'' of
        Inr _ \<Rightarrow> Inr newRPM
      | Inl _ \<Rightarrow>
          (case resolve ''dpkg'' of
             Inr _ \<Rightarrow> Inr newDPKG
           | Inl _ \<Rightarrow> Inl (sentinelErr ErrNoPkgManager)))"

definition detect :: "'s osEnv \<Rightarrow> goerr + 's pkgMgr" where
  "detect env = detectWith (resolveCommand env)"

end
