(* ===== verification/IntegrityFacts.thy ===== *)
theory IntegrityFacts
  imports Integrity
begin

text \<open>
  What the package manager backends promise: the contract of \<open>PkgMgr\<close> as a locale, interpreted on the
  rpm and the dpkg backend, and what a verification result says about the tool's output.
\<close>

section \<open>The contract of \<open>PkgMgr\<close>\<close>

text \<open>
  \<open>ownerCmd\<close> and \<open>verifyCmd\<close> are the commands a backend runs, \<open>evidence\<close> how it reads the finished
  verification process.
\<close>

locale package_manager =
  fixes mgr :: "'s pkgMgr"
    and ownerCmd verifyCmd :: "string \<Rightarrow> cmd"
    and evidence :: "execResult \<Rightarrow> string \<Rightarrow> string \<Rightarrow> verifyResult"
  assumes owner_guard: "\<not> safeArg path \<Longrightarrow>
      \<exists>e. pmOwnerOf mgr run s path = (([], Some e), s) \<and> errIs e ErrInvalidArg"
    and verify_guard: "\<not> safeArg pkg \<Longrightarrow>
      \<exists>e. pmVerify mgr run s pkg path = ((zeroVerify, Some e), s) \<and> errIs e ErrInvalidArg"
    and owner_state: "safeArg path \<Longrightarrow> snd (pmOwnerOf mgr run s path) = snd (run s (ownerCmd path))"
    and owner_failed: "safeArg path \<Longrightarrow> snd (fst (run s (ownerCmd path))) = Some e \<Longrightarrow>
      \<exists>e'. fst (pmOwnerOf mgr run s path) = ([], Some e')
        \<and> (errIs e' ErrPackageUnknown \<or> (\<forall>t. errIs e' t \<longleftrightarrow> errIs e t))"
    and owner_found: "snd (fst (pmOwnerOf mgr run s path)) = None \<Longrightarrow> fst (fst (pmOwnerOf mgr run s path)) \<noteq> []"
    and owner_lost: "snd (fst (pmOwnerOf mgr run s path)) \<noteq> None \<Longrightarrow> fst (fst (pmOwnerOf mgr run s path)) = []"
    and verify_state: "safeArg pkg \<Longrightarrow> snd (pmVerify mgr run s pkg path) = snd (run s (verifyCmd pkg))"
    and verify_evidence: "safeArg pkg \<Longrightarrow>
      fst (fst (pmVerify mgr run s pkg path)) = evidence (fst (fst (run s (verifyCmd pkg)))) pkg path"
    and verify_error: "safeArg pkg \<Longrightarrow>
      errIsOpt (snd (fst (pmVerify mgr run s pkg path))) t \<longleftrightarrow> errIsOpt (snd (fst (run s (verifyCmd pkg)))) t"
    and evidence_echo: "vrBackend (evidence res pkg path) = pmName mgr \<and> vrPackage (evidence res pkg path) = pkg
      \<and> vrPath (evidence res pkg path) = path"
begin

lemma owner_steps: "snd (pmOwnerOf mgr run s path) = (if safeArg path then snd (run s (ownerCmd path)) else s)"
  using owner_guard [of path run s] owner_state [of path run s] by auto

lemma owner_certain: "fst (fst (pmOwnerOf mgr run s path)) \<noteq> [] \<longleftrightarrow> snd (fst (pmOwnerOf mgr run s path)) = None"
  using owner_found owner_lost by blast

lemma owner_needs_success:
  assumes "snd (fst (pmOwnerOf mgr run s path)) = None"
  shows "safeArg path \<and> snd (fst (run s (ownerCmd path))) = None"
proof -
  have safe: "safeArg path"
  proof (rule ccontr)
    assume "\<not> safeArg path"
    from owner_guard [OF this, of run s] assms show False by auto
  qed
  show ?thesis using owner_failed [OF safe, of run s] assms safe by (cases "snd (fst (run s (ownerCmd path)))") auto
qed

lemma verify_steps: "snd (pmVerify mgr run s pkg path) = (if safeArg pkg then snd (run s (verifyCmd pkg)) else s)"
  using verify_guard [of pkg run s path] verify_state [of pkg run s path] by auto

lemma verify_identity:
  "safeArg pkg \<Longrightarrow> vrBackend (fst (fst (pmVerify mgr run s pkg path))) = pmName mgr
    \<and> vrPackage (fst (fst (pmVerify mgr run s pkg path))) = pkg
    \<and> vrPath (fst (fst (pmVerify mgr run s pkg path))) = path"
  by (simp add: verify_evidence evidence_echo)

lemma contract:
  "snd (pmOwnerOf mgr run s path) = (if safeArg path then snd (run s (ownerCmd path)) else s)
   \<and> snd (pmVerify mgr run s pkg path) = (if safeArg pkg then snd (run s (verifyCmd pkg)) else s)
   \<and> (fst (fst (pmOwnerOf mgr run s path)) \<noteq> [] \<longleftrightarrow> snd (fst (pmOwnerOf mgr run s path)) = None)
   \<and> (snd (fst (pmOwnerOf mgr run s path)) = None \<longrightarrow> safeArg path \<and> snd (fst (run s (ownerCmd path))) = None)
   \<and> (safeArg pkg \<longrightarrow> vrBackend (fst (fst (pmVerify mgr run s pkg path))) = pmName mgr
        \<and> vrPackage (fst (fst (pmVerify mgr run s pkg path))) = pkg
        \<and> vrPath (fst (fst (pmVerify mgr run s pkg path))) = path)"
  by (intro conjI impI owner_steps verify_steps owner_certain)
    (simp_all add: owner_needs_success verify_identity)

end

subsection \<open>Both backends keep it\<close>

lemma validateUntrustedArg_cases:
  "safeArg x \<Longrightarrow> validateUntrustedArg x = Inr (Untrusted x)"
  "\<not> safeArg x \<Longrightarrow> \<exists>e. validateUntrustedArg x = Inl e \<and> errIs e ErrInvalidArg"
  using validate_Untrusted_None [of x] validate_error [of "Untrusted x"]
  by (auto simp: validateUntrustedArg_def Let_def split: option.splits)

lemma applyRPMFlags_id [simp]:
  "vrBackend (applyRPMFlags r fl) = vrBackend r" "vrPath (applyRPMFlags r fl) = vrPath r"
  "vrPackage (applyRPMFlags r fl) = vrPackage r" "vrRawOutput (applyRPMFlags r fl) = vrRawOutput r"
  "vrUnverifiedReasons (applyRPMFlags r fl) = vrUnverifiedReasons r"
  by (simp_all add: applyRPMFlags_def Let_def)

lemma addReason_sel [simp]:
  "vrBackend (addReason r m) = vrBackend r" "vrPath (addReason r m) = vrPath r"
  "vrPackage (addReason r m) = vrPackage r" "vrRawOutput (addReason r m) = vrRawOutput r"
  "vrUnverifiedReasons (addReason r m) = vrUnverifiedReasons r @ [m]"
  "vrHashMismatch (addReason r m) = vrHashMismatch r" "vrSizeChanged (addReason r m) = vrSizeChanged r"
  "vrMTimeChanged (addReason r m) = vrMTimeChanged r" "vrPermsChanged (addReason r m) = vrPermsChanged r"
  "vrOwnerChanged (addReason r m) = vrOwnerChanged r" "vrGroupChanged (addReason r m) = vrGroupChanged r"
  by (simp_all add: addReason_def)

lemma rpmLoop_id: "vrBackend (rpmLoop q ls r) = vrBackend r \<and> vrPath (rpmLoop q ls r) = vrPath r
    \<and> vrPackage (rpmLoop q ls r) = vrPackage r \<and> vrRawOutput (rpmLoop q ls r) = vrRawOutput r"
  by (induction ls arbitrary: r) (auto simp: rpmLine_def Let_def split: option.split)

lemma debsumsLoop_id: "vrBackend (debsumsLoop q ls r) = vrBackend r \<and> vrPath (debsumsLoop q ls r) = vrPath r
    \<and> vrPackage (debsumsLoop q ls r) = vrPackage r \<and> vrRawOutput (debsumsLoop q ls r) = vrRawOutput r"
  by (induction ls arbitrary: r) (auto simp: debsumsLine_def Let_def split: option.split)

lemma parseRPMVerify_id [simp]:
  "vrBackend (parseRPMVerify out pkg q) = rpmBackendName" "vrPath (parseRPMVerify out pkg q) = q"
  "vrPackage (parseRPMVerify out pkg q) = pkg" "vrRawOutput (parseRPMVerify out pkg q) = out"
  using rpmLoop_id by (simp_all add: parseRPMVerify_def)

lemma parseDebsums_id [simp]:
  "vrBackend (parseDebsums out pkg q) = dpkgBackendName" "vrPath (parseDebsums out pkg q) = q"
  "vrPackage (parseDebsums out pkg q) = pkg" "vrRawOutput (parseDebsums out pkg q) = out"
  using debsumsLoop_id by (simp_all add: parseDebsums_def)

lemma dpkgOwnerLoop_nonempty: "dpkgOwnerLoop ls = Some ow \<Longrightarrow> ow \<noteq> []"
  by (induction ls) (auto simp: Let_def split: if_splits option.splits)

lemmas pkgBundle = newRPM_def newDPKG_def rpmOwnerOf_def dpkgOwnerOf_def rpmVerifyOp_def dpkgVerifyOp_def
  runOwnerOf_def validateUntrustedArg_cases(1) Let_def

definition rpmOwnerCmd :: "string \<Rightarrow> cmd" where
  "rpmOwnerCmd p = mkCmd ''rpm'' [Trusted ''-qf'', Untrusted p]"

definition rpmVerifyCmd :: "string \<Rightarrow> cmd" where
  "rpmVerifyCmd p = mkCmd ''rpm'' [Trusted ''-V'', Untrusted p]"

definition dpkgOwnerCmd :: "string \<Rightarrow> cmd" where
  "dpkgOwnerCmd p = mkCmd ''dpkg'' [Trusted ''-S'', Untrusted p]"

definition debsumsCmd :: "string \<Rightarrow> cmd" where
  "debsumsCmd p = mkCmd ''debsums'' [Trusted ''-s'', Untrusted p]"

lemmas pkgCmds = rpmOwnerCmd_def rpmVerifyCmd_def dpkgOwnerCmd_def debsumsCmd_def

interpretation rpm: package_manager newRPM rpmOwnerCmd rpmVerifyCmd "\<lambda>res. parseRPMVerify (xStdout res)"
proof unfold_locales
  fix run :: "'a runner" and s path assume "\<not> safeArg path"
  from validateUntrustedArg_cases(2) [OF this]
  show "\<exists>e. pmOwnerOf newRPM run s path = (([], Some e), s) \<and> errIs e ErrInvalidArg"
    by (auto simp: newRPM_def rpmOwnerOf_def)
next
  fix run :: "'a runner" and s pkg path assume "\<not> safeArg pkg"
  from validateUntrustedArg_cases(2) [OF this]
  show "\<exists>e. pmVerify newRPM run s pkg path = ((zeroVerify, Some e), s) \<and> errIs e ErrInvalidArg"
    by (auto simp: newRPM_def rpmVerifyOp_def)
qed (auto simp: pkgBundle pkgCmds split: prod.splits option.splits sum.splits if_splits)

interpretation dpkg: package_manager newDPKG dpkgOwnerCmd debsumsCmd "\<lambda>res. parseDebsums (xStderr res)"
proof unfold_locales
  fix run :: "'a runner" and s path assume "\<not> safeArg path"
  from validateUntrustedArg_cases(2) [OF this]
  show "\<exists>e. pmOwnerOf newDPKG run s path = (([], Some e), s) \<and> errIs e ErrInvalidArg"
    by (auto simp: newDPKG_def dpkgOwnerOf_def)
next
  fix run :: "'a runner" and s pkg path assume "\<not> safeArg pkg"
  from validateUntrustedArg_cases(2) [OF this]
  show "\<exists>e. pmVerify newDPKG run s pkg path = ((zeroVerify, Some e), s) \<and> errIs e ErrInvalidArg"
    by (auto simp: newDPKG_def dpkgVerifyOp_def)
qed (auto simp: pkgBundle pkgCmds dpkgOwnerLoop_nonempty parseDPKGOwner_def
       split: prod.splits option.splits sum.splits if_splits)


definition pmOwnerCmd :: "'s pkgMgr \<Rightarrow> string \<Rightarrow> cmd" where
  "pmOwnerCmd m = (if pmName m = rpmBackendName then rpmOwnerCmd else dpkgOwnerCmd)"

definition pmVerifyCmd :: "'s pkgMgr \<Rightarrow> string \<Rightarrow> cmd" where
  "pmVerifyCmd m = (if pmName m = rpmBackendName then rpmVerifyCmd else debsumsCmd)"

lemma pm_names [simp]: "pmName newRPM = ''rpm''" "pmName newDPKG = ''dpkg''"
  "rpmBackendName = ''rpm''" "dpkgBackendName = ''dpkg''"
  by (simp_all add: newRPM_def newDPKG_def rpmBackendName_def dpkgBackendName_def)

lemma detectWith_cases:
  "detectWith resolve = Inr m \<Longrightarrow>
     m = newRPM \<and> (\<exists>p. resolve ''rpm'' = Inr p)
   \<or> m = newDPKG \<and> (\<exists>e. resolve ''rpm'' = Inl e) \<and> (\<exists>p. resolve ''dpkg'' = Inr p)"
  by (auto simp: detectWith_def split: sum.splits)

text \<open>
  Property C28: every detected backend keeps the promises of \<open>PkgMgr\<close>, whatever runner it is given. It
  is rpm exactly when rpm resolves. An unsafe path or package name reaches no runner; a safe one makes
  exactly one call. An owner is returned, and is not empty, exactly when there is no error, and then
  the query itself succeeded; and a verification result names the backend, the package and the path it
  was asked about, whether or not the tool failed.
\<close>

theorem pkg_manager_contract:
  assumes "detectWith resolve = Inr m"
  shows "(pmName m = ''rpm'' \<longleftrightarrow> (\<exists>p. resolve ''rpm'' = Inr p))
   \<and> snd (pmOwnerOf m run s path) = (if safeArg path then snd (run s (pmOwnerCmd m path)) else s)
   \<and> snd (pmVerify m run s pkg path) = (if safeArg pkg then snd (run s (pmVerifyCmd m pkg)) else s)
   \<and> (fst (fst (pmOwnerOf m run s path)) \<noteq> [] \<longleftrightarrow> snd (fst (pmOwnerOf m run s path)) = None)
   \<and> (snd (fst (pmOwnerOf m run s path)) = None \<longrightarrow>
        safeArg path \<and> snd (fst (run s (pmOwnerCmd m path))) = None)
   \<and> (safeArg pkg \<longrightarrow> vrBackend (fst (fst (pmVerify m run s pkg path))) = pmName m
        \<and> vrPackage (fst (fst (pmVerify m run s pkg path))) = pkg
        \<and> vrPath (fst (fst (pmVerify m run s pkg path))) = path)"
  using detectWith_cases [OF assms]
proof (elim disjE conjE)
  assume m: "m = newRPM" and r: "\<exists>p. resolve ''rpm'' = Inr p"
  have "pmOwnerCmd m = rpmOwnerCmd" "pmVerifyCmd m = rpmVerifyCmd"
    by (simp_all add: m pmOwnerCmd_def pmVerifyCmd_def)
  with rpm.contract [of run s path pkg] r m show ?thesis by simp
next
  assume m: "m = newDPKG" and r: "\<exists>e. resolve ''rpm'' = Inl e"
  have "pmOwnerCmd m = dpkgOwnerCmd" "pmVerifyCmd m = debsumsCmd"
    by (simp_all add: m pmOwnerCmd_def pmVerifyCmd_def)
  with dpkg.contract [of run s path pkg] r m show ?thesis by auto
qed

theorem pkg_manager_contract_witness:
  "fst (fst (pmOwnerOf newDPKG (\<lambda>(s::nat) c. ((zeroExecResult\<lparr>xStdout := ''login: /bin/su''\<rparr>, None), Suc s)) 0 ''/bin/su''))
     \<noteq> []"
proof -
  define resolve :: "string \<Rightarrow> goerr + string"
    where "resolve = (\<lambda>n. if n = ''dpkg'' then Inr n else Inl (plainErr n))"
  define run :: "nat runner"
    where "run = (\<lambda>s c. ((zeroExecResult\<lparr>xStdout := ''login: /bin/su''\<rparr>, None), Suc s))"
  have d: "detectWith resolve = Inr (newDPKG :: nat pkgMgr)"
    by (simp add: resolve_def detectWith_def)
  have "parseDPKGOwner ''login: /bin/su'' = Some ''login''" by code_simp
  moreover have "safeArg ''/bin/su''" by code_simp
  ultimately have "snd (fst (pmOwnerOf newDPKG run 0 ''/bin/su'')) = None"
    by (simp add: pkgBundle run_def zeroExecResult_def)
  with pkg_manager_contract [OF d, of run 0 "''/bin/su''"] show ?thesis
    by (simp only: run_def)
qed

end
