(* ===== verification/IntegrityVerdict.thy ===== *)
theory IntegrityVerdict
  imports IntegrityFacts
begin

text \<open>
  What a verification result says about the output of \<open>rpm -V\<close> and of \<open>debsums -s\<close>: each flag and each
  reason is traced back to the lines it comes from, and \<open>Clean\<close> is characterised for both backends.
\<close>

section \<open>The output of \<open>rpm -V\<close>\<close>

text \<open>
  The lines \<open>rpm -V\<close> prints: nine attribute columns, two blanks, the file attribute or a blank, a blank and the
  path; or the word \<open>missing\<close> for a file that is gone.
\<close>

datatype rpmItem = Row string bool string | Missing string

fun rpmText :: "rpmItem \<Rightarrow> string" where
  "rpmText (Row fl cfg p) = fl @ ''  '' @ (if cfg then ''c'' else '' '') @ '' '' @ p"
| "rpmText (Missing p) = ''missing     '' @ p"

fun wfRow :: "rpmItem \<Rightarrow> bool" where
  "wfRow (Row fl cfg p) \<longleftrightarrow> length fl = 9 \<and> token fl \<and> token p"
| "wfRow (Missing p) \<longleftrightarrow> token p"

fun rowReasons :: "string \<Rightarrow> rpmItem \<Rightarrow> string list" where
  "rowReasons q (Row fl cfg p) =
     (if p = q then if cfg then [''config file marker on queried path: '' @ p] else []
      else [(if cfg then ''additional config file changed in package: '' else ''additional file changed in package: '')
            @ p @ '' (flags='' @ fl @ '')''])"
| "rowReasons q (Missing p) = []"

text \<open>Column \<open>i\<close> of a row for the path \<open>q\<close> holds the letter \<open>c\<close>\<close>

fun deviates :: "string \<Rightarrow> nat \<Rightarrow> char \<Rightarrow> rpmItem \<Rightarrow> bool" where
  "deviates q i c (Row fl cfg p) \<longleftrightarrow> p = q \<and> fl ! i = c"
| "deviates q i c (Missing p) \<longleftrightarrow> False"

lemma token_set_space: "token t \<Longrightarrow> list_all (\<lambda>c. graphic c \<or> c = CHR 0x20) t"
  by (auto simp: list_all_iff dest: token_set)

lemma goFields_space: "token t \<Longrightarrow> goFields (t @ CHR 0x20 # s) = t # goFields s"
  using fieldsAcc_tokens [of "[t]"] by (simp add: goFields_def fieldsAcc_space_append token_set_space)

lemma goFields_blank: "goFields (CHR 0x20 # s) = goFields s"
  by (simp add: goFields_def fieldsAcc_space)

lemma goFields_token: "token t \<Longrightarrow> goFields t = [t]"
  using goFields_tokens [of "[t]"] by simp

lemma token_consts: "token ''missing''" "token ''c''"
  by code_simp+

lemma split_row: "wfRow (Row fl cfg p) \<Longrightarrow>
    splitRPMVerifyLine (rpmText (Row fl cfg p)) = Some (fl, if cfg then ''c'' else [], p)"
  using goFields_space [OF token_consts(2)]
  by (simp add: splitRPMVerifyLine_def goFields_space goFields_blank goFields_token rpmVerifyFlagLen_def)

lemma split_missing: "token p \<Longrightarrow> splitRPMVerifyLine (rpmText (Missing p)) = None"
  using goFields_space [OF token_consts(1)]
  by (simp add: splitRPMVerifyLine_def goFields_blank goFields_token rpmVerifyFlagLen_def)

lemma rpmText_shape:
  assumes "wfRow it"
  shows "trimRightSet isCR (rpmText it) = rpmText it" "trimSpace (rpmText it) = rpmText it" "rpmText it \<noteq> []"
    "CHR 0x0A \<notin> set (rpmText it)"
proof -
  have ends: "rpmText it \<noteq> [] \<and> graphic (hd (rpmText it)) \<and> graphic (last (rpmText it))"
  proof (cases it)
    case (Row fl cfg p)
    with assms show ?thesis by (auto simp: token_hd token_last token_nonempty hd_append)
  next
    case (Missing p)
    moreover have "graphic CHR ''m''" by code_simp
    ultimately show ?thesis using assms by (auto simp: token_last token_nonempty)
  qed
  then show "trimSpace (rpmText it) = rpmText it" "rpmText it \<noteq> []" by (simp_all add: trimSpace_graphic)
  have "\<not> isCR (last (rpmText it))" using ends by (auto simp: isCR_def)
  with ends show "trimRightSet isCR (rpmText it) = rpmText it" by (simp add: trimRightSet_last)
  show "CHR 0x0A \<notin> set (rpmText it)" using assms by (cases it) (auto dest: token_no_control)
qed

text \<open>What one row does to each field\<close>

lemma apply_flags:
  "length fl = 9 \<Longrightarrow> applyRPMFlags r fl = r\<lparr>
     vrHashMismatch := vrHashMismatch r \<or> fl ! 2 = CHR ''5'', vrSizeChanged := vrSizeChanged r \<or> fl ! 0 = CHR ''S'',
     vrMTimeChanged := vrMTimeChanged r \<or> fl ! 7 = CHR ''T'', vrPermsChanged := vrPermsChanged r \<or> fl ! 1 = CHR ''M'',
     vrOwnerChanged := vrOwnerChanged r \<or> fl ! 5 = CHR ''U'', vrGroupChanged := vrGroupChanged r \<or> fl ! 6 = CHR ''G''\<rparr>"
  by (cases r) (simp add: applyRPMFlags_def rpmVerifyFlagLen_def Let_def)

definition rpmEffect :: "string \<Rightarrow> rpmItem list \<Rightarrow> verifyResult \<Rightarrow> verifyResult" where
  "rpmEffect q its r = r\<lparr>
     vrUnverifiedReasons := vrUnverifiedReasons r @ concat (map (rowReasons q) its),
     vrHashMismatch := vrHashMismatch r \<or> (\<exists>it\<in>set its. deviates q 2 CHR ''5'' it),
     vrSizeChanged := vrSizeChanged r \<or> (\<exists>it\<in>set its. deviates q 0 CHR ''S'' it),
     vrMTimeChanged := vrMTimeChanged r \<or> (\<exists>it\<in>set its. deviates q 7 CHR ''T'' it),
     vrPermsChanged := vrPermsChanged r \<or> (\<exists>it\<in>set its. deviates q 1 CHR ''M'' it),
     vrOwnerChanged := vrOwnerChanged r \<or> (\<exists>it\<in>set its. deviates q 5 CHR ''U'' it),
     vrGroupChanged := vrGroupChanged r \<or> (\<exists>it\<in>set its. deviates q 6 CHR ''G'' it)\<rparr>"

lemma rpmLine_item: "wfRow it \<Longrightarrow> rpmLine q (rpmText it) r = rpmEffect q [it] r"
proof (cases it)
  case (Row fl cfg p)
  moreover assume w: "wfRow it"
  ultimately show ?thesis
    using rpmText_shape [OF w] split_row [of fl cfg p]
    by (cases r) (auto simp: rpmLine_def rpmEffect_def apply_flags addReason_def Let_def)
next
  case (Missing p)
  moreover assume w: "wfRow it"
  ultimately show ?thesis
    using rpmText_shape [OF w] split_missing [of p]
    by (cases r) (auto simp: rpmLine_def rpmEffect_def Let_def)
qed

lemma rpmEffect_Cons: "rpmEffect q its (rpmEffect q [it] r) = rpmEffect q (it # its) r"
  by (cases r) (auto simp: rpmEffect_def)

lemma rpmLoop_items: "list_all wfRow its \<Longrightarrow> rpmLoop q (map rpmText its @ [[]]) r = rpmEffect q its r"
proof (induction its arbitrary: r)
  case Nil
  then show ?case by (cases r) (simp add: rpmLine_def rpmEffect_def Let_def)
next
  case (Cons it its)
  then show ?case by (simp add: rpmLine_item rpmEffect_Cons)
qed

fun silent :: "string \<Rightarrow> rpmItem \<Rightarrow> bool" where
  "silent q (Row fl cfg p) \<longleftrightarrow> p = q \<and> \<not> cfg \<and> fl ! 0 \<noteq> CHR ''S'' \<and> fl ! 1 \<noteq> CHR ''M'' \<and> fl ! 2 \<noteq> CHR ''5''
     \<and> fl ! 5 \<noteq> CHR ''U'' \<and> fl ! 6 \<noteq> CHR ''G'' \<and> fl ! 7 \<noteq> CHR ''T''"
| "silent q (Missing p) \<longleftrightarrow> True"

lemma silent_iff: "silent q it \<longleftrightarrow> rowReasons q it = [] \<and> \<not> deviates q 0 CHR ''S'' it \<and> \<not> deviates q 1 CHR ''M'' it
    \<and> \<not> deviates q 2 CHR ''5'' it \<and> \<not> deviates q 5 CHR ''U'' it \<and> \<not> deviates q 6 CHR ''G'' it
    \<and> \<not> deviates q 7 CHR ''T'' it"
  by (cases it) auto

lemma parseRPMVerify_items:
  assumes "list_all wfRow its"
  shows "parseRPMVerify (unlines (map rpmText its)) pkg q =
    rpmEffect q its (zeroVerify\<lparr>vrBackend := rpmBackendName, vrPackage := pkg, vrPath := q,
      vrRawOutput := unlines (map rpmText its)\<rparr>)"
proof -
  have "\<forall>l\<in>set (map rpmText its). CHR 0x0A \<notin> set l"
    using assms rpmText_shape(4) by (auto simp: list_all_iff)
  from splitByte_unlines [OF this] rpmLoop_items [OF assms] show ?thesis by (simp add: parseRPMVerify_def)
qed

text \<open>
  Property C29: what the verdict of \<open>rpm -V\<close> rests on. Each flag is raised exactly when some row for the
  queried path carries its letter in its column; every row for another file, and every configuration
  marker, is kept as a reason, in order. So the result is clean exactly when each line is either a row
  for the queried path without a marker and without one of the six letters, or a \<open>missing\<close> line: a
  file that has been deleted, the queried one included, does not spoil it.
\<close>

theorem rpm_verdict:
  assumes "list_all wfRow its" and "r = parseRPMVerify (unlines (map rpmText its)) pkg q"
  shows "(vrHashMismatch r \<longleftrightarrow> (\<exists>it\<in>set its. deviates q 2 CHR ''5'' it))
    \<and> (vrSizeChanged r \<longleftrightarrow> (\<exists>it\<in>set its. deviates q 0 CHR ''S'' it))
    \<and> (vrPermsChanged r \<longleftrightarrow> (\<exists>it\<in>set its. deviates q 1 CHR ''M'' it))
    \<and> (vrOwnerChanged r \<longleftrightarrow> (\<exists>it\<in>set its. deviates q 5 CHR ''U'' it))
    \<and> (vrGroupChanged r \<longleftrightarrow> (\<exists>it\<in>set its. deviates q 6 CHR ''G'' it))
    \<and> (vrMTimeChanged r \<longleftrightarrow> (\<exists>it\<in>set its. deviates q 7 CHR ''T'' it))
    \<and> vrUnverifiedReasons r = concat (map (rowReasons q) its)
    \<and> (clean r \<longleftrightarrow> (\<forall>it\<in>set its. silent q it))"
proof -
  have r: "r = rpmEffect q its (zeroVerify\<lparr>vrBackend := rpmBackendName, vrPackage := pkg, vrPath := q,
      vrRawOutput := unlines (map rpmText its)\<rparr>)"
    using assms parseRPMVerify_items by simp
  have "clean r \<longleftrightarrow> (\<forall>it\<in>set its. silent q it)"
    by (auto simp: r rpmEffect_def clean_def zeroVerify_def silent_iff)
  then show ?thesis by (simp add: r rpmEffect_def zeroVerify_def)
qed

theorem rpm_verdict_witness:
  "vrHashMismatch (parseRPMVerify (unlines [''S.5....T.    /usr/bin/su'']) ''util-linux'' ''/usr/bin/su'')
   \<and> clean (parseRPMVerify (unlines [''missing     /usr/bin/su'']) ''util-linux'' ''/usr/bin/su'')"
proof
  let ?its = "[Row ''S.5....T.'' False ''/usr/bin/su'']"
  have "list_all wfRow ?its" by code_simp
  from rpm_verdict [OF this refl]
  show "vrHashMismatch (parseRPMVerify (unlines [''S.5....T.    /usr/bin/su'']) ''util-linux'' ''/usr/bin/su'')"
    by simp
next
  let ?its = "[Missing ''/usr/bin/su'']"
  have "list_all wfRow ?its" by code_simp
  from rpm_verdict [OF this refl]
  show "clean (parseRPMVerify (unlines [''missing     /usr/bin/su'']) ''util-linux'' ''/usr/bin/su'')"
    by simp
qed

section \<open>The output of \<open>debsums -s\<close>\<close>

definition blankRaw :: "string \<Rightarrow> bool" where
  "blankRaw raw \<longleftrightarrow> trimSpace (trimRightSet isCR raw) = []"

text \<open>The line reports the file \<open>q\<close> as changed\<close>

definition changedLine :: "string \<Rightarrow> string \<Rightarrow> bool" where
  "changedLine q raw \<longleftrightarrow> prefix (''debsums: changed file '' @ q @ '' (from '') (trimSpace (trimRightSet isCR raw))"

lemma indexOf_first_blank:
  "CHR 0x20 \<notin> set q \<Longrightarrow> indexOf (CHR 0x20 # sub) (q @ CHR 0x20 # sub @ rest) = Some (length q)"
  by (induction q) auto

lemma prefix_indexOf:
  assumes "CHR 0x20 \<notin> set q"
  shows "(\<exists>i. indexOf '' (from '' s = Some i \<and> take i s = q) \<longleftrightarrow> prefix (q @ '' (from '') s"
proof
  assume "\<exists>i. indexOf '' (from '' s = Some i \<and> take i s = q"
  then obtain i where "indexOf '' (from '' s = Some i" and t: "take i s = q" by blast
  then obtain z where "drop i s = '' (from '' @ z" using indexOf_Some [of "'' (from ''" s i] by (auto simp: prefix_def)
  then have "s = q @ '' (from '' @ z" using append_take_drop_id [of i s] t by simp
  then show "prefix (q @ '' (from '') s" by simp
next
  assume "prefix (q @ '' (from '') s"
  then obtain z where "s = q @ '' (from '' @ z" by (auto simp: prefix_def)
  with indexOf_first_blank [OF assms, of "''(from ''" z]
  show "\<exists>i. indexOf '' (from '' s = Some i \<and> take i s = q" by simp
qed

lemma debsumsLine_step:
  assumes "CHR 0x20 \<notin> set q"
  shows "debsumsLine q raw r =
    (if blankRaw raw then r else if changedLine q raw then r\<lparr>vrHashMismatch := True\<rparr>
     else addReason r (hd (vrUnverifiedReasons (debsumsLine q raw zeroVerify))))"
proof -
  define t where "t = trimSpace (trimRightSet isCR raw)"
  have p: "changedLine q raw \<longleftrightarrow> prefix debsumsChangedPrefix t \<and> prefix (q @ '' (from '') (drop (length debsumsChangedPrefix) t)"
    by (auto simp: changedLine_def t_def debsumsChangedPrefix_def prefix_def)
  show ?thesis
    using prefix_indexOf [OF assms, of "drop (length debsumsChangedPrefix) t"]
    unfolding p by (auto simp: debsumsLine_def blankRaw_def zeroVerify_def addReason_def trimPrefix_def Let_def
        simp flip: t_def split: option.splits)
qed

lemma changed_not_blank: "changedLine q raw \<Longrightarrow> \<not> blankRaw raw"
  by (auto simp: changedLine_def blankRaw_def)

definition otherLine :: "string \<Rightarrow> string \<Rightarrow> bool" where
  "otherLine q raw \<longleftrightarrow> \<not> blankRaw raw \<and> \<not> changedLine q raw"

lemma debsumsLoop_effect:
  assumes "CHR 0x20 \<notin> set q"
  shows "\<exists>ms. length ms = length (filter (otherLine q) ls) \<and> debsumsLoop q ls r =
    r\<lparr>vrHashMismatch := vrHashMismatch r \<or> (\<exists>l\<in>set ls. changedLine q l),
      vrUnverifiedReasons := vrUnverifiedReasons r @ ms\<rparr>"
proof (induction ls arbitrary: r)
  case (Cons l ls)
  note step = debsumsLine_step [OF assms, of l r]
  show ?case
  proof (cases "otherLine q l")
    case True
    then have d: "debsumsLine q l r = addReason r (hd (vrUnverifiedReasons (debsumsLine q l zeroVerify)))"
      using step by (simp add: otherLine_def)
    let ?m = "hd (vrUnverifiedReasons (debsumsLine q l zeroVerify))"
    from Cons.IH [of "debsumsLine q l r"] obtain ms where
      ms: "length ms = length (filter (otherLine q) ls)" "debsumsLoop q ls (debsumsLine q l r) =
        (debsumsLine q l r)\<lparr>vrHashMismatch := vrHashMismatch (debsumsLine q l r) \<or> (\<exists>l\<in>set ls. changedLine q l),
          vrUnverifiedReasons := vrUnverifiedReasons (debsumsLine q l r) @ ms\<rparr>" by blast
    have "\<not> changedLine q l" using True by (simp add: otherLine_def)
    moreover have "debsumsLoop q (l # ls) r = r\<lparr>vrHashMismatch := vrHashMismatch r \<or> (\<exists>l\<in>set ls. changedLine q l),
        vrUnverifiedReasons := vrUnverifiedReasons r @ ?m # ms\<rparr>"
      unfolding debsumsLoop.simps ms(2) unfolding d by (simp add: addReason_def)
    ultimately show ?thesis using True ms(1) by (intro exI [of _ "?m # ms"]) simp
  next
    case False
    then have "debsumsLine q l r = r\<lparr>vrHashMismatch := vrHashMismatch r \<or> changedLine q l\<rparr>"
      using step changed_not_blank by (cases r) (auto simp: otherLine_def)
    with Cons.IH [of "debsumsLine q l r"] False show ?thesis by (auto simp: disj_assoc)
  qed
qed (auto intro: exI [of _ "[]"])

text \<open>
  Property C30: what the verdict of \<open>debsums -s\<close> rests on, for any captured output whatever. The hash
  flag is raised exactly when some line reports the queried path (a path without blanks) as changed;
  every other line that is not blank leaves exactly one reason; the backend raises no other flag. So
  the result is clean exactly when the output is blank: nothing the tool says is dropped.
\<close>

theorem debsums_verdict:
  assumes "CHR 0x20 \<notin> set q"
  shows "(vrHashMismatch (parseDebsums out pkg q) \<longleftrightarrow> (\<exists>l\<in>set (splitByte CHR 0x0A out). changedLine q l))
    \<and> length (vrUnverifiedReasons (parseDebsums out pkg q)) = length (filter (otherLine q) (splitByte CHR 0x0A out))
    \<and> \<not> vrSizeChanged (parseDebsums out pkg q) \<and> \<not> vrMTimeChanged (parseDebsums out pkg q)
    \<and> \<not> vrPermsChanged (parseDebsums out pkg q) \<and> \<not> vrOwnerChanged (parseDebsums out pkg q)
    \<and> \<not> vrGroupChanged (parseDebsums out pkg q)
    \<and> (clean (parseDebsums out pkg q) \<longleftrightarrow> list_all blankRaw (splitByte CHR 0x0A out))"
proof -
  let ?ls = "splitByte CHR 0x0A out"
  let ?r = "zeroVerify\<lparr>vrBackend := dpkgBackendName, vrPackage := pkg, vrPath := q, vrRawOutput := out\<rparr>"
  obtain ms where n: "length ms = length (filter (otherLine q) ?ls)"
    and e: "parseDebsums out pkg q = ?r\<lparr>vrHashMismatch := vrHashMismatch ?r \<or> (\<exists>l\<in>set ?ls. changedLine q l),
      vrUnverifiedReasons := vrUnverifiedReasons ?r @ ms\<rparr>"
    using debsumsLoop_effect [OF assms, of ?ls ?r] by (auto simp: parseDebsums_def)
  have "ms = [] \<longleftrightarrow> (\<forall>l\<in>set ?ls. \<not> otherLine q l)"
    using n by (metis filter_empty_conv length_0_conv)
  then have "clean (parseDebsums out pkg q) \<longleftrightarrow> list_all blankRaw ?ls"
    using changed_not_blank by (auto simp: e clean_def zeroVerify_def otherLine_def list_all_iff)
  then show ?thesis by (simp add: e n zeroVerify_def)
qed

theorem debsums_verdict_witness:
  "vrHashMismatch (parseDebsums ''debsums: changed file /bin/su (from login package)'' ''login'' ''/bin/su'')
   \<and> \<not> clean (parseDebsums ''debsums: changed file /bin/su (from login package)'' ''login'' ''/bin/su'')"
proof -
  let ?out = "''debsums: changed file /bin/su (from login package)''"
  have "CHR 0x20 \<notin> set ''/bin/su''" by simp
  note v = debsums_verdict [OF this, of ?out "''login''"]
  have "changedLine ''/bin/su'' ?out" by code_simp
  moreover have "splitByte CHR 0x0A ?out = [?out]" by code_simp
  ultimately have h: "vrHashMismatch (parseDebsums ?out ''login'' ''/bin/su'')" using v by simp
  then show ?thesis by (simp add: clean_def)
qed

end
