(* ===== verification/Procscan.thy ===== *)
theory Procscan
  imports GoOS
begin

text \<open>
  \<open>internal/procscan\<close>: the scan of \<open>/proc\<close> for processes with an AF_ALG module in their memory map
  (\<open>afalg.go\<close>, \<open>modules.go\<close>). The process table is the file system parameter: each file is read once, so
  processes that appear or go during the scan are the errors of its reads. \<open>ctx n\<close> is what \<open>ctx.Err()\<close>
  returns before the process number \<open>n\<close>. The file ends with what a scan finds, and what a cancelled
  one has found by then.
\<close>

definition afAlgModules :: "string list" where
  "afAlgModules = [''af_alg'', ''algif_aead'', ''algif_skcipher'', ''algif_hash'', ''algif_rng'']"

record candidate =
  cdComm :: string
  cdMatchReason :: string
  cdPID :: int

record scanResult =
  srUnreadable :: "int list"
  srCandidates :: "candidate list"
  srScanned :: nat

definition emptyScan :: scanResult where
  "emptyScan = \<lparr>srUnreadable = [], srCandidates = [], srScanned = 0\<rparr>"

text \<open>
  The loop over the runes of the name accepts digits only, and a digit is one byte; a name too large
  for an \<open>int\<close> is no process.
\<close>

definition pidFromName :: "string \<Rightarrow> int option" where
  "pidFromName name =
     (if name = [] then None
      else if \<not> list_all isDigit name then None
      else case parseInt64 name of
        Inl _ \<Rightarrow> None
      | Inr pid \<Rightarrow> if pid \<le> 0 then None else Some pid)"

text \<open>The scanner's error is ignored: lines after one that does not fit its buffer are not seen.\<close>

fun matchLoop :: "string list \<Rightarrow> (string \<times> string) option" where
  "matchLoop [] = None"
| "matchLoop (line # ls) =
     (case find (contains line) afAlgModules of
        Some md \<Rightarrow> Some (md, line)
      | None \<Rightarrow> matchLoop ls)"

definition findAFAlgMatch :: "string \<Rightarrow> (string \<times> string) option" where
  "findAFAlgMatch maps = matchLoop (scanLines maps)"

definition readComm :: "hostFS \<Rightarrow> string \<Rightarrow> string" where
  "readComm fs path = (case fsReadFile fs path of Inl _ \<Rightarrow> [] | Inr text \<Rightarrow> trimSpace text)"

fun pidList :: "dirEntry list \<Rightarrow> int list" where
  "pidList [] = []"
| "pidList (e # es) = (case pidFromName (deName e) of None \<Rightarrow> pidList es | Some pid \<Rightarrow> pid # pidList es)"

text \<open>One iteration of the walk, after the check for cancellation\<close>

definition scanPid :: "hostFS \<Rightarrow> string \<Rightarrow> int \<Rightarrow> scanResult \<Rightarrow> scanResult" where
  "scanPid fs procRoot pid r =
     (let r1 = r\<lparr>srScanned := Suc (srScanned r)\<rparr>;
          mapsPath = joinPath [procRoot, itoa pid, ''maps''] in
      case fsReadFile fs mapsPath of
        Inl e \<Rightarrow>
          if errIs e FsErrNotExist then r1
          else if errIs e FsErrPermission then r1\<lparr>srUnreadable := srUnreadable r1 @ [pid]\<rparr>
          else r1\<lparr>srUnreadable := srUnreadable r1 @ [pid]\<rparr>
      | Inr mapsContent \<Rightarrow>
          (case findAFAlgMatch mapsContent of
             None \<Rightarrow> r1
           | Some (matchedModule, matchedLine) \<Rightarrow>
               r1\<lparr>srCandidates := srCandidates r1 @
                 [\<lparr>cdComm = readComm fs (joinPath [procRoot, itoa pid, ''comm'']),
                   cdMatchReason = matchedModule @ '' in '' @ mapsPath @ '': '' @ matchedLine,
                   cdPID = pid\<rparr>]\<rparr>))"

fun scanLoop :: "hostFS \<Rightarrow> (nat \<Rightarrow> goerr option) \<Rightarrow> string \<Rightarrow> int list \<Rightarrow> scanResult \<Rightarrow> scanResult \<times> goerr option" where
  "scanLoop fs ctx procRoot [] r = (r\<lparr>srUnreadable := sort (srUnreadable r)\<rparr>, None)"
| "scanLoop fs ctx procRoot (pid # pids) r =
     (case ctx (srScanned r) of
        Some e \<Rightarrow> (r, Some (wrapErr (''procscan: scan canceled at pid '' @ itoa pid @ '': '') e []))
      | None \<Rightarrow> scanLoop fs ctx procRoot pids (scanPid fs procRoot pid r))"

definition scanWithRoot :: "hostFS \<Rightarrow> (nat \<Rightarrow> goerr option) \<Rightarrow> string \<Rightarrow> scanResult \<times> goerr option" where
  "scanWithRoot fs ctx procRoot =
     (case fsStat fs (joinPath [procRoot, ''self'']) of
        Inl e \<Rightarrow> (emptyScan, Some (wrapErr2 (''procscan: stat '' @ procRoot @ ''/self: '')
                    (sentinelErr ErrProcMissing) '': '' e []))
      | Inr _ \<Rightarrow>
          (case fsReadDir fs procRoot of
             Inl e \<Rightarrow> (emptyScan, Some (wrapErr (''procscan: read dir '' @ procRoot @ '': '') e []))
           | Inr entries \<Rightarrow> scanLoop fs ctx procRoot (sort (pidList entries)) emptyScan))"

definition scan :: "int \<Rightarrow> hostFS \<Rightarrow> (nat \<Rightarrow> goerr option) \<Rightarrow> scanResult \<times> goerr option" where
  "scan euid fs ctx =
     (if euid \<noteq> 0 then (emptyScan, Some (sentinelErr ErrNotRoot))
      else scanWithRoot fs ctx ''/proc'')"

section \<open>What a scan finds\<close>

definition mapsOf :: "string \<Rightarrow> int \<Rightarrow> string" where
  "mapsOf procRoot pid = joinPath [procRoot, itoa pid, ''maps'']"

text \<open>The memory map was there and could not be read\<close>

definition unreadable :: "hostFS \<Rightarrow> string \<Rightarrow> int \<Rightarrow> bool" where
  "unreadable fs procRoot pid \<longleftrightarrow>
     (case fsReadFile fs (mapsOf procRoot pid) of Inl e \<Rightarrow> \<not> errIs e FsErrNotExist | Inr _ \<Rightarrow> False)"

text \<open>Some line of the memory map mentions a module of the family\<close>

definition mentions :: "hostFS \<Rightarrow> string \<Rightarrow> int \<Rightarrow> bool" where
  "mentions fs procRoot pid \<longleftrightarrow>
     (case fsReadFile fs (mapsOf procRoot pid) of Inl _ \<Rightarrow> False
      | Inr text \<Rightarrow> \<exists>l\<in>set (scanLines text). \<exists>m\<in>set afAlgModules. contains l m)"

lemma find_Some_in: "find P xs = Some x \<Longrightarrow> x \<in> set xs \<and> P x"
  by (auto simp: find_Some_iff)

lemma matchLoop_Some:
  "matchLoop ls = Some (m, l) \<Longrightarrow> l \<in> set ls \<and> m \<in> set afAlgModules \<and> contains l m"
  by (induction ls) (auto dest: find_Some_in split: option.splits)

lemma matchLoop_None: "matchLoop ls = None \<longleftrightarrow> (\<forall>l\<in>set ls. \<forall>m\<in>set afAlgModules. \<not> contains l m)"
  by (induction ls) (auto simp: find_None_iff dest: find_Some_in split: option.split)

lemma scanPid_fields:
  "srScanned (scanPid fs d pid r) = Suc (srScanned r)"
  "srUnreadable (scanPid fs d pid r) = srUnreadable r @ (if unreadable fs d pid then [pid] else [])"
  "map cdPID (srCandidates (scanPid fs d pid r)) = map cdPID (srCandidates r) @ (if mentions fs d pid then [pid] else [])"
  by (auto simp: scanPid_def unreadable_def mentions_def mapsOf_def findAFAlgMatch_def matchLoop_None Let_def
      dest: matchLoop_Some split: sum.split option.split)

text \<open>A candidate's reason quotes a line of its memory map and a module that occurs in it\<close>

definition justified :: "hostFS \<Rightarrow> string \<Rightarrow> candidate \<Rightarrow> bool" where
  "justified fs d c \<longleftrightarrow> (\<exists>text l m. fsReadFile fs (mapsOf d (cdPID c)) = Inr text \<and> l \<in> set (scanLines text)
     \<and> m \<in> set afAlgModules \<and> contains l m
     \<and> cdMatchReason c = m @ '' in '' @ mapsOf d (cdPID c) @ '': '' @ l)"

lemma scanPid_justified:
  "list_all (justified fs d) (srCandidates r) \<Longrightarrow> list_all (justified fs d) (srCandidates (scanPid fs d pid r))"
  by (auto simp: scanPid_def justified_def mapsOf_def findAFAlgMatch_def Let_def
      dest: matchLoop_Some split: sum.split option.split)

text \<open>The number of processes looked at before the cancellation\<close>

fun uncancelled :: "(nat \<Rightarrow> goerr option) \<Rightarrow> nat \<Rightarrow> nat \<Rightarrow> nat" where
  "uncancelled ctx i 0 = 0"
| "uncancelled ctx i (Suc n) = (if ctx i = None then Suc (uncancelled ctx (Suc i) n) else 0)"

lemma scanLoop_spec:
  assumes "sorted pids" and "sorted (srUnreadable r)"
    and "\<forall>p\<in>set (srUnreadable r). \<forall>q\<in>set pids. p \<le> q" and "list_all (justified fs d) (srCandidates r)"
    and "scanLoop fs ctx d pids r = (r', err)" and "k = uncancelled ctx (srScanned r) (length pids)"
  shows "srScanned r' = srScanned r + k
    \<and> srUnreadable r' = srUnreadable r @ filter (unreadable fs d) (take k pids)
    \<and> map cdPID (srCandidates r') = map cdPID (srCandidates r) @ filter (mentions fs d) (take k pids)
    \<and> list_all (justified fs d) (srCandidates r')
    \<and> (\<forall>s. errIsOpt err s \<longleftrightarrow> k < length pids \<and> errIsOpt (ctx (srScanned r + k)) s)
    \<and> (err = None \<longleftrightarrow> k = length pids)"
  using assms
proof (induction pids arbitrary: r k)
  case Nil
  then show ?case by (auto simp: sorted_sort_id)
next
  case (Cons pid pids)
  show ?case
  proof (cases "ctx (srScanned r)")
    case (Some e)
    with Cons.prems show ?thesis by auto
  next
    case None
    let ?r = "scanPid fs d pid r"
    have s: "sorted (srUnreadable ?r)" "\<forall>p\<in>set (srUnreadable ?r). \<forall>q\<in>set pids. p \<le> q"
      using Cons.prems(1-3) by (auto simp: scanPid_fields sorted_append)
    have "scanLoop fs ctx d pids ?r = (r', err)" using Cons.prems(5) None by simp
    note ih = Cons.IH [OF _ s scanPid_justified [OF Cons.prems(4)] this refl]
    have k: "k = Suc (uncancelled ctx (Suc (srScanned r)) (length pids))" using Cons.prems(6) None by simp
    from ih Cons.prems(1) show ?thesis unfolding k by (simp add: scanPid_fields)
  qed
qed

text \<open>
  Property C31: a scan reports what it looked at, completely and in order. The processes are the
  entries of the directory whose name is a positive number, in numeric order; \<open>k\<close> of them are looked at
  before a cancellation. The unreadable list and the flagged processes are then exactly those among
  these \<open>k\<close> whose map failed with anything but "does not exist", or mentions a module; every flagged
  process carries the line and the module that condemn it. The error is nil exactly when no process
  was left out, and it wraps what the context reported otherwise.
\<close>

theorem proc_scan:
  assumes "fsStat fs (joinPath [d, ''self'']) = Inr info" and "fsReadDir fs d = Inr entries"
    and "scanWithRoot fs ctx d = (r, err)"
    and "pids = sort (pidList entries)" and "k = uncancelled ctx 0 (length pids)"
  shows "srScanned r = k
    \<and> srUnreadable r = filter (unreadable fs d) (take k pids)
    \<and> map cdPID (srCandidates r) = filter (mentions fs d) (take k pids)
    \<and> list_all (justified fs d) (srCandidates r)
    \<and> (\<forall>s. errIsOpt err s \<longleftrightarrow> k < length pids \<and> errIsOpt (ctx k) s)
    \<and> (err = None \<longleftrightarrow> k = length pids)"
proof -
  have l: "scanLoop fs ctx d pids emptyScan = (r, err)"
    using assms(1-4) by (simp add: scanWithRoot_def)
  have "sorted pids" using assms(4) by simp
  from scanLoop_spec [OF this _ _ _ l, of k] assms(5) show ?thesis by (simp add: emptyScan_def)
qed

definition demoProc :: hostFS where
  "demoProc = emptyFS\<lparr>
     fsStat := (\<lambda>p. if p = ''/proc/self'' then Inr \<lparr>fiKind = KDirectory, fiSize = 0, fiMode = []\<rparr>
                    else Inl (sentinelErr FsErrNotExist)),
     fsReadDir := (\<lambda>p. Inr (map (\<lambda>n. \<lparr>deName = n, deInfo = Inl (plainErr [])\<rparr>) [''12'', ''7'', ''self''])),
     fsReadFile := (\<lambda>p. if p = ''/proc/7/maps'' then Inr ''x /lib/algif_aead.ko'' else Inl (sentinelErr FsErrPermission))\<rparr>"

theorem proc_scan_witness:
  "map cdPID (srCandidates (fst (scanWithRoot demoProc (\<lambda>_. None) ''/proc''))) = [7]
   \<and> srUnreadable (fst (scanWithRoot demoProc (\<lambda>_. None) ''/proc'')) = [12]"
proof -
  obtain r err where run: "scanWithRoot demoProc (\<lambda>_. None) ''/proc'' = (r, err)" by (metis prod.collapse)
  have "joinPath [''/proc'', ''self''] = ''/proc/self''" by code_simp
  then have st: "fsStat demoProc (joinPath [''/proc'', ''self'']) = Inr \<lparr>fiKind = KDirectory, fiSize = 0, fiMode = []\<rparr>"
    by (simp add: demoProc_def)
  have rd: "fsReadDir demoProc ''/proc'' = Inr (map (\<lambda>n. \<lparr>deName = n, deInfo = Inl (plainErr [])\<rparr>) [''12'', ''7'', ''self''])"
    by (simp add: demoProc_def)
  let ?es = "map (\<lambda>n. \<lparr>deName = n, deInfo = Inl (plainErr [])\<rparr>) [''12'', ''7'', ''self'']"
  have "pidFromName ''12'' = Some 12" "pidFromName ''7'' = Some 7" "pidFromName ''self'' = None" by code_simp+
  then have pids: "sort (pidList ?es) = [7, 12]" by simp
  have f: "unreadable demoProc ''/proc'' 12" "\<not> unreadable demoProc ''/proc'' 7"
    "mentions demoProc ''/proc'' 7" "\<not> mentions demoProc ''/proc'' 12"
    by code_simp+
  from proc_scan [OF st rd run refl refl] show ?thesis
    unfolding pids run by (simp add: f numeral_2_eq_2)
qed

end
