(* ===== verification/Redact.thy ===== *)
theory Redact
  imports GoStringFacts
begin

text \<open>
  \<open>internal/redact/redact.go\<close>: the redaction of secrets in evidence text, and the theorem that the
  redacted text does not depend on the secret. The regular expression is spelled out as Go's leftmost-first
  matcher runs it: the alternatives of the keyword in their order, then \<open>\s*[:=]\s*.+\<close>, where only the second
  \<open>\s*\<close> ever has to give characters back. \<open>RedactRegex\<close> proves that this is what the pattern means.
\<close>

section \<open>The pattern\<close>

definition catStrings :: "string list \<Rightarrow> string list \<Rightarrow> string list" where
  "catStrings xs ys = concat (map (\<lambda>x. map (\<lambda>y. x @ y) ys) xs)"

definition optional :: "string \<Rightarrow> string list" where
  "optional x = [x, []]"

text \<open>
  The alternatives, each expanded in the order the matcher tries it:
  \<open>password|passwd|token|secret|bearer|api[_-]?key|aws_(?:access_key(?:_id)?|secret_(?:access_)?key(?:_id)?|session_token)|authorization\<close>
\<close>

definition secretLabels :: "string list" where
  "secretLabels =
     [''password'', ''passwd'', ''token'', ''secret'', ''bearer'']
     @ catStrings [''api_'', ''api-'', ''api''] [''key'']
     @ catStrings [''aws_'']
         (catStrings [''access_key''] (optional ''_id'')
          @ catStrings (catStrings [''secret_''] (optional ''access_'')) (catStrings [''key''] (optional ''_id''))
          @ [''session_token''])
     @ [''authorization'']"

text \<open>\<open>\s\<close> of Go's regular expressions\<close>

definition reSpace :: "char \<Rightarrow> bool" where
  "reSpace c \<longleftrightarrow> c = CHR 0x20 \<or> c = CHR 0x09 \<or> c = CHR 0x0A \<or> c = CHR 0x0C \<or> c = CHR 0x0D"

definition isSep :: "char \<Rightarrow> bool" where
  "isSep c \<longleftrightarrow> c = CHR '':'' \<or> c = CHR ''=''"

abbreviation newline :: char where "newline \<equiv> CHR 0x0A"

text \<open>
  One lower-case letter of a keyword under \<open>(?i)\<close>: besides the two cases, \<open>s\<close> also matches U+017F and
  \<open>k\<close> the Kelvin sign U+212A, the other members of their case-folding orbits.
\<close>

definition litChar :: "char \<Rightarrow> string \<Rightarrow> string option" where
  "litChar c s = (case s of
       [] \<Rightarrow> None
     | x # r \<Rightarrow>
         if lowerByte x = c then Some r
         else if c = CHR ''s'' \<and> prefix [CHR 0xC5, CHR 0xBF] s then Some (drop 2 s)
         else if c = CHR ''k'' \<and> prefix [CHR 0xE2, CHR 0x84, CHR 0xAA] s then Some (drop 3 s)
         else None)"

fun lit :: "string \<Rightarrow> string \<Rightarrow> string option" where
  "lit [] s = Some s"
| "lit (c # cs) s = (case litChar c s of None \<Rightarrow> None | Some r \<Rightarrow> lit cs r)"

text \<open>
  \<open>\s*.+\<close>: what is left after it. If nothing but white space follows, \<open>\s*\<close> gives back until \<open>.+\<close> finds a
  character that is not a newline.
\<close>

definition valueEnd :: "string \<Rightarrow> string option" where
  "valueEnd s =
     (let r = dropWhile reSpace s in
      if r \<noteq> [] then Some (dropWhile (\<lambda>c. c \<noteq> newline) r)
      else if list_all (\<lambda>c. c = newline) s then None
      else Some (rev (takeWhile (\<lambda>c. c = newline) (rev s))))"

text \<open>\<open>\s*[:=]\s*.+\<close>\<close>

definition tailMatch :: "string \<Rightarrow> string option" where
  "tailMatch s = (case dropWhile reSpace s of
       [] \<Rightarrow> None
     | c # r \<Rightarrow> if isSep c then valueEnd r else None)"

fun firstMatch :: "string list \<Rightarrow> string \<Rightarrow> string option" where
  "firstMatch [] s = None"
| "firstMatch (k # ks) s =
     (case lit k s of
        None \<Rightarrow> firstMatch ks s
      | Some r \<Rightarrow> (case tailMatch r of None \<Rightarrow> firstMatch ks s | Some r' \<Rightarrow> Some r'))"

text \<open>What is left of the text after a match at its start\<close>

definition matchAt :: "string \<Rightarrow> string option" where
  "matchAt s = firstMatch secretLabels s"

section \<open>Redact\<close>

definition replacement :: string where
  "replacement = ''***REDACTED***''"

text \<open>The function \<open>Redact\<close> passes to \<open>ReplaceAllStringFunc\<close>\<close>

definition redactMatch :: "string \<Rightarrow> string" where
  "redactMatch m =
     (if list_ex isSep m then takeWhile (\<lambda>c. \<not> isSep c) m @ ''='' @ replacement else replacement)"

subsection \<open>Every match consumes something\<close>

lemma litChar_length: "litChar c s = Some r \<Longrightarrow> length r < length s"
  by (auto simp: litChar_def split: list.splits if_splits)

lemma lit_length: "lit k s = Some r \<Longrightarrow> length r \<le> length s"
  by (induction k arbitrary: s) (fastforce split: option.splits dest: litChar_length)+

lemma lit_length_less: "lit k s = Some r \<Longrightarrow> k \<noteq> [] \<Longrightarrow> length r < length s"
  by (cases k) (fastforce split: option.splits dest: litChar_length lit_length)+

lemma length_dropWhile_le': "length (dropWhile P xs) \<le> length xs"
  by (rule length_dropWhile_le)

lemma valueEnd_length: "valueEnd s = Some r \<Longrightarrow> length r \<le> length s"
proof -
  have "length (dropWhile (\<lambda>c. c \<noteq> newline) (dropWhile reSpace s)) \<le> length s"
    by (meson length_dropWhile_le le_trans)
  moreover have "length (takeWhile (\<lambda>c. c = newline) (rev s)) \<le> length s"
    using length_takeWhile_le [of "\<lambda>c. c = newline" "rev s"] by simp
  ultimately show "valueEnd s = Some r \<Longrightarrow> length r \<le> length s"
    by (auto simp: valueEnd_def Let_def split: if_splits)
qed

lemma tailMatch_length: "tailMatch s = Some r \<Longrightarrow> length r \<le> length s"
proof (cases "dropWhile reSpace s")
  case (Cons c r')
  assume "tailMatch s = Some r"
  with Cons have "length r \<le> length r'" by (auto simp: tailMatch_def dest: valueEnd_length split: if_splits)
  moreover have "length r' \<le> length s" using length_dropWhile_le [of reSpace s] Cons by simp
  ultimately show ?thesis by simp
qed (simp add: tailMatch_def)

lemma secretLabels_nonempty: "[] \<notin> set secretLabels"
  by (simp add: secretLabels_def catStrings_def optional_def)

lemma firstMatch_length: "[] \<notin> set ks \<Longrightarrow> firstMatch ks s = Some r \<Longrightarrow> length r < length s"
  by (induction ks) (auto split: option.splits dest!: lit_length_less tailMatch_length)

lemma matchAt_length: "matchAt s = Some r \<Longrightarrow> length r < length s"
  using firstMatch_length secretLabels_nonempty by (simp add: matchAt_def)

text \<open>\<open>Redact\<close>: the matches are found from left to right and do not overlap\<close>

function redact :: "string \<Rightarrow> string" where
  "redact [] = []"
| "redact (c # s) =
     (case matchAt (c # s) of
        None \<Rightarrow> c # redact s
      | Some rest \<Rightarrow> redactMatch (take (length (c # s) - length rest) (c # s)) @ redact rest)"
  by pat_completeness auto
termination
  by (relation "measure length") (auto dest: matchAt_length)

section \<open>The redacted text does not depend on the secret\<close>

text \<open>
  The text is \<open>a @ c # v @ t\<close>: \<open>c\<close> is a separator, \<open>v\<close> the rest of its line and \<open>t\<close> what follows from the
  newline on. A match that starts in \<open>a\<close> either ends in \<open>a\<close>, at a newline, or covers \<open>v\<close> and ends at \<open>t\<close>;
  which one, and where, is decided by \<open>a\<close> alone. The functions below compute it from \<open>a\<close>: \<open>Some None\<close> for a
  match that covers \<open>v\<close>, \<open>Some (Some r)\<close> for one that leaves \<open>r\<close> of \<open>a\<close>.
\<close>

definition absTail :: "string \<Rightarrow> string option option" where
  "absTail a = (case dropWhile reSpace a of
       [] \<Rightarrow> Some None
     | y # r \<Rightarrow>
         if isSep y then
           let q = dropWhile reSpace r in
           if newline \<in> set q then Some (Some (dropWhile (\<lambda>c. c \<noteq> newline) q)) else Some None
         else None)"

fun absFirst :: "string list \<Rightarrow> string \<Rightarrow> string option option" where
  "absFirst [] a = None"
| "absFirst (k # ks) a =
     (case lit k a of
        None \<Rightarrow> absFirst ks a
      | Some r \<Rightarrow> (case absTail r of None \<Rightarrow> absFirst ks a | Some e \<Rightarrow> Some e))"

definition covered :: "string \<Rightarrow> string \<Rightarrow> string option \<Rightarrow> string" where
  "covered rest t e = (case e of None \<Rightarrow> t | Some r \<Rightarrow> r @ rest)"

definition lineRest :: "string \<Rightarrow> bool" where
  "lineRest t \<longleftrightarrow> t = [] \<or> hd t = newline"

text \<open>A value: one line that is not all white space\<close>

definition isValue :: "string \<Rightarrow> bool" where
  "isValue v \<longleftrightarrow> newline \<notin> set v \<and> \<not> list_all reSpace v"

lemma sep_cases: "isSep c \<Longrightarrow> c = CHR '':'' \<or> c = CHR ''=''"
  by (simp add: isSep_def)

lemma sep_simps: "isSep c \<Longrightarrow> \<not> reSpace c" "isSep c \<Longrightarrow> c \<noteq> newline" "isSep c \<Longrightarrow> lowerByte c = c"
  "isSep c \<Longrightarrow> c \<noteq> CHR 0xBF" "isSep c \<Longrightarrow> c \<noteq> CHR 0x84" "isSep c \<Longrightarrow> c \<noteq> CHR 0xAA"
  "isSep c \<Longrightarrow> c \<noteq> CHR 0xC5" "isSep c \<Longrightarrow> c \<noteq> CHR 0xE2"
  by (auto simp: isSep_def reSpace_def lowerByte_def byteIn_def)

lemma litChar_sep:
  assumes "isSep c" and "\<not> isSep x"
  shows "litChar x (a @ c # z) = map_option (\<lambda>r. r @ c # z) (litChar x a)"
proof (cases a)
  case Nil
  have "c \<noteq> x" using assms by auto
  with Nil assms sep_simps [of c] show ?thesis by (auto simp: litChar_def prefix_Cons)
next
  case (Cons y a1)
  show ?thesis
  proof (cases a1)
    case Nil
    with Cons sep_simps [OF assms(1)] show ?thesis by (auto simp: litChar_def)
  next
    case (Cons y2 a2)
    with \<open>a = y # a1\<close> sep_simps [OF assms(1)] show ?thesis
      by (cases a2) (auto simp: litChar_def)
  qed
qed

lemma lit_sep:
  "isSep c \<Longrightarrow> list_all (\<lambda>x. \<not> isSep x) k \<Longrightarrow> lit k (a @ c # z) = map_option (\<lambda>r. r @ c # z) (lit k a)"
  by (induction k arbitrary: a) (auto simp: litChar_sep split: option.split)

lemma dropWhile_sep: "isSep c \<Longrightarrow> dropWhile reSpace (a @ c # z) = dropWhile reSpace a @ c # z"
  by (induction a) (auto simp: sep_simps)

lemma dropWhile_value: "isValue v \<Longrightarrow> \<exists>q. dropWhile reSpace (v @ t) = q @ t \<and> q \<noteq> [] \<and> newline \<notin> set q"
proof (induction v)
  case (Cons x v)
  show ?case
  proof (cases "reSpace x")
    case True
    with Cons show ?thesis by (auto simp: isValue_def)
  next
    case False
    with Cons.prems show ?thesis by (intro exI [of _ "x # v"]) (auto simp: isValue_def)
  qed
qed (simp add: isValue_def)

lemma dropWhile_line: "newline \<notin> set q \<Longrightarrow> lineRest t \<Longrightarrow> dropWhile (\<lambda>c. c \<noteq> newline) (q @ t) = t"
  by (cases t) (auto simp: lineRest_def dropWhile_append3)

lemma tailMatch_sep:
  assumes "isSep c" and "isValue v" and "lineRest t"
  shows "tailMatch (a @ c # v @ t) = map_option (covered (c # v @ t) t) (absTail a)"
proof (cases "dropWhile reSpace a")
  case Nil
  obtain q where q: "dropWhile reSpace (v @ t) = q @ t" "q \<noteq> []" "newline \<notin> set q"
    using dropWhile_value [OF assms(2)] by blast
  have "dropWhile reSpace (a @ c # v @ t) = c # v @ t" using Nil dropWhile_sep [OF assms(1)] by simp
  then have "tailMatch (a @ c # v @ t) = valueEnd (v @ t)" using assms(1) by (simp add: tailMatch_def)
  also have "\<dots> = Some t" using q dropWhile_line [OF q(3) assms(3)] by (simp only: valueEnd_def Let_def) simp
  finally show ?thesis by (simp add: absTail_def covered_def Nil del: dropWhile_eq_Nil_conv)
next
  case (Cons y r)
  let ?q = "dropWhile reSpace r"
  have v: "newline \<notin> set v" using assms(2) by (simp add: isValue_def)
  have e: "dropWhile (\<lambda>c. c \<noteq> newline) (?q @ c # v @ t) =
      (if newline \<in> set ?q then dropWhile (\<lambda>c. c \<noteq> newline) ?q @ c # v @ t else t)"
    using dropWhile_line [of "?q @ c # v" t] assms(3) v sep_simps(2) [OF assms(1)]
    by (auto simp: dropWhile_append)
  have "valueEnd (r @ c # v @ t) = Some (dropWhile (\<lambda>c. c \<noteq> newline) (?q @ c # v @ t))"
    by (simp add: valueEnd_def dropWhile_sep [OF assms(1)] Let_def)
  moreover have "dropWhile reSpace (a @ c # v @ t) = y # r @ c # v @ t"
    using Cons dropWhile_sep [OF assms(1)] by simp
  ultimately show ?thesis
    using Cons e by (simp add: tailMatch_def absTail_def covered_def Let_def)
qed

lemma firstMatch_sep:
  assumes "isSep c" and "isValue v" and "lineRest t" and "\<forall>k\<in>set ks. list_all (\<lambda>x. \<not> isSep x) k"
  shows "firstMatch ks (a @ c # v @ t) = map_option (covered (c # v @ t) t) (absFirst ks a)"
  using assms(4) by (induction ks) (auto simp: lit_sep tailMatch_sep assms(1-3) split: option.split)

lemma secretLabels_plain: "\<forall>k\<in>set secretLabels. list_all (\<lambda>x. \<not> isSep x) k"
  unfolding list_all_iff [symmetric] by code_simp

lemma matchAt_sep:
  "isSep c \<Longrightarrow> isValue v \<Longrightarrow> lineRest t \<Longrightarrow>
    matchAt (a @ c # v @ t) = map_option (covered (c # v @ t) t) (absFirst secretLabels a)"
  by (simp add: matchAt_def firstMatch_sep secretLabels_plain)

subsection \<open>A match inside the prefix ends at one of its newlines\<close>

lemma litChar_suffix: "litChar x s = Some r \<Longrightarrow> suffix r s"
  by (auto simp: litChar_def suffix_drop suffix_ConsI split: list.splits if_splits)

lemma lit_suffix: "lit k s = Some r \<Longrightarrow> suffix r s"
  by (induction k arbitrary: s) (auto split: option.splits dest!: litChar_suffix intro: suffix_order.trans)

lemma absTail_inside: "absTail a = Some (Some r) \<Longrightarrow> suffix r a \<and> r \<noteq> [] \<and> hd r = newline"
proof -
  assume h: "absTail a = Some (Some r)"
  then obtain y b where y: "dropWhile reSpace a = y # b" by (cases "dropWhile reSpace a") (auto simp: absTail_def)
  let ?q = "dropWhile reSpace b"
  from h y have r: "newline \<in> set ?q" "r = dropWhile (\<lambda>c. c \<noteq> newline) ?q"
    by (auto simp: absTail_def Let_def split: if_splits)
  then have "r \<noteq> []" by (auto simp: dropWhile_eq_Nil_conv)
  moreover from this have "hd r = newline" using hd_dropWhile [of "\<lambda>c. c \<noteq> newline" ?q] r(2) by auto
  moreover have "suffix r a"
    using suffix_dropWhile [of "\<lambda>c. c \<noteq> newline" ?q] suffix_dropWhile [of reSpace b] suffix_dropWhile [of reSpace a]
    unfolding r(2) y by (meson suffix_ConsD suffix_order.trans)
  ultimately show ?thesis by blast
qed

lemma absFirst_inside: "absFirst ks a = Some (Some r) \<Longrightarrow> suffix r a \<and> r \<noteq> [] \<and> hd r = newline"
  by (induction ks) (auto split: option.splits dest!: lit_suffix absTail_inside intro: suffix_order.trans)

subsection \<open>Labels\<close>

text \<open>A spelling of one of the keywords, in any case\<close>

definition secretLabel :: "string \<Rightarrow> bool" where
  "secretLabel k \<longleftrightarrow> list_ex (\<lambda>kw. lit kw k = Some []) secretLabels"

definition blanks :: "string \<Rightarrow> bool" where
  "blanks ws \<longleftrightarrow> list_all (\<lambda>c. reSpace c \<and> c \<noteq> newline) ws"

lemma litChar_append: "litChar x s = Some r \<Longrightarrow> litChar x (s @ z) = Some (r @ z)"
  by (auto simp: litChar_def prefix_def split: list.splits if_splits)

lemma lit_append: "lit k s = Some r \<Longrightarrow> lit k (s @ z) = Some (r @ z)"
  by (induction k arbitrary: s) (auto simp: litChar_append split: option.splits)

lemma absFirst_exists: "kw \<in> set ks \<Longrightarrow> lit kw a = Some r \<Longrightarrow> absTail r \<noteq> None \<Longrightarrow> absFirst ks a \<noteq> None"
  by (induction ks) (auto split: option.split)

lemma absFirst_label: "secretLabel k \<Longrightarrow> blanks ws \<Longrightarrow> absFirst secretLabels (k @ ws) \<noteq> None"
proof -
  assume k: "secretLabel k" and w: "blanks ws"
  obtain kw where kw: "kw \<in> set secretLabels" "lit kw k = Some []"
    using k by (auto simp: secretLabel_def list_ex_iff)
  have "dropWhile reSpace ws = []" using w by (auto simp: blanks_def list_all_iff dropWhile_eq_Nil_conv)
  then have "absTail ws \<noteq> None" by (simp add: absTail_def del: dropWhile_eq_Nil_conv)
  with absFirst_exists [OF kw(1) lit_append [OF kw(2)]] show ?thesis by simp
qed

lemma litChar_newline: "litChar x s = Some r \<Longrightarrow> x \<noteq> newline \<Longrightarrow> newline \<in> set s \<Longrightarrow> newline \<in> set r"
  by (auto simp: litChar_def lowerByte_def byteIn_def prefix_def split: list.splits if_splits)

lemma lit_newline: "lit k s = Some r \<Longrightarrow> newline \<notin> set k \<Longrightarrow> newline \<in> set s \<Longrightarrow> newline \<in> set r"
  by (induction k arbitrary: s) (auto split: option.splits dest: litChar_newline)

lemma secretLabels_no_newline: "kw \<in> set secretLabels \<Longrightarrow> newline \<notin> set kw"
proof -
  have "list_all (\<lambda>k. newline \<notin> set k) secretLabels" by code_simp
  then show "kw \<in> set secretLabels \<Longrightarrow> newline \<notin> set kw" by (auto simp: list_all_iff)
qed

lemma label_facts: "secretLabel k \<Longrightarrow> newline \<notin> set k \<and> k \<noteq> []"
proof -
  assume "secretLabel k"
  then obtain kw where kw: "kw \<in> set secretLabels" "lit kw k = Some []"
    by (auto simp: secretLabel_def list_ex_iff)
  then have "kw \<noteq> []" using secretLabels_nonempty by blast
  with kw lit_newline [OF kw(2)] secretLabels_no_newline [OF kw(1)] lit_length_less [OF kw(2)] show ?thesis by auto
qed

subsection \<open>Noninterference\<close>

lemma redact_Some:
  "s \<noteq> [] \<Longrightarrow> matchAt s = Some rest \<Longrightarrow> redact s = redactMatch (take (length s - length rest) s) @ redact rest"
  by (cases s) simp_all

lemma redact_None: "matchAt (x # s) = None \<Longrightarrow> redact (x # s) = x # redact s"
  by simp

lemma redactMatch_value: "isSep c \<Longrightarrow> redactMatch (a @ c # v) = redactMatch (a @ [c])"
  by (simp add: redactMatch_def takeWhile_append)

lemma redact_cover:
  assumes "isSep c" and "isValue v" and "lineRest t" and "absFirst secretLabels a = Some None" and "a \<noteq> []"
  shows "redact (a @ c # v @ t) = redactMatch (a @ [c]) @ redact t"
proof -
  have "matchAt (a @ c # v @ t) = Some t" using assms by (simp add: matchAt_sep covered_def)
  from redact_Some [OF _ this] assms(5) have "redact (a @ c # v @ t) = redactMatch (a @ c # v) @ redact t"
    using append_eq_conv_conj [of "a @ c # v" t "a @ c # v @ t"] by simp
  with redactMatch_value [OF assms(1)] show ?thesis by simp
qed

lemma redact_inside:
  assumes "isSep c" and "isValue v" and "lineRest t" and "absFirst secretLabels a = Some (Some r)" and "a \<noteq> []"
  shows "length r < length a
    \<and> redact (a @ c # v @ t) = redactMatch (take (length a - length r) a) @ redact (r @ c # v @ t)"
proof -
  have m: "matchAt (a @ c # v @ t) = Some (r @ c # v @ t)" using assms by (simp add: matchAt_sep covered_def)
  have "length r < length a" using matchAt_length [OF m] by simp
  with redact_Some [OF _ m] assms(5) show ?thesis by simp
qed

lemma redact_indep:
  assumes "secretLabel k" and "blanks ws" and "isSep c" and "isValue v" and "isValue v'" and "lineRest t"
    and "a = a0 @ k @ ws"
  shows "redact (a @ c # v @ t) = redact (a @ c # v' @ t)"
  using assms(7)
proof (induction "length a" arbitrary: a a0 rule: less_induct)
  case less
  have ne: "a \<noteq> []" using label_facts [OF assms(1)] less.prems by simp
  consider "absFirst secretLabels a = None" | "absFirst secretLabels a = Some None"
    | r where "absFirst secretLabels a = Some (Some r)" by (metis option.exhaust)
  then show ?case
  proof cases
    case 1
    then obtain x a1 where a0: "a0 = x # a1"
      using less.prems absFirst_label [OF assms(1,2)] by (cases a0) auto
    have "matchAt (a @ c # v @ t) = None" "matchAt (a @ c # v' @ t) = None"
      using 1 assms by (simp_all add: matchAt_sep)
    with less.hyps [of "a1 @ k @ ws" a1] less.prems a0 show ?thesis by (simp add: redact_None del: redact.simps(2))
  next
    case 2
    with assms ne show ?thesis by (simp add: redact_cover)
  next
    case (3 r)
    from absFirst_inside [OF 3] have r: "suffix r a" "r \<noteq> []" "hd r = newline" by auto
    have "\<not> suffix r (k @ ws)"
    proof
      assume "suffix r (k @ ws)"
      then have "newline \<in> set (k @ ws)" using r(2,3) by (metis hd_in_set set_mono_suffix subsetD)
      then show False using label_facts [OF assms(1)] assms(2) by (auto simp: blanks_def list_all_iff)
    qed
    then obtain r0 where "r = r0 @ k @ ws"
      using suffix_same_cases [OF r(1), of "k @ ws"] less.prems by (auto simp: suffix_def)
    with redact_inside [OF assms(3,4,6) 3 ne] redact_inside [OF assms(3,5,6) 3 ne] less.hyps [of r r0]
    show ?thesis by simp
  qed
qed

lemma firstMatch_no_sep: "\<not> list_ex isSep s \<Longrightarrow> firstMatch ks s = None"
proof (induction ks)
  case (Cons k ks)
  have "tailMatch r = None" if "suffix r s" for r
  proof -
    have sub: "set (dropWhile reSpace r) \<subseteq> set s"
      using set_mono_suffix [OF that] by (auto dest: set_dropWhileD)
    have "\<forall>x\<in>set s. \<not> isSep x" using Cons.prems by (simp add: list_ex_iff)
    with sub show ?thesis by (cases "dropWhile reSpace r") (auto simp: tailMatch_def simp del: dropWhile_eq_Nil_conv)
  qed
  with Cons show ?case by (auto split: option.split dest: lit_suffix)
qed simp

text \<open>
  Property C32: redaction hides the secret. Wherever in a text a secret label stands (any spelling of a
  keyword, in any context), followed by blanks on its line, a separator and a value, the redacted text
  is the same for every other value: nothing about the value, its length included, can be read off it.
  The value may be any line that is not all white space. A text without a separator is left as it is.
\<close>

theorem redact_noninterference:
  assumes "secretLabel k" and "blanks ws" and "isSep c" and "isValue v" and "isValue v'" and "lineRest t"
  shows "redact (before @ k @ ws @ [c] @ v @ t) = redact (before @ k @ ws @ [c] @ v' @ t)
    \<and> (\<not> list_ex isSep u \<longrightarrow> redact u = u)"
proof
  show "redact (before @ k @ ws @ [c] @ v @ t) = redact (before @ k @ ws @ [c] @ v' @ t)"
    using redact_indep [OF assms refl] by simp
next
  show "\<not> list_ex isSep u \<longrightarrow> redact u = u"
    by (induction u) (auto simp: matchAt_def firstMatch_no_sep)
qed

theorem redact_noninterference_witness:
  "redact ''x Api-Key : hunter2'' = redact ''x Api-Key : y'' \<and> redact ''Reset your password'' = ''Reset your password''"
proof -
  have "secretLabel ''Api-Key''" "blanks '' ''" "isSep CHR '':''" "isValue '' hunter2''" "isValue '' y''" "lineRest []"
    by code_simp+
  from redact_noninterference [OF this, of "''x ''" "''Reset your password''"] show ?thesis
    by (simp add: isSep_def)
qed

end
