(* ===== verification/Regex.thy ===== *)
theory Regex
  imports Utf8
begin

text \<open>
  The part of Go's \<open>regexp\<close> package the repository uses: the syntax of the two patterns, what a pattern prints as,
  and leftmost-first matching over UTF-8 text. A matcher yields the ways a pattern can match at a position, in the order
  the backtracking matcher prefers them, each as the text that is left; Go returns the first.
\<close>

section \<open>Syntax\<close>

datatype classItem = Single char | Escaped char | Range char char

datatype regex =
    TextBegin | TextEnd | Lit char | Space | Dot | Class "classItem list"
  | Seq regex regex | Alt regex regex | Opt regex | Star regex | Plus regex | Group bool regex

text \<open>\<open>(?i)\<close> at the front of a pattern\<close>

record goPattern =
  foldCase :: bool
  patBody :: regex

abbreviation backslash :: char where "backslash \<equiv> CHR 0x5C"

primrec showItem :: "classItem \<Rightarrow> string" where
  "showItem (Single c) = [c]"
| "showItem (Escaped c) = [backslash, c]"
| "showItem (Range a b) = [a, CHR ''-'', b]"

primrec showRegex :: "regex \<Rightarrow> string" where
  "showRegex TextBegin = ''^''"
| "showRegex TextEnd = ''$''"
| "showRegex (Lit c) = [c]"
| "showRegex Space = [backslash, CHR ''s'']"
| "showRegex Dot = ''.''"
| "showRegex (Class is) = ''['' @ concat (map showItem is) @ '']''"
| "showRegex (Seq r s) = showRegex r @ showRegex s"
| "showRegex (Alt r s) = showRegex r @ ''|'' @ showRegex s"
| "showRegex (Opt r) = showRegex r @ ''?''"
| "showRegex (Star r) = showRegex r @ ''*''"
| "showRegex (Plus r) = showRegex r @ ''+''"
| "showRegex (Group capture r) = (if capture then ''('' else ''(?:'') @ showRegex r @ '')''"

definition showPattern :: "goPattern \<Rightarrow> string" where
  "showPattern p = (if foldCase p then ''(?i)'' else []) @ showRegex (patBody p)"

text \<open>
  The precedences of the syntax: alternation, concatenation, repetition, atom. A grammatical expression prints without
  ambiguity: it is the syntax tree of its text.
\<close>

definition metaChars :: string where
  "metaChars = backslash # ''.+*?()|[]{}^$''"

definition classChar :: "char \<Rightarrow> bool" where
  "classChar c \<longleftrightarrow> c \<notin> set (backslash # ''[]^-'')"

fun goodItem :: "classItem \<Rightarrow> bool" where
  "goodItem (Single c) = classChar c"
| "goodItem (Escaped c) = (c \<in> set (CHR ''-'' # metaChars))"
| "goodItem (Range a b) = (classChar a \<and> classChar b \<and> byte a \<le> byte b)"

primrec grammatical :: "regex \<Rightarrow> nat \<Rightarrow> bool" where
  "grammatical TextBegin p = True"
| "grammatical TextEnd p = True"
| "grammatical (Lit c) p = (c \<notin> set metaChars)"
| "grammatical Space p = True"
| "grammatical Dot p = True"
| "grammatical (Class is) p =
     (is \<noteq> [] \<and> list_all goodItem (butlast is) \<and> (goodItem (last is) \<or> last is = Single CHR ''-''))"
| "grammatical (Seq r s) p = (p \<le> 1 \<and> grammatical r 2 \<and> grammatical s 1)"
| "grammatical (Alt r s) p = (p = 0 \<and> grammatical r 1 \<and> grammatical s 0)"
| "grammatical (Opt r) p = (p \<le> 2 \<and> grammatical r 3)"
| "grammatical (Star r) p = (p \<le> 2 \<and> grammatical r 3)"
| "grammatical (Plus r) p = (p \<le> 2 \<and> grammatical r 3)"
| "grammatical (Group capture r) p = grammatical r 0"

section \<open>One rune\<close>

text \<open>The code point of a well-formed rune\<close>

definition runeValue :: "string \<Rightarrow> nat" where
  "runeValue cs = (case cs of
       [a] \<Rightarrow> byte a
     | [a, b] \<Rightarrow> (byte a - 0xC0) * 64 + (byte b - 0x80)
     | [a, b, c] \<Rightarrow> (byte a - 0xE0) * 4096 + (byte b - 0x80) * 64 + (byte c - 0x80)
     | [a, b, c, d] \<Rightarrow> (byte a - 0xF0) * 262144 + (byte b - 0x80) * 4096 + (byte c - 0x80) * 64 + (byte d - 0x80)
     | _ \<Rightarrow> 0xFFFD)"

text \<open>The width of the rune at the head of a text: a byte that begins none counts as \<open>U+FFFD\<close> of width one.\<close>

definition runeWidth :: "string \<Rightarrow> nat" where
  "runeWidth s = (if runeLen s = 0 then 1 else runeLen s)"

definition headRune :: "string \<Rightarrow> nat" where
  "headRune s = (if runeLen s = 0 then 0xFFFD else runeValue (take (runeLen s) s))"

definition runeIf :: "(nat \<Rightarrow> bool) \<Rightarrow> string \<Rightarrow> string list" where
  "runeIf P s = (if s \<noteq> [] \<and> P (headRune s) then [drop (runeWidth s) s] else [])"

text \<open>The case-folding orbit of an ASCII character (\<open>unicode.SimpleFold\<close>)\<close>

definition foldOrbit :: "char \<Rightarrow> nat list" where
  "foldOrbit c =
     (if byteIn 65 90 c then [byte c, byte c + 32]
      else if byteIn 97 122 c then [byte c, byte c - 32] else [byte c])
     @ (if c = CHR ''s'' \<or> c = CHR ''S'' then [0x17F] else [])
     @ (if c = CHR ''k'' \<or> c = CHR ''K'' then [0x212A] else [])"

text \<open>A character class, with the members' orbits under case folding\<close>

fun itemHas :: "classItem \<Rightarrow> nat \<Rightarrow> bool" where
  "itemHas (Single c) v = (v = byte c)"
| "itemHas (Escaped c) v = (v = byte c)"
| "itemHas (Range a b) v = (byte a \<le> v \<and> v \<le> byte b)"

definition classHas :: "bool \<Rightarrow> classItem list \<Rightarrow> nat \<Rightarrow> bool" where
  "classHas ci is v \<longleftrightarrow>
     list_ex (\<lambda>i. itemHas i v) is
     \<or> ci \<and> list_ex (\<lambda>n. v \<in> set (foldOrbit (char_of n)) \<and> list_ex (\<lambda>i. itemHas i n) is) [0..<128]"

section \<open>Matching\<close>

text \<open>Greedy repetition of a matcher\<close>

function starM :: "(string \<Rightarrow> string list) \<Rightarrow> string \<Rightarrow> string list" where
  "starM m s = concat (map (\<lambda>r. if length r < length s then starM m r else []) (m s)) @ [s]"
  by pat_completeness auto
termination
  by (relation "measure (\<lambda>(m, s). length s)") auto

declare starM.simps [simp del]

text \<open>\<open>n\<close> is the length of the whole text.\<close>

primrec matches :: "bool \<Rightarrow> nat \<Rightarrow> regex \<Rightarrow> string \<Rightarrow> string list" where
  "matches ci n TextBegin s = (if length s = n then [s] else [])"
| "matches ci n TextEnd s = (if s = [] then [s] else [])"
| "matches ci n (Lit c) s = runeIf (\<lambda>v. v \<in> set (if ci then foldOrbit c else [byte c])) s"
| "matches ci n Space s = runeIf (\<lambda>v. v \<in> {0x09, 0x0A, 0x0C, 0x0D, 0x20}) s"
| "matches ci n Dot s = runeIf (\<lambda>v. v \<noteq> 0x0A) s"
| "matches ci n (Class is) s = runeIf (classHas ci is) s"
| "matches ci n (Seq r1 r2) s = concat (map (matches ci n r2) (matches ci n r1 s))"
| "matches ci n (Alt r1 r2) s = matches ci n r1 s @ matches ci n r2 s"
| "matches ci n (Opt r) s = matches ci n r s @ [s]"
| "matches ci n (Star r) s = starM (matches ci n r) s"
| "matches ci n (Plus r) s = concat (map (starM (matches ci n r)) (matches ci n r s))"
| "matches ci n (Group capture r) s = matches ci n r s"

definition firstOf :: "'a list \<Rightarrow> 'a option" where
  "firstOf xs = (case xs of [] \<Rightarrow> None | x # _ \<Rightarrow> Some x)"

text \<open>The match at the head of \<open>s\<close>, a suffix of a text of length \<open>n\<close>\<close>

definition matchHead :: "goPattern \<Rightarrow> nat \<Rightarrow> string \<Rightarrow> string option" where
  "matchHead p n s = firstOf (matches (foldCase p) n (patBody p) s)"

text \<open>\<open>MatchString\<close>: the pattern matches at some rune of the text, or at its end.\<close>

function searchFrom :: "goPattern \<Rightarrow> nat \<Rightarrow> string \<Rightarrow> bool" where
  "searchFrom p n s =
     (if matchHead p n s \<noteq> None then True
      else if s = [] then False
      else searchFrom p n (drop (runeWidth s) s))"
  by pat_completeness auto
termination
  by (relation "measure (\<lambda>(p, n, s). length s)") (auto simp: runeWidth_def)

declare searchFrom.simps [simp del]

definition matchString :: "goPattern \<Rightarrow> string \<Rightarrow> bool" where
  "matchString p s = searchFrom p (length s) s"

text \<open>
  \<open>ReplaceAllStringFunc\<close> for a pattern without empty matches: the leftmost matches that do not overlap are replaced,
  every rune outside of them is copied.
\<close>

function replaceFrom :: "goPattern \<Rightarrow> (string \<Rightarrow> string) \<Rightarrow> nat \<Rightarrow> string \<Rightarrow> string" where
  "replaceFrom p f n [] = []"
| "replaceFrom p f n (c # s) =
     (case matchHead p n (c # s) of
        Some rest \<Rightarrow>
          if length rest < length (c # s)
          then f (take (length (c # s) - length rest) (c # s)) @ replaceFrom p f n rest
          else take (runeWidth (c # s)) (c # s) @ replaceFrom p f n (drop (runeWidth (c # s)) (c # s))
      | None \<Rightarrow> take (runeWidth (c # s)) (c # s) @ replaceFrom p f n (drop (runeWidth (c # s)) (c # s)))"
  by pat_completeness auto
termination
  by (relation "measure (\<lambda>(p, f, n, s). length s)") (auto simp: runeWidth_def)

declare replaceFrom.simps(2) [simp del]

definition replaceAllStringFunc :: "goPattern \<Rightarrow> string \<Rightarrow> (string \<Rightarrow> string) \<Rightarrow> string" where
  "replaceAllStringFunc p s f = replaceFrom p f (length s) s"

section \<open>Facts\<close>

lemma firstOf_simps [simp]: "firstOf [] = None" "firstOf (x # xs) = Some x"
  by (simp_all add: firstOf_def)

lemma firstOf_append: "firstOf (xs @ ys) = (case firstOf xs of None \<Rightarrow> firstOf ys | Some x \<Rightarrow> Some x)"
  by (cases xs) simp_all

lemma runeWidth_ascii: "byte c < 0x80 \<Longrightarrow> runeWidth (c # s) = 1 \<and> headRune (c # s) = byte c"
  by (simp add: runeWidth_def headRune_def runeLen_intros runeValue_def)

text \<open>Beyond ASCII: the rune is not an ASCII code point, and its bytes are all above 127.\<close>

lemma contByte_value: "contByte d \<longleftrightarrow> 0x80 \<le> byte d \<and> byte d \<le> 0xBF"
  by (simp add: contByte_def byteIn_def)

lemma char_byte: "byte c = byte d \<longleftrightarrow> c = d"
  by (rule of_char_eq_iff)

lemma secondOK_value: "secondOK c d \<Longrightarrow> 0x80 \<le> byte d \<and> byte d \<le> 0xBF \<and> (byte c = 0xE0 \<longrightarrow> 0xA0 \<le> byte d) \<and> (byte c = 0xF0 \<longrightarrow> 0x90 \<le> byte d)"
  using char_byte [of c "CHR 0xE0"] char_byte [of c "CHR 0xF0"]
  by (auto simp: secondOK_def byteIn_def contByte_def split: if_splits)

lemma headRune_high:
  assumes "0x80 \<le> byte c"
  shows "0x80 \<le> headRune (c # s) \<and> highBytes (take (runeWidth (c # s)) (c # s))"
proof (cases "runeLen (c # s) = 0")
  case True
  with assms show ?thesis by (simp add: headRune_def runeWidth_def highBytes_def)
next
  case False
  then show ?thesis
  proof (cases rule: runeLen_cases)
    case (three c' d e r)
    with secondOK_value [OF three(3)] show ?thesis
      by (auto simp: headRune_def runeWidth_def highBytes_def runeLen_intros runeValue_def byteIn_def contByte_value)
  next
    case (four c' d e f r)
    with secondOK_value [OF four(3)] show ?thesis
      by (auto simp: headRune_def runeWidth_def highBytes_def runeLen_intros runeValue_def byteIn_def contByte_value)
  qed (use assms in \<open>auto simp: headRune_def runeWidth_def highBytes_def runeLen_intros runeValue_def byteIn_def contByte_value\<close>)
qed

text \<open>The three bytes classes of the pattern matchers: a set of ASCII characters, and the two letters with orbits beyond\<close>

lemma runeIf_ascii:
  assumes "\<And>v. P v \<Longrightarrow> v < 0x80"
  shows "runeIf P s = (case s of [] \<Rightarrow> [] | c # r \<Rightarrow> if P (byte c) then [r] else [])"
proof (cases s)
  case (Cons c r)
  show ?thesis
  proof (cases "byte c < 0x80")
    case True
    with runeWidth_ascii [OF this, of r] Cons show ?thesis by (simp add: runeIf_def)
  next
    case False
    with headRune_high [of c r] assms Cons show ?thesis by (fastforce simp: runeIf_def)
  qed
qed (simp add: runeIf_def)

lemma starM_none: "m s = [] \<Longrightarrow> starM m s = [s]"
  by (simp add: starM.simps [of m s])

lemma starM_one: "m s = [r] \<Longrightarrow> length r < length s \<Longrightarrow> starM m s = starM m r @ [s]"
  by (simp add: starM.simps [of m s])

text \<open>The two runes beyond ASCII that fold to a letter of a keyword\<close>

lemma headRune_values:
  assumes "0x80 \<le> byte c"
  shows "headRune (c # s) = 0x17F \<longleftrightarrow> c = CHR 0xC5 \<and> (\<exists>r. s = CHR 0xBF # r)"
    and "headRune (c # s) = 0x212A \<longleftrightarrow> c = CHR 0xE2 \<and> (\<exists>r. s = CHR 0x84 # CHR 0xAA # r)"
proof -
  have C: "runeLen (CHR 0xC5 # CHR 0xBF # r) = 2" "runeLen (CHR 0xE2 # CHR 0x84 # CHR 0xAA # r) = 3" for r
    by (simp_all add: runeLen_def byteIn_def contByte_def secondOK_def)
  have V: "headRune (CHR 0xC5 # CHR 0xBF # r) = 0x17F" "headRune (CHR 0xE2 # CHR 0x84 # CHR 0xAA # r) = 0x212A" for r
    by (simp_all add: headRune_def C runeValue_def numeral_2_eq_2 numeral_3_eq_3)
  have "headRune (c # s) = 0x17F \<Longrightarrow> c = CHR 0xC5 \<and> (\<exists>r. s = CHR 0xBF # r)"
    and "headRune (c # s) = 0x212A \<Longrightarrow> c = CHR 0xE2 \<and> (\<exists>r. s = CHR 0x84 # CHR 0xAA # r)"
  proof -
    show "c = CHR 0xC5 \<and> (\<exists>r. s = CHR 0xBF # r)" if h: "headRune (c # s) = 0x17F"
    proof (cases "runeLen (c # s) = 0")
      case False
      then show ?thesis
      proof (cases rule: runeLen_cases)
        case (two c' d r)
        then have v: "(byte c - 0xC0) * 64 + (byte d - 0x80) = 0x17F" "0xC2 \<le> byte c" "0x80 \<le> byte d" "byte d \<le> 0xBF"
          using h by (simp_all add: headRune_def runeLen_intros runeValue_def byteIn_def contByte_value numeral_2_eq_2)
        then have "byte c - 0xC0 = 5" by linarith
        with v have "byte c = 0xC5 \<and> byte d = 0xBF" by linarith
        with two char_byte [of c "CHR 0xC5"] char_byte [of d "CHR 0xBF"] show ?thesis by auto
      next
        case (three c' d e r)
        with secondOK_value [OF three(3)] h show ?thesis
          by (auto simp: headRune_def runeLen_intros runeValue_def byteIn_def contByte_value numeral_3_eq_3)
      next
        case (four c' d e f r)
        with secondOK_value [OF four(3)] h show ?thesis
          by (auto simp: headRune_def runeLen_intros runeValue_def byteIn_def contByte_value)
      qed (use assms in simp)
    qed (use h in \<open>simp add: headRune_def\<close>)
    show "c = CHR 0xE2 \<and> (\<exists>r. s = CHR 0x84 # CHR 0xAA # r)" if h: "headRune (c # s) = 0x212A"
    proof (cases "runeLen (c # s) = 0")
      case False
      then show ?thesis
      proof (cases rule: runeLen_cases)
        case (two c' d r)
        then show ?thesis
          using h by (auto simp: headRune_def runeLen_intros runeValue_def byteIn_def contByte_value numeral_2_eq_2)
      next
        case (three c' d e r)
        then have v: "(byte c - 0xE0) * 4096 + (byte d - 0x80) * 64 + (byte e - 0x80) = 0x212A"
            "0xE0 \<le> byte c" "0x80 \<le> byte d" "byte d \<le> 0xBF" "0x80 \<le> byte e" "byte e \<le> 0xBF"
          using h secondOK_value [OF three(3)]
          by (simp_all add: headRune_def runeLen_intros runeValue_def byteIn_def contByte_value numeral_3_eq_3)
        then have c: "byte c - 0xE0 = 2" by linarith
        with v have d: "byte d - 0x80 = 4" by linarith
        have "byte c = 0xE2 \<and> byte d = 0x84 \<and> byte e = 0xAA" using v c d by linarith
        with three char_byte [of c "CHR 0xE2"] char_byte [of d "CHR 0x84"] char_byte [of e "CHR 0xAA"] show ?thesis by auto
      next
        case (four c' d e f r)
        with secondOK_value [OF four(3)] h show ?thesis
          by (auto simp: headRune_def runeLen_intros runeValue_def byteIn_def contByte_value)
      qed (use assms in simp)
    qed (use h in \<open>simp add: headRune_def\<close>)
  qed
  with V show "headRune (c # s) = 0x17F \<longleftrightarrow> c = CHR 0xC5 \<and> (\<exists>r. s = CHR 0xBF # r)"
    and "headRune (c # s) = 0x212A \<longleftrightarrow> c = CHR 0xE2 \<and> (\<exists>r. s = CHR 0x84 # CHR 0xAA # r)" by blast+
qed

end
