(* ===== verification/RedactRegex.thy ===== *)
theory RedactRegex
  imports Redact Exec Regex
begin

text \<open>
  The patterns of the repository as syntax trees, which print as the source's pattern strings, and the equivalence of
  the direct matchers of \<open>Redact\<close> and \<open>Exec\<close> with Go's leftmost-first matching of these trees.
\<close>

section \<open>The trees\<close>

definition alts :: "regex list \<Rightarrow> regex" where
  "alts rs = foldr Alt (butlast rs) (last rs)"

definition seqs :: "regex list \<Rightarrow> regex" where
  "seqs rs = foldr Seq (butlast rs) (last rs)"

definition wordTree :: "string \<Rightarrow> regex" where
  "wordTree s = seqs (map Lit s)"

text \<open>\<open>password|passwd|...|authorization\<close>\<close>

definition labelTree :: regex where
  "labelTree = alts
     [wordTree ''password'', wordTree ''passwd'', wordTree ''token'', wordTree ''secret'', wordTree ''bearer'',
      seqs (map Lit ''api'' @ [Opt (Class [Single CHR ''_'', Single CHR ''-''])] @ map Lit ''key''),
      seqs (map Lit ''aws_'' @
        [Group False (alts
           [seqs (map Lit ''access_key'' @ [Opt (Group False (wordTree ''_id''))]),
            seqs (map Lit ''secret_'' @ [Opt (Group False (wordTree ''access_''))] @ map Lit ''key''
              @ [Opt (Group False (wordTree ''_id''))]),
            wordTree ''session_token''])]),
      wordTree ''authorization'']"

definition tailTree :: regex where
  "tailTree = seqs [Star Space, Class [Single CHR '':'', Single CHR ''=''], Star Space, Plus Dot]"

text \<open>\<open>var pattern = regexp.MustCompile(RedactionPattern)\<close>\<close>

definition redactionPattern :: goPattern where
  "redactionPattern = \<lparr>foldCase = True, patBody = Seq (Group True labelTree) tailTree\<rparr>"

definition redactionPatternText :: string where
  "redactionPatternText =
     ''(?i)(password|passwd|token|secret|bearer|api[_-]?key|aws_(?:access_key(?:_id)?|secret_(?:access_)?key(?:_id)?|session_token)|authorization)''
     @ [backslash] @ ''s*[:=]'' @ [backslash] @ ''s*.+''"

text \<open>\<open>UntrustedArgRE\<close>\<close>

definition untrustedTree :: goPattern where
  "untrustedTree = \<lparr>foldCase = False, patBody = seqs
     [TextBegin,
      Plus (Class [Range CHR ''A'' CHR ''Z'', Range CHR ''a'' CHR ''z'', Range CHR ''0'' CHR ''9'', Single CHR ''.'',
        Single CHR ''_'', Escaped CHR ''-'', Single CHR ''/'', Single CHR ''+'', Single CHR '':'', Single CHR ''='',
        Single CHR '','', Single CHR ''@'']),
      TextEnd]\<rparr>"

lemma pattern_syntax:
  "showPattern redactionPattern = redactionPatternText" "grammatical (patBody redactionPattern) 0"
  "showPattern untrustedTree = untrustedPattern" "grammatical (patBody untrustedTree) 0"
  by code_simp+

section \<open>The labels\<close>

definition fromOption :: "'a option \<Rightarrow> 'a list" where
  "fromOption z = (case z of None \<Rightarrow> [] | Some x \<Rightarrow> [x])"

text \<open>The ways a list of spellings matches, in its order\<close>

definition hits :: "string list \<Rightarrow> string \<Rightarrow> string list" where
  "hits ks s = concat (map (\<lambda>k. fromOption (lit k s)) ks)"

definition lowerCase :: "char \<Rightarrow> bool" where
  "lowerCase c \<longleftrightarrow> byte c < 0x80 \<and> \<not> byteIn 65 90 c"

lemma lowerByte_lowerCase:
  assumes "lowerCase c" "byte x < 0x80"
  shows "byte x \<in> set (foldOrbit c) \<longleftrightarrow> lowerByte x = c"
proof -
  have "lowerByte x = c \<longleftrightarrow> byte (lowerByte x) = byte c" by (simp add: char_byte)
  also have "\<dots> \<longleftrightarrow> (if byteIn 65 90 x then byte x + 32 else byte x) = byte c"
    by (auto simp: lowerByte_def byteIn_def)
  finally show ?thesis using assms by (auto simp: foldOrbit_def lowerCase_def byteIn_def)
qed

lemma litChar_ascii: "byte x < 0x80 \<Longrightarrow> litChar c (x # r) = (if lowerByte x = c then Some r else None)"
  by (auto simp: litChar_def)

lemma lit_tree:
  assumes "lowerCase c"
  shows "matches True n (Lit c) s = fromOption (litChar c s)"
proof (cases s)
  case (Cons x r)
  show ?thesis
  proof (cases "byte x < 0x80")
    case True
    with lowerByte_lowerCase [OF assms True] runeWidth_ascii [OF True, of r] Cons show ?thesis
      by (simp add: runeIf_def litChar_ascii fromOption_def)
  next
    case False
    then have x: "0x80 \<le> byte x" "lowerByte x = x" "x \<noteq> c"
      using assms by (auto simp: lowerByte_def byteIn_def lowerCase_def)
    have "headRune (x # r) \<in> set (foldOrbit c) \<longleftrightarrow>
        (c = CHR ''s'' \<and> headRune (x # r) = 0x17F) \<or> (c = CHR ''k'' \<and> headRune (x # r) = 0x212A)"
      using headRune_high [OF x(1), of r] assms by (auto simp: foldOrbit_def lowerCase_def byteIn_def)
    then show ?thesis using Cons x(2,3)
      by (auto simp: runeIf_def litChar_def fromOption_def headRune_values [OF x(1)] prefix_def runeWidth_def runeLen_def
          byteIn_def contByte_def secondOK_def)
  qed
qed (simp add: runeIf_def litChar_def fromOption_def)

lemma fromOption_simps [simp]: "fromOption None = []" "fromOption (Some x) = [x]"
  by (simp_all add: fromOption_def)

lemma lit_append_labels: "lit (a @ b) s = (case lit a s of None \<Rightarrow> None | Some r \<Rightarrow> lit b r)"
  by (induction a arbitrary: s) (auto split: option.split)

lemma hits_append [simp]: "hits (a @ b) s = hits a s @ hits b s"
  by (simp add: hits_def)

lemma hits_prefix: "hits (map ((@) k) ks) s = (case lit k s of None \<Rightarrow> [] | Some r \<Rightarrow> hits ks r)"
  by (induction ks) (auto simp: hits_def lit_append_labels split: option.split)

lemma hits_cat: "hits (catStrings a b) s = concat (map (hits b) (hits a s))"
proof (induction a)
  case (Cons x a)
  have "hits (catStrings (x # a) b) s = hits (map ((@) x) b) s @ hits (catStrings a b) s"
    by (simp add: catStrings_def)
  with Cons show ?case by (auto simp: hits_prefix hits_def [of "x # a"] hits_def [of a] split: option.split)
qed (simp add: hits_def catStrings_def)

lemma hits_optional: "hits (optional x) s = hits [x] s @ [s]"
  by (simp add: hits_def optional_def)

lemma seqs_Cons: "rs \<noteq> [] \<Longrightarrow> seqs (r # rs) = Seq r (seqs rs)"
  by (simp add: seqs_def)

lemma alts_Cons: "rs \<noteq> [] \<Longrightarrow> alts (r # rs) = Alt r (alts rs)"
  by (simp add: alts_def)

lemma seqs_one: "seqs [r] = r" "alts [r] = r"
  by (simp_all add: seqs_def alts_def)

lemma matches_alts: "rs \<noteq> [] \<Longrightarrow> matches ci n (alts rs) s = concat (map (\<lambda>r. matches ci n r s) rs)"
proof (induction rs rule: list_nonempty_induct)
  case (cons x xs)
  then show ?case by (simp add: alts_Cons)
qed (simp add: seqs_one)

lemma hits_one: "hits [k] s = fromOption (lit k s)"
  by (simp add: hits_def)

lemma matches_word_seq:
  "list_all lowerCase w \<Longrightarrow> rs \<noteq> [] \<Longrightarrow>
     matches True n (seqs (map Lit w @ rs)) s = concat (map (matches True n (seqs rs)) (hits [w] s))"
proof (induction w arbitrary: s)
  case (Cons c w)
  then have ne: "map Lit w @ rs \<noteq> []" by simp
  from Cons show ?case
    by (cases "litChar c s") (simp_all add: seqs_Cons [OF ne] lit_tree hits_one del: matches.simps(3))
qed (simp add: hits_one)

lemma matches_word: "list_all lowerCase w \<Longrightarrow> w \<noteq> [] \<Longrightarrow> matches True n (wordTree w) s = hits [w] s"
proof (induction w arbitrary: s)
  case (Cons c w)
  show ?case
  proof (cases "w = []")
    case True
    with Cons.prems show ?thesis
      by (cases "litChar c s") (simp_all add: wordTree_def seqs_one lit_tree hits_one del: matches.simps(3))
  next
    case False
    then have "wordTree (c # w) = Seq (Lit c) (wordTree w)" by (simp add: wordTree_def seqs_Cons)
    with Cons False show ?thesis by (cases "litChar c s") (simp_all add: lit_tree hits_one del: matches.simps(3))
  qed
qed simp

lemma classHas_plain:
  assumes "foldOrbit a = [byte a]" "foldOrbit b = [byte b]" "byte a < 128" "byte b < 128"
  shows "classHas ci [Single a, Single b] v \<longleftrightarrow> v = byte a \<or> v = byte b"
proof -
  have "list_ex (\<lambda>m. v \<in> set (foldOrbit (char_of m)) \<and> (m = byte a \<or> m = byte b)) [0..<128] \<Longrightarrow> v = byte a \<or> v = byte b"
    using assms by (auto simp: list_ex_iff)
  then show ?thesis by (auto simp: classHas_def)
qed

lemma lowerByte_fixed: "byte c < 0x80 \<Longrightarrow> \<not> byteIn 65 90 c \<Longrightarrow> \<not> byteIn 97 122 c \<Longrightarrow> lowerByte x = c \<longleftrightarrow> x = c"
proof -
  assume c: "byte c < 0x80" "\<not> byteIn 65 90 c" "\<not> byteIn 97 122 c"
  have "lowerByte x = c \<longleftrightarrow> byte (lowerByte x) = byte c" by (simp add: char_byte)
  also have "\<dots> \<longleftrightarrow> (if byteIn 65 90 x then byte x + 32 else byte x) = byte c"
    by (auto simp: lowerByte_def byteIn_def)
  also have "\<dots> \<longleftrightarrow> byte x = byte c" using c by (auto simp: byteIn_def)
  finally show ?thesis by (simp add: char_byte)
qed

lemma dash_class: "matches True n (Class [Single CHR ''_'', Single CHR ''-'']) s = hits [''_'', ''-''] s"
proof -
  let ?P = "\<lambda>v. v = byte CHR ''_'' \<or> v = byte CHR ''-''"
  have "classHas True [Single CHR ''_'', Single CHR ''-''] = ?P"
    by (rule ext, rule classHas_plain) (simp_all add: foldOrbit_def byteIn_def)
  moreover have "runeIf ?P s = (case s of [] \<Rightarrow> [] | c # r \<Rightarrow> if ?P (byte c) then [r] else [])"
    by (rule runeIf_ascii) auto
  ultimately have "matches True n (Class [Single CHR ''_'', Single CHR ''-'']) s =
      (case s of [] \<Rightarrow> [] | c # r \<Rightarrow> if ?P (byte c) then [r] else [])" by simp
  also have "\<dots> = hits [''_'', ''-''] s"
    using char_byte [of _ "CHR ''_''"] char_byte [of _ "CHR ''-''"] lowerByte_fixed [of "CHR ''_''"] lowerByte_fixed [of "CHR ''-''"]
    by (auto simp: hits_def litChar_def byteIn_def split: list.split)
  finally show ?thesis .
qed

text \<open>The expansion of the labels is the order in which the tree's alternatives are tried.\<close>

lemma hits_Cons: "ks \<noteq> [] \<Longrightarrow> hits (k # ks) s = hits [k] s @ hits ks s"
  by (simp add: hits_def)

lemmas lower_simps = lowerCase_def byteIn_def

lemma hits_concat: "concat (map (hits b) (hits a s)) = hits (catStrings a b) s"
  by (simp only: hits_cat)

lemma matches_seq_cat:
  assumes "list_all lowerCase w" "rs \<noteq> []" "\<And>s. matches True n (seqs rs) s = hits ks s"
  shows "matches True n (seqs (map Lit w @ rs)) s = hits (catStrings [w] ks) s"
proof -
  have "matches True n (seqs rs) = hits ks" using assms(3) by (rule ext)
  with matches_word_seq [OF assms(1,2)] show ?thesis by (simp only: hits_cat)
qed

lemma matches_opt: "(\<And>s. matches ci n r s = hits ks s) \<Longrightarrow> matches ci n (Opt r) s = hits (ks @ [[]]) s"
  by (simp add: hits_one)

lemma matches_seq: "(\<And>s. matches ci n r s = hits a s) \<Longrightarrow> (\<And>s. matches ci n r' s = hits b s) \<Longrightarrow>
    matches ci n (Seq r r') s = hits (catStrings a b) s"
proof -
  assume a: "\<And>s. matches ci n r s = hits a s" and b: "\<And>s. matches ci n r' s = hits b s"
  from b have "matches ci n r' = hits b" by (rule ext)
  with a show ?thesis by (simp add: hits_cat)
qed

lemma word_seqs: "seqs (map Lit w) = wordTree w"
  by (simp add: wordTree_def)

lemma api_tree: "matches True n (seqs (map Lit ''api'' @ [Opt (Class [Single CHR ''_'', Single CHR ''-''])] @ map Lit ''key'')) s
    = hits (catStrings [''api''] (catStrings [''_'', ''-'', []] [''key''])) s"
proof (rule matches_seq_cat)
  fix s
  have "seqs ([Opt (Class [Single CHR ''_'', Single CHR ''-''])] @ map Lit ''key'')
      = Seq (Opt (Class [Single CHR ''_'', Single CHR ''-''])) (wordTree ''key'')"
    by (simp add: seqs_Cons wordTree_def)
  moreover have "matches True n (wordTree ''key'') s = hits [''key''] s" for s
    by (rule matches_word) (simp_all add: lower_simps)
  moreover have "matches True n (Opt (Class [Single CHR ''_'', Single CHR ''-''])) s = hits [''_'', ''-'', []] s" for s
    using matches_opt [OF dash_class] by simp
  ultimately show "matches True n (seqs ([Opt (Class [Single CHR ''_'', Single CHR ''-''])] @ map Lit ''key'')) s
      = hits (catStrings [''_'', ''-'', []] [''key'']) s"
    by (simp only: matches_seq)
qed (simp_all add: lower_simps)

lemma optional_tree: "list_all lowerCase w \<Longrightarrow> w \<noteq> [] \<Longrightarrow> matches True n (Opt (Group False (wordTree w))) s = hits [w, []] s"
  using matches_opt [of True n "Group False (wordTree w)" "[w]"] matches_word [of w n] by simp

lemma access_tree: "matches True n (seqs (map Lit ''access_key'' @ [Opt (Group False (wordTree ''_id''))])) s
    = hits (catStrings [''access_key''] [''_id'', []]) s"
proof (rule matches_seq_cat)
  show "matches True n (seqs [Opt (Group False (wordTree ''_id''))]) s = hits [''_id'', []] s" for s
    unfolding seqs_one by (rule optional_tree) (simp_all add: lower_simps)
qed (simp_all add: lower_simps)

lemma secret_tree: "matches True n (seqs (map Lit ''secret_'' @ [Opt (Group False (wordTree ''access_''))] @ map Lit ''key''
      @ [Opt (Group False (wordTree ''_id''))])) s
    = hits (catStrings [''secret_''] (catStrings [''access_'', []] (catStrings [''key''] [''_id'', []]))) s"
proof (rule matches_seq_cat)
  fix s
  let ?K = "seqs (map Lit ''key'' @ [Opt (Group False (wordTree ''_id''))])"
  have K: "matches True n ?K s = hits (catStrings [''key''] [''_id'', []]) s" for s
  proof (rule matches_seq_cat)
    show "matches True n (seqs [Opt (Group False (wordTree ''_id''))]) s = hits [''_id'', []] s" for s
      unfolding seqs_one by (rule optional_tree) (simp_all add: lower_simps)
  qed (simp_all add: lower_simps)
  have "seqs ([Opt (Group False (wordTree ''access_''))] @ map Lit ''key'' @ [Opt (Group False (wordTree ''_id''))])
      = Seq (Opt (Group False (wordTree ''access_''))) ?K"
    by (simp add: seqs_Cons)
  moreover have "matches True n (Opt (Group False (wordTree ''access_''))) s = hits [''access_'', []] s" for s
    by (rule optional_tree) (simp_all add: lower_simps)
  ultimately show "matches True n (seqs ([Opt (Group False (wordTree ''access_''))] @ map Lit ''key'' @ [Opt (Group False (wordTree ''_id''))])) s
      = hits (catStrings [''access_'', []] (catStrings [''key''] [''_id'', []])) s"
    using K by (simp only: matches_seq)
qed (simp_all add: lower_simps)

lemma matches_alt_list: "rs \<noteq> [] \<Longrightarrow> list_all2 (\<lambda>r ks. \<forall>s. matches ci n r s = hits ks s) rs kss \<Longrightarrow>
    matches ci n (alts rs) s = hits (concat kss) s"
proof -
  assume ne: "rs \<noteq> []" and all: "list_all2 (\<lambda>r ks. \<forall>s. matches ci n r s = hits ks s) rs kss"
  from all have "concat (map (\<lambda>r. matches ci n r s) rs) = hits (concat kss) s"
  proof (induction rule: list_all2_induct)
    case Nil
    show ?case by (simp add: hits_def)
  qed simp
  with matches_alts [OF ne] show ?thesis by simp
qed

lemma word_hits: "list_all lowerCase w \<Longrightarrow> w \<noteq> [] \<Longrightarrow> \<forall>s. matches True n (wordTree w) s = hits [w] s"
  by (simp add: matches_word)

text \<open>The expansion of the labels is the order in which the tree's alternatives are tried.\<close>

lemma aws_tree: "matches True n (seqs (map Lit ''aws_'' @
        [Group False (alts
           [seqs (map Lit ''access_key'' @ [Opt (Group False (wordTree ''_id''))]),
            seqs (map Lit ''secret_'' @ [Opt (Group False (wordTree ''access_''))] @ map Lit ''key''
              @ [Opt (Group False (wordTree ''_id''))]),
            wordTree ''session_token''])])) s
    = hits (catStrings [''aws_''] (concat [catStrings [''access_key''] [''_id'', []],
        catStrings [''secret_''] (catStrings [''access_'', []] (catStrings [''key''] [''_id'', []])), [''session_token'']])) s"
proof (rule matches_seq_cat)
  fix s
  show "matches True n (seqs [Group False (alts
           [seqs (map Lit ''access_key'' @ [Opt (Group False (wordTree ''_id''))]),
            seqs (map Lit ''secret_'' @ [Opt (Group False (wordTree ''access_''))] @ map Lit ''key''
              @ [Opt (Group False (wordTree ''_id''))]),
            wordTree ''session_token''])]) s
    = hits (concat [catStrings [''access_key''] [''_id'', []],
        catStrings [''secret_''] (catStrings [''access_'', []] (catStrings [''key''] [''_id'', []])), [''session_token'']]) s"
    unfolding seqs_one matches.simps
    by (rule matches_alt_list)
      (simp_all only: list.rel_inject access_tree secret_tree word_hits, simp_all add: word_hits lower_simps)
qed (simp_all add: lower_simps)

lemma labels_tree: "matches True n labelTree s = hits secretLabels s"
proof -
  let ?aws = "catStrings [''aws_''] (concat [catStrings [''access_key''] [''_id'', []],
      catStrings [''secret_''] (catStrings [''access_'', []] (catStrings [''key''] [''_id'', []])), [''session_token'']])"
  let ?kss = "[[''password''], [''passwd''], [''token''], [''secret''], [''bearer''],
      catStrings [''api''] (catStrings [''_'', ''-'', []] [''key'']), ?aws, [''authorization'']]"
  have "matches True n labelTree s = hits (concat ?kss) s"
    unfolding labelTree_def
    by (rule matches_alt_list)
      (simp_all only: list.rel_inject api_tree aws_tree word_hits, simp_all add: word_hits lower_simps)
  also have "concat ?kss = secretLabels" by code_simp
  finally show ?thesis .
qed

section \<open>The tail\<close>

lemma runeIf_space: "runeIf (\<lambda>v. v \<in> {0x09, 0x0A, 0x0C, 0x0D, 0x20}) s =
    (case s of [] \<Rightarrow> [] | c # r \<Rightarrow> if reSpace c then [r] else [])"
proof -
  have "byte c \<in> {0x09, 0x0A, 0x0C, 0x0D, 0x20} \<longleftrightarrow> reSpace c" for c
    using char_byte [of c "CHR 0x20"] char_byte [of c "CHR 0x09"] char_byte [of c "CHR 0x0A"] char_byte [of c "CHR 0x0C"]
      char_byte [of c "CHR 0x0D"] by (auto simp: reSpace_def)
  moreover have "runeIf (\<lambda>v. v \<in> {0x09, 0x0A, 0x0C, 0x0D, 0x20}) s =
      (case s of [] \<Rightarrow> [] | c # r \<Rightarrow> if byte c \<in> {0x09, 0x0A, 0x0C, 0x0D, 0x20} then [r] else [])"
    by (rule runeIf_ascii) auto
  ultimately show ?thesis by (simp only:)
qed

lemma runeIf_sep: "matches ci n (Class [Single CHR '':'', Single CHR ''='']) s =
    (case s of [] \<Rightarrow> [] | c # r \<Rightarrow> if isSep c then [r] else [])"
proof -
  let ?P = "\<lambda>v. v = byte CHR '':'' \<or> v = byte CHR ''=''"
  have "classHas ci [Single CHR '':'', Single CHR ''=''] = ?P"
    by (rule ext, rule classHas_plain) (simp_all add: foldOrbit_def byteIn_def)
  moreover have "runeIf ?P s = (case s of [] \<Rightarrow> [] | c # r \<Rightarrow> if ?P (byte c) then [r] else [])"
    by (rule runeIf_ascii) auto
  moreover have "?P (byte c) \<longleftrightarrow> isSep c" for c
    using char_byte [of c "CHR '':''"] char_byte [of c "CHR ''=''"] by (auto simp: isSep_def)
  ultimately show ?thesis by (simp only: matches.simps)
qed

text \<open>\<open>\s*\<close> yields the text after every run of leading white space, the longest first.\<close>

lemma star_space: "starM (matches ci n Space) s =
    (case s of [] \<Rightarrow> [[]] | c # r \<Rightarrow> if reSpace c then starM (matches ci n Space) r @ [s] else [s])"
proof (cases s)
  case (Cons c r)
  show ?thesis
  proof (cases "reSpace c")
    case True
    with Cons have "matches ci n Space s = [r]" by (simp add: runeIf_space del: insert_iff)
    with starM_one [of "matches ci n Space" s r] Cons True show ?thesis by simp
  next
    case False
    with Cons have "matches ci n Space s = []" by (simp add: runeIf_space del: insert_iff)
    with starM_none [of "matches ci n Space" s] Cons False show ?thesis by simp
  qed
qed (simp add: starM_none runeIf_def)

lemma star_space_first:
  "firstOf (concat (map g (starM (matches ci n Space) s))) =
     (case s of [] \<Rightarrow> firstOf (g [])
      | c # r \<Rightarrow> if reSpace c
          then (case firstOf (concat (map g (starM (matches ci n Space) r))) of None \<Rightarrow> firstOf (g s) | Some x \<Rightarrow> Some x)
          else firstOf (g s))"
  by (subst star_space) (auto simp: firstOf_append split: list.split)

text \<open>\<open>.*\<close> prefers the whole rest of the line.\<close>

lemma dot_head: "c \<noteq> newline \<Longrightarrow>
    matches ci n Dot (c # s) = [drop (runeWidth (c # s)) (c # s)] \<and> newline \<notin> set (take (runeWidth (c # s)) (c # s))"
proof (cases "byte c < 0x80")
  case True
  assume "c \<noteq> newline"
  then have "byte c \<noteq> byte newline" using char_byte [of c newline] by blast
  with runeWidth_ascii [OF True, of s] \<open>c \<noteq> newline\<close> show ?thesis by (simp add: runeIf_def)
next
  case False
  then have "0x80 \<le> headRune (c # s)" "highBytes (take (runeWidth (c # s)) (c # s))"
    using headRune_high [of c s] by simp_all
  then show ?thesis by (auto simp: runeIf_def highBytes_def list_all_iff)
qed

lemma dot_newline: "matches ci n Dot (newline # s) = []" "matches ci n Dot [] = []"
  using runeWidth_ascii [of newline s] by (simp_all add: runeIf_def)

lemma dropWhile_drop: "\<forall>x\<in>set (take k s). P x \<Longrightarrow> dropWhile P (drop k s) = dropWhile P s"
  by (metis append_take_drop_id dropWhile_append2)

lemma star_dot: "firstOf (starM (matches ci n Dot) s) = Some (dropWhile (\<lambda>c. c \<noteq> newline) s)"
proof (induction s rule: measure_induct_rule [where f = length])
  case (less s)
  show ?case
  proof (cases s)
    case Nil
    then show ?thesis by (simp add: starM_none dot_newline del: matches.simps)
  next
    case (Cons c r)
    show ?thesis
    proof (cases "c = newline")
      case True
      with Cons show ?thesis by (simp add: starM_none dot_newline del: matches.simps)
    next
      case False
      let ?d = "drop (runeWidth s) s"
      from dot_head [OF False, of ci n r] Cons
      have d: "matches ci n Dot s = [?d]" "newline \<notin> set (take (runeWidth s) s)" by simp_all
      have "length ?d < length s" using Cons by (simp add: runeWidth_def)
      with less [of ?d] starM_one [of "matches ci n Dot" s ?d, OF d(1)] dropWhile_drop [of "runeWidth s" s "\<lambda>c. c \<noteq> newline"] d(2)
      show ?thesis by (auto simp: firstOf_append simp del: matches.simps)
    qed
  qed
qed

lemma plus_dot: "firstOf (matches ci n (Plus Dot) s) =
    (if s = [] \<or> hd s = newline then None else Some (dropWhile (\<lambda>c. c \<noteq> newline) s))"
proof (cases s)
  case (Cons c r)
  show ?thesis
  proof (cases "c = newline")
    case False
    from dot_head [OF False, of ci n r] Cons
    have d: "matches ci n Dot s = [drop (runeWidth s) s]" "newline \<notin> set (take (runeWidth s) s)" by simp_all
    with star_dot [of ci n "drop (runeWidth s) s"] dropWhile_drop [of "runeWidth s" s "\<lambda>c. c \<noteq> newline"] False Cons
    show ?thesis by (auto simp del: matches.simps(5))
  qed (use Cons in \<open>simp add: dot_newline del: matches.simps(5)\<close>)
qed (simp add: dot_newline del: matches.simps(5))

lemma valueEnd_nil: "valueEnd [] = None"
  by (simp add: valueEnd_def)

lemma all_newlines: "list_all (\<lambda>c. c = newline) s \<Longrightarrow> takeWhile (\<lambda>c. c = newline) (rev s) = rev s"
  by (simp add: list_all_iff)

lemma valueEnd_Cons:
  "valueEnd (c # s) = (if reSpace c
      then (case valueEnd s of None \<Rightarrow> if c = newline then None else Some s | Some x \<Rightarrow> Some x)
      else Some (dropWhile (\<lambda>c. c \<noteq> newline) (c # s)))"
proof (cases "reSpace c")
  case True
  consider (visible) "dropWhile reSpace s \<noteq> []" | (newlines) "dropWhile reSpace s = []" "list_all (\<lambda>c. c = newline) s"
    | (blank) x where "dropWhile reSpace s = []" "x \<in> set (rev s)" "x \<noteq> newline"
    by (auto simp: list_all_iff simp del: dropWhile_eq_Nil_conv)
  then show ?thesis
  proof cases
    case visible
    with True show ?thesis by (simp add: valueEnd_def Let_def del: dropWhile_eq_Nil_conv)
  next
    case newlines
    then have "takeWhile (\<lambda>c. c = newline) (rev s @ [c]) = (if c = newline then rev s @ [c] else rev s)"
      by (simp add: list_all_iff takeWhile_append)
    with newlines True show ?thesis by (simp add: valueEnd_def Let_def del: dropWhile_eq_Nil_conv)
  next
    case blank
    then have "takeWhile (\<lambda>c. c = newline) (rev s @ [c]) = takeWhile (\<lambda>c. c = newline) (rev s)"
      by (intro takeWhile_append1)
    moreover have "\<not> list_all (\<lambda>c. c = newline) s" using blank by (auto simp: list_all_iff)
    ultimately show ?thesis using blank(1) True by (simp add: valueEnd_def Let_def del: dropWhile_eq_Nil_conv)
  qed
qed (simp add: valueEnd_def Let_def)

lemma value_tree: "firstOf (concat (map (matches ci n (Plus Dot)) (starM (matches ci n Space) s))) = valueEnd s"
proof (induction s)
  case Nil
  show ?case by (subst star_space_first) (simp add: valueEnd_nil plus_dot del: matches.simps)
next
  case (Cons c s)
  have "dropWhile (\<lambda>c. c \<noteq> newline) s = s" if "valueEnd s = None"
    using that by (cases s) (auto simp: valueEnd_def Let_def split: if_splits)
  then show ?case
    by (subst star_space_first) (auto simp: Cons.IH valueEnd_Cons plus_dot reSpace_def simp del: matches.simps split: option.split)
qed

text \<open>Before something that is no white space, only the whole run can match.\<close>

lemma space_longest:
  assumes "\<And>c r. reSpace c \<Longrightarrow> g (c # r) = []" and "g [] = []"
  shows "firstOf (concat (map g (starM (matches ci n Space) s))) = firstOf (g (dropWhile reSpace s))"
proof (induction s)
  case Nil
  show ?case by (subst star_space_first) simp
next
  case (Cons c s)
  then show ?case
    by (subst star_space_first) (auto simp: assms simp del: matches.simps split: option.split)
qed

lemma tail_tree: "firstOf (matches ci n tailTree s) = tailMatch s"
proof -
  let ?V = "\<lambda>s. concat (map (matches ci n (Plus Dot)) (starM (matches ci n Space) s))"
  let ?T = "\<lambda>s. case s of [] \<Rightarrow> [] | c # r \<Rightarrow> if isSep c then ?V r else []"
  have T: "matches ci n (Seq (Class [Single CHR '':'', Single CHR ''='']) (Seq (Star Space) (Plus Dot))) = ?T"
    by (rule ext) (simp add: runeIf_sep split: list.split del: matches.simps(4-6,11))
  let ?S = "Seq (Class [Single CHR '':'', Single CHR ''='']) (Seq (Star Space) (Plus Dot))"
  have "tailTree = Seq (Star Space) ?S" by (simp add: tailTree_def seqs_def)
  moreover have "matches ci n (Seq (Star Space) ?S) s = concat (map (matches ci n ?S) (starM (matches ci n Space) s))"
    by (rule trans [OF matches.simps(7)]) (simp only: matches.simps(10))
  ultimately have "matches ci n tailTree s = concat (map ?T (starM (matches ci n Space) s))"
    unfolding T by (rule trans [OF arg_cong [where f = "\<lambda>r. matches ci n r s"]])
  moreover have "firstOf (concat (map ?T (starM (matches ci n Space) s))) = firstOf (?T (dropWhile reSpace s))"
    by (rule space_longest) (auto simp: isSep_def reSpace_def)
  moreover have "firstOf (?T (dropWhile reSpace s)) = tailMatch s"
    by (cases "dropWhile reSpace s") (simp_all add: tailMatch_def value_tree del: matches.simps dropWhile_eq_Nil_conv)
  ultimately show ?thesis by simp
qed

lemma match_head: "matchHead redactionPattern n s = matchAt s"
proof -
  have "firstOf (concat (map (matches True n tailTree) (hits ks s))) = firstMatch ks s" for ks
    by (induction ks) (auto simp: hits_def firstOf_append tail_tree split: option.split)
  then show ?thesis
    by (simp add: matchHead_def redactionPattern_def labels_tree matchAt_def)
qed

section \<open>Redact is the replacement of the pattern\<close>

lemma litChar_cont:
  assumes "contByte d" "byte c < 0x80"
  shows "litChar c (d # r) = None"
  using assms char_byte [of d "CHR 0xC5"] char_byte [of d "CHR 0xE2"]
  by (auto simp: litChar_def lowerByte_def byteIn_def contByte_value)

lemma firstMatch_cont: "contByte d \<Longrightarrow> \<forall>k\<in>set ks. k \<noteq> [] \<and> byte (hd k) < 0x80 \<Longrightarrow> firstMatch ks (d # r) = None"
proof (induction ks)
  case (Cons k ks)
  then have "lit k (d # r) = None" by (cases k) (auto simp: litChar_cont)
  with Cons show ?case by simp
qed simp

lemma matchAt_cont: "contByte d \<Longrightarrow> matchAt (d # r) = None"
proof -
  have "list_all (\<lambda>k. k \<noteq> [] \<and> byte (hd k) < 0x80) secretLabels" by code_simp
  then show "contByte d \<Longrightarrow> matchAt (d # r) = None" by (simp add: matchAt_def firstMatch_cont list_all_iff)
qed

lemma redact_cont: "list_all contByte cs \<Longrightarrow> redact (cs @ r) = cs @ redact r"
  by (induction cs) (simp_all add: matchAt_cont)

lemma rune_tail: "list_all contByte (tl (take (runeWidth (c # s)) (c # s)))"
proof (cases "runeLen (c # s) = 0")
  case False
  then show ?thesis
    by (cases rule: runeLen_cases)
      (auto simp: runeWidth_def runeLen_intros contByte_value dest: secondOK_value)
qed (simp add: runeWidth_def)

lemma redact_rune:
  assumes "matchAt (c # s) = None"
  shows "redact (c # s) = take (runeWidth (c # s)) (c # s) @ redact (drop (runeWidth (c # s)) (c # s))"
proof -
  let ?w = "runeWidth (c # s)"
  let ?t = "tl (take ?w (c # s))"
  have h: "take ?w (c # s) = c # ?t" by (cases ?w) (simp_all add: runeWidth_def split: if_splits)
  then have s: "s = ?t @ drop ?w (c # s)" using append_take_drop_id [of ?w "c # s"] by (metis append_Cons list.inject)
  have "redact (c # s) = c # redact s" using assms by (rule redact_None)
  also have "redact s = ?t @ redact (drop ?w (c # s))" using redact_cont [OF rune_tail] s by metis
  finally show ?thesis using h by simp
qed

lemma replaceFrom_redact: "replaceFrom redactionPattern redactMatch n s = redact s"
proof (induction s rule: measure_induct_rule [where f = length])
  case (less s)
  show ?case
  proof (cases s)
    case (Cons c r)
    let ?d = "drop (runeWidth (c # r)) (c # r)"
    show ?thesis
    proof (cases "matchAt (c # r)")
      case None
      have "length ?d < length s" using Cons by (simp add: runeWidth_def)
      with less [of ?d] redact_rune [OF None] None Cons show ?thesis
        by (simp add: replaceFrom.simps(2) match_head del: redact.simps(2))
    next
      case (Some rest)
      with matchAt_length [OF Some] less [of rest] Cons show ?thesis
        by (simp add: replaceFrom.simps(2) match_head)
    qed
  qed simp
qed

section \<open>The class of untrusted arguments\<close>

definition untrustedClass :: "classItem list" where
  "untrustedClass = [Range CHR ''A'' CHR ''Z'', Range CHR ''a'' CHR ''z'', Range CHR ''0'' CHR ''9'', Single CHR ''.'',
        Single CHR ''_'', Escaped CHR ''-'', Single CHR ''/'', Single CHR ''+'', Single CHR '':'', Single CHR ''='',
        Single CHR '','', Single CHR ''@'']"

lemma untrusted_class: "classHas False untrustedClass (byte c) \<longleftrightarrow> untrustedChar c"
  using char_byte [of c "CHR ''.''"] char_byte [of c "CHR ''_''"] char_byte [of c "CHR ''-''"] char_byte [of c "CHR ''/''"]
    char_byte [of c "CHR ''+''"] char_byte [of c "CHR '':''"] char_byte [of c "CHR ''=''"] char_byte [of c "CHR '',''"]
    char_byte [of c "CHR ''@''"]
  by (auto simp: classHas_def untrustedClass_def untrustedChar_def byteIn_def)

lemma untrusted_step: "matches False n (Class untrustedClass) s =
    (case s of [] \<Rightarrow> [] | c # r \<Rightarrow> if untrustedChar c then [r] else [])"
proof -
  have "runeIf (classHas False untrustedClass) s =
      (case s of [] \<Rightarrow> [] | c # r \<Rightarrow> if classHas False untrustedClass (byte c) then [r] else [])"
    by (rule runeIf_ascii) (auto simp: classHas_def untrustedClass_def)
  then show ?thesis by (simp only: untrusted_class matches.simps)
qed

lemma untrusted_star: "[] \<in> set (starM (matches False n (Class untrustedClass)) s) \<longleftrightarrow> list_all untrustedChar s"
proof (induction s)
  case Nil
  show ?case by (simp add: starM.simps [of _ "[]"] untrusted_step del: matches.simps)
next
  case (Cons c s)
  show ?case
  proof (cases "untrustedChar c")
    case True
    then have "matches False n (Class untrustedClass) (c # s) = [s]" by (simp add: untrusted_step del: matches.simps)
    from starM_one [of "matches False n (Class untrustedClass)", OF this] True Cons show ?thesis by (simp del: matches.simps)
  next
    case False
    then have "matches False n (Class untrustedClass) (c # s) = []" by (simp add: untrusted_step del: matches.simps)
    from starM_none [of "matches False n (Class untrustedClass)", OF this] False show ?thesis by (simp del: matches.simps)
  qed
qed

lemma firstOf_None: "firstOf xs \<noteq> None \<longleftrightarrow> xs \<noteq> []"
  by (cases xs) simp_all

lemma untrusted_head: "matchHead untrustedTree n s \<noteq> None \<longleftrightarrow> length s = n \<and> untrustedArgRE s"
proof -
  have P: "[] \<in> set (matches False n (Plus (Class untrustedClass)) s) \<longleftrightarrow> untrustedArgRE s"
  proof (cases s)
    case (Cons c r)
    have "matches False n (Plus (Class untrustedClass)) s =
        (if untrustedChar c then starM (matches False n (Class untrustedClass)) r else [])"
      using untrusted_step [of n s] Cons by (simp del: matches.simps(6))
    with Cons show ?thesis by (auto simp: untrusted_star untrustedArgRE_def simp del: matches.simps)
  qed (simp add: untrustedArgRE_def runeIf_def)
  have "patBody untrustedTree = Seq TextBegin (Seq (Plus (Class untrustedClass)) TextEnd)" "foldCase untrustedTree = False"
    by (simp_all add: untrustedTree_def untrustedClass_def seqs_def)
  then have "matchHead untrustedTree n s \<noteq> None \<longleftrightarrow>
      length s = n \<and> (\<exists>r\<in>set (matches False n (Plus (Class untrustedClass)) s). r = [])"
    by (auto simp: matchHead_def firstOf_None [unfolded not_None_eq] simp del: matches.simps(6,11) split: if_splits)
  with P show ?thesis by auto
qed

lemma search_short: "length s < n \<Longrightarrow> \<not> searchFrom untrustedTree n s"
proof (induction s rule: measure_induct_rule [where f = length])
  case (less s)
  then have "matchHead untrustedTree n s = None" using untrusted_head [of n s] by auto
  with less show ?case by (subst searchFrom.simps) (auto simp: runeWidth_def)
qed

text \<open>\<open>UntrustedArgRE.MatchString\<close> accepts exactly the nonempty strings over the class.\<close>

lemma untrusted_regex: "matchString untrustedTree s = untrustedArgRE s"
  unfolding matchString_def using untrusted_head [of "length s" s]
  by (subst searchFrom.simps) (auto simp: untrustedArgRE_def search_short runeWidth_def)

text \<open>
  Property C33: the two regular expressions of the program. Their syntax trees print as the string constants of the
  source; replacing the leftmost-first matches of \<open>RedactionPattern\<close> under Go's matching rules, with case folding
  over all of Unicode and UTF-8 decoding of the text, is \<open>Redact\<close> on every byte string; and a search for
  \<open>UntrustedArgRE\<close> succeeds exactly on the arguments the validation accepts as untrusted text.
\<close>

theorem patterns_matched:
  "showPattern redactionPattern = redactionPatternText \<and> grammatical (patBody redactionPattern) 0
    \<and> replaceAllStringFunc redactionPattern s redactMatch = redact s
    \<and> showPattern untrustedTree = untrustedPattern \<and> grammatical (patBody untrustedTree) 0
    \<and> matchString untrustedTree s = untrustedArgRE s"
  by (simp add: replaceAllStringFunc_def replaceFrom_redact pattern_syntax untrusted_regex)

end
