(* ===== verification/Textfile.thy ===== *)
theory Textfile
  imports RenderProm
begin

text \<open>
  \<open>WriteTextfileAtomic\<close> (\<open>internal/render/prom.go\<close>): the textfile for the node exporter is written to a temporary
  file and renamed. The directory is a map from paths to contents; every system call may fail, and
  the model returns the state after each of them, so that a crash or a reader in between sees one of
  these states. The theorem is that none of them shows a half-written report.
\<close>

type_synonym files = "string \<rightharpoonup> string"

text \<open>What the system calls answer: \<open>tfWrite\<close> how many bytes reach the file, and the error\<close>

record textfileEnv =
  tfRand :: "goerr + string"
  tfOpen :: "goerr option"
  tfWrite :: "string \<Rightarrow> int \<times> goerr option"
  tfSync :: "goerr option"
  tfClose :: "goerr option"
  tfRename :: "goerr option"
  tfRemove :: "goerr option"

definition promExtension :: string where "promExtension = ''.prom''"

definition randSuffix :: "textfileEnv \<Rightarrow> goerr + string" where
  "randSuffix env = (case tfRand env of Inl e \<Rightarrow> Inl e | Inr b \<Rightarrow> Inr (hexEncode b))"

text \<open>\<open>os.OpenFile\<close> with \<open>O_CREATE|O_EXCL\<close>, \<open>os.Remove\<close> and \<open>os.Rename\<close>\<close>

definition openExcl :: "textfileEnv \<Rightarrow> string \<Rightarrow> files \<Rightarrow> goerr + files" where
  "openExcl env p fs =
     (case tfOpen env of
        Some e \<Rightarrow> Inl e
      | None \<Rightarrow> if fs p \<noteq> None then Inl (plainErr (''open '' @ p @ '': file exists'')) else Inr (fs(p \<mapsto> [])))"

definition removeFile :: "textfileEnv \<Rightarrow> string \<Rightarrow> files \<Rightarrow> files" where
  "removeFile env p fs = (if tfRemove env = None then fs(p := None) else fs)"

definition renameFile :: "string \<Rightarrow> string \<Rightarrow> files \<Rightarrow> files" where
  "renameFile p q fs = (fs(q := fs p))(p := None)"

text \<open>The temporary file as a writer\<close>

definition tempWriter :: "textfileEnv \<Rightarrow> string \<Rightarrow> files writeEnv" where
  "tempWriter env p =
     \<lparr>weWrite = (\<lambda>fs b. (tfWrite env b, fs(p \<mapsto> take (nat (fst (tfWrite env b))) b))),
      weFile = (\<lambda>fs. Some (Inr False)), weGetenv = (\<lambda>_. [])\<rparr>"

definition writeTextfileAtomic ::
    "textfileEnv \<Rightarrow> (result list \<Rightarrow> result list) \<Rightarrow> string \<Rightarrow> string \<Rightarrow> string \<Rightarrow> report \<Rightarrow> files
      \<Rightarrow> (int \<times> goerr option) \<times> files list" where
  "writeTextfileAtomic env srt goVersion dir baseName rep fs =
     (if dir = [] then ((0, Some (wrapErr [] (sentinelErr ErrAtomicRename) '': empty dir'')), [fs])
      else if baseName = [] then ((0, Some (wrapErr [] (sentinelErr ErrAtomicRename) '': empty baseName'')), [fs])
      else case randSuffix env of
        Inl e \<Rightarrow> ((0, Some (wrapErr2 [] (sentinelErr ErrRender) '': random suffix: '' e [])), [fs])
      | Inr sfx \<Rightarrow>
          let tmpPath = joinPath [dir, baseName @ ''.tmp.'' @ sfx];
              finalPath = joinPath [dir, baseName @ promExtension] in
          case openExcl env tmpPath fs of
            Inl e \<Rightarrow> ((0, Some (wrapErr2 [] (sentinelErr ErrRender) '': open temp: '' e [])), [fs])
          | Inr fs1 \<Rightarrow>
              (case renderPrometheus (tempWriter env tmpPath) srt goVersion fs1 rep of
                 ((n, Some e), fs2) \<Rightarrow> ((n, Some e), [fs, fs1, fs2, removeFile env tmpPath fs2])
               | ((n, None), fs2) \<Rightarrow>
                   (case tfSync env of
                      Some e \<Rightarrow> ((n, Some (wrapErr2 [] (sentinelErr ErrRender) '': fsync: '' e [])),
                                  [fs, fs1, fs2, removeFile env tmpPath fs2])
                    | None \<Rightarrow>
                        (case tfClose env of
                           Some e \<Rightarrow> ((n, Some (wrapErr2 [] (sentinelErr ErrRender) '': close: '' e [])),
                                       [fs, fs1, fs2, removeFile env tmpPath fs2])
                         | None \<Rightarrow>
                             (case tfRename env of
                                Some e \<Rightarrow> ((n, Some (wrapErr2 [] (sentinelErr ErrAtomicRename) '': '' e [])),
                                            [fs, fs1, fs2, removeFile env tmpPath fs2])
                              | None \<Rightarrow> ((n, None), [fs, fs1, fs2, renameFile tmpPath finalPath fs2]))))))"

section \<open>The temporary path is not the final one\<close>

lemma splitByte_last:
  "c \<notin> set e \<Longrightarrow> \<exists>pre y. splitByte c (x @ e) = pre @ [y @ e]"
proof (induction x)
  case Nil
  then show ?case by (intro exI [of _ "[]"]) (simp add: splitByte_absent)
next
  case (Cons a x)
  then obtain pre y where p: "splitByte c (x @ e) = pre @ [y @ e]" by blast
  show ?case
  proof (cases "a = c")
    case True
    with p show ?thesis by (intro exI [of _ "[] # pre"]) simp
  next
    case False
    show ?thesis
    proof (cases pre)
      case Nil
      with p False show ?thesis by (intro exI [of _ "[]"] exI [of _ "a # y"]) simp
    next
      case (Cons z zs)
      with p False show ?thesis by (intro exI [of _ "(a # z) # zs"] exI [of _ y]) simp
    qed
  qed
qed

lemma cleanComps_snoc:
  "c \<noteq> [] \<Longrightarrow> c \<noteq> ''.'' \<Longrightarrow> c \<noteq> ''..'' \<Longrightarrow> cleanComps rooted out (cs @ [c]) = cleanComps rooted out cs @ [c]"
  by (induction rooted out cs rule: cleanComps.induct) (auto split: list.split)

lemma joinPath_last:
  assumes "CHR ''/'' \<notin> set e" and "length e > 2" and "d \<noteq> []"
  shows "last (joinPath [d, b @ e]) = last e"
proof -
  let ?p = "d @ CHR ''/'' # b @ e"
  obtain pre y where s: "splitByte CHR ''/'' ((d @ ''/'' @ b) @ e) = pre @ [y @ e]"
    using splitByte_last [OF assms(1)] by blast
  have "y @ e \<noteq> []" "y @ e \<noteq> ''.''" "y @ e \<noteq> ''..''"
    using assms(2) by (auto simp: append_eq_Cons_conv)
  from cleanComps_snoc [OF this] s
  have c: "cleanComps r [] (splitByte CHR ''/'' ?p) = cleanComps r [] pre @ [y @ e]" for r by simp
  have "e \<noteq> []" using assms(2) by auto
  then have "last (cleanPath ?p) = last e" by (simp add: cleanPath_def Let_def c join_snoc)
  with assms(3) \<open>e \<noteq> []\<close> show ?thesis by (simp add: joinPath_def Let_def)
qed


lemma hexByte_chars: "c \<in> set (hexByte x) \<Longrightarrow> c \<noteq> CHR ''/'' \<and> c \<noteq> CHR ''m''"
proof -
  have h: "hexDigit d \<noteq> CHR ''/'' \<and> hexDigit d \<noteq> CHR ''m''" if "d < 16" for d :: nat
  proof -
    have "list_all (\<lambda>d. hexDigit d \<noteq> CHR ''/'' \<and> hexDigit d \<noteq> CHR ''m'') [0..<16]" by code_simp
    then show ?thesis using that by (simp add: list_all_iff)
  qed
  have "byte x < 256" by simp
  then have "byte x div 16 < 16" "byte x mod 16 < 16" by (simp_all add: div_less_iff_less_mult)
  then show "c \<in> set (hexByte x) \<Longrightarrow> ?thesis" using h by (auto simp: hexByte_def)
qed

lemma tmp_not_final:
  assumes "d \<noteq> []"
  shows "joinPath [d, b @ ''.tmp.'' @ concat (map hexByte xs)] \<noteq> joinPath [d, b @ promExtension]"
proof -
  define h where "h = concat (map hexByte xs)"
  have c: "c \<noteq> CHR ''/'' \<and> c \<noteq> CHR ''m''" if "c \<in> set h" for c
    using that hexByte_chars by (auto simp: h_def)
  then have "CHR ''/'' \<notin> set (''.tmp.'' @ h)" by auto
  from joinPath_last [OF this _ assms, of b] have t: "last (joinPath [d, b @ ''.tmp.'' @ h]) = last (''.tmp.'' @ h)"
    by simp
  have "last (''.tmp.'' @ h) \<noteq> CHR ''m''"
  proof (cases "h = []")
    case False
    with c [OF last_in_set [OF False]] show ?thesis by (simp add: last_append)
  qed simp
  moreover have "last (joinPath [d, b @ promExtension]) = CHR ''m''"
    using joinPath_last [of promExtension d b] assms by (simp add: promExtension_def)
  ultimately show ?thesis using t unfolding h_def by metis
qed

section \<open>No state shows a half-written report\<close>

lemma flush_temp:
  assumes "renderPrometheus (tempWriter env p) srt gv fs1 rep = ((n, e), fs2)"
  shows "(\<forall>q. q \<noteq> p \<longrightarrow> fs2 q = fs1 q)
    \<and> (e = None \<longrightarrow> fs2 p = Some (promText srt gv rep) \<and> n = int (length (promText srt gv rep)))"
proof -
  have "promText srt gv rep \<noteq> []" by (simp add: promText_def writeCheckStateMetric_def writeHelp_def)
  with assms show ?thesis
    by (cases "tfWrite env (promText srt gv rep)")
      (auto simp: renderPrometheus_def flushAll_def tempWriter_def split: option.splits if_splits)
qed

text \<open>
  How the states relate: nothing but the two paths ever changes; the final path holds its old content in every
  state, unless the call succeeds, and then its last state holds the whole report
\<close>

definition atomicOutcome ::
    "files \<Rightarrow> string \<Rightarrow> string \<Rightarrow> string \<Rightarrow> bool \<Rightarrow> (int \<times> goerr option) \<times> files list \<Rightarrow> bool" where
  "atomicOutcome fs tmp final text removes out =
     (list_all (\<lambda>st. st final = fs final \<or> st final = Some text) (snd out)
      \<and> (case snd (fst out) of
           None \<Rightarrow> fs tmp = None \<and> last (snd out) = fs(final \<mapsto> text) \<and> fst (fst out) = int (length text)
         | Some _ \<Rightarrow> list_all (\<lambda>st. st final = fs final) (snd out) \<and> (removes \<longrightarrow> last (snd out) = fs)))"

lemma textfile_outcome:
  assumes "d \<noteq> []" and "tfRand env = Inr xs"
  shows "atomicOutcome fs (joinPath [d, b @ ''.tmp.'' @ concat (map hexByte xs)]) (joinPath [d, b @ promExtension])
    (promText srt gv rep) (tfRemove env = None) (writeTextfileAtomic env srt gv d b rep fs)"
proof (cases "b = [] \<or> tfOpen env \<noteq> None \<or> fs (joinPath [d, b @ ''.tmp.'' @ concat (map hexByte xs)]) \<noteq> None")
  case True
  with assms show ?thesis
    by (auto simp: atomicOutcome_def writeTextfileAtomic_def randSuffix_def hexEncode_def openExcl_def Let_def split: option.splits)
next
  case False
  let ?tmp = "joinPath [d, b @ ''.tmp.'' @ concat (map hexByte xs)]"
  let ?final = "joinPath [d, b @ promExtension]"
  have ne: "?tmp \<noteq> ?final" using tmp_not_final [OF assms(1)] .
  have new: "fs ?tmp = None" using False by simp
  let ?fs1 = "fs(?tmp \<mapsto> [])"
  obtain n e fs2 where w: "renderPrometheus (tempWriter env ?tmp) srt gv ?fs1 rep = ((n, e), fs2)"
    by (metis prod.collapse)
  from flush_temp [OF w] have other: "\<And>q. q \<noteq> ?tmp \<Longrightarrow> fs2 q = fs q"
    and full: "e = None \<Longrightarrow> fs2 ?tmp = Some (promText srt gv rep) \<and> n = int (length (promText srt gv rep))"
    by auto
  have rm: "tfRemove env = None \<Longrightarrow> removeFile env ?tmp fs2 = fs"
    using other new by (auto simp: removeFile_def fun_eq_iff)
  have rmf: "removeFile env ?tmp fs2 ?final = fs ?final" using other ne by (auto simp: removeFile_def)
  have ren: "e = None \<Longrightarrow> renameFile ?tmp ?final fs2 = fs(?final \<mapsto> promText srt gv rep)"
    using other new ne full by (auto simp: renameFile_def fun_eq_iff)
  have o: "openExcl env ?tmp fs = Inr ?fs1" using False by (simp add: openExcl_def)
  have "atomicOutcome fs ?tmp ?final (promText srt gv rep) (tfRemove env = None)
      (writeTextfileAtomic env srt gv d b rep fs)"
    using assms False w o rm rmf ren other [of ?final] ne new full
    by (cases e; cases "tfSync env"; cases "tfClose env"; cases "tfRename env")
      (simp_all add: atomicOutcome_def writeTextfileAtomic_def randSuffix_def hexEncode_def Let_def)
  then show ?thesis .
qed

text \<open>
  Property C34: the textfile is replaced atomically. Whatever system call fails and at whichever of them the
  program is stopped, the final path holds either its old content or the complete new report, never a
  part of it. A call that reports an error has left the final path alone, and the temporary file is
  removed again if removing works; one without an error has changed nothing but the final path,
  and the count it returns is the size of the report.
\<close>

theorem textfile_atomic:
  assumes "dir \<noteq> []" and "tfRand env = Inr seed" and "tmp = joinPath [dir, base @ ''.tmp.'' @ concat (map hexByte seed)]"
    and "final = joinPath [dir, base @ ''.prom'']" and "writeTextfileAtomic env srt gv dir base rep fs = ((n, err), states)"
    and "text = promText srt gv rep"
  shows "(\<forall>st\<in>set states. st final = fs final \<or> st final = Some text)
    \<and> (err = None \<longrightarrow> fs tmp = None \<and> last states = fs(final \<mapsto> text) \<and> n = int (length text))
    \<and> (err \<noteq> None \<longrightarrow> (\<forall>st\<in>set states. st final = fs final) \<and> (tfRemove env = None \<longrightarrow> last states = fs))"
  using textfile_outcome [OF assms(1,2), of fs base srt gv rep] assms(3-6)
  by (auto simp: atomicOutcome_def promExtension_def list_all_iff split: option.splits)

definition demoTextfileEnv :: textfileEnv where
  "demoTextfileEnv = \<lparr>tfRand = Inr [CHR 0xAB], tfOpen = None, tfWrite = (\<lambda>b. (3, Some (plainErr ''no space left''))),
     tfSync = None, tfClose = None, tfRename = None, tfRemove = None\<rparr>"

definition demoTextReport :: report where
  "demoTextReport = \<lparr>repGenerated = 0,
     repHost = \<lparr>hHostname = [], hKernelRelease = [], hOSRelease = [], hOSVersion = [], hArch = []\<rparr>,
     repTool = \<lparr>tName = [], tVersion = [], tCommit = [], tBuildDate = []\<rparr>,
     repSchemaVersion = schemaVersionCurrent, repResults = [zeroResult], repSummary = newSummary [zeroResult]\<rparr>"

theorem textfile_atomic_witness:
  "last (snd (writeTextfileAtomic demoTextfileEnv id ''go1'' ''/t'' ''copyfail'' demoTextReport [''/t/copyfail.prom'' \<mapsto> ''old'']))
     = [''/t/copyfail.prom'' \<mapsto> ''old'']"
proof -
  let ?fs = "[''/t/copyfail.prom'' \<mapsto> ''old''] :: files"
  obtain n err states where w:
    "writeTextfileAtomic demoTextfileEnv id ''go1'' ''/t'' ''copyfail'' demoTextReport ?fs = ((n, err), states)"
    by (metis prod.collapse)
  have d: "''/t'' \<noteq> []" by simp
  have r: "tfRand demoTextfileEnv = Inr [CHR 0xAB]" by (simp add: demoTextfileEnv_def)
  have ne: "promText id ''go1'' demoTextReport \<noteq> []" by (simp add: promText_def writeCheckStateMetric_def writeHelp_def)
  have "snd (fst (renderPrometheus (tempWriter demoTextfileEnv q) id ''go1'' fs1 demoTextReport)) \<noteq> None" for q fs1
    using ne by (simp add: renderPrometheus_def flushAll_def tempWriter_def demoTextfileEnv_def)
  then have e: "\<exists>n e fs2. renderPrometheus (tempWriter demoTextfileEnv q) id ''go1'' fs1 demoTextReport = ((n, Some e), fs2)" for q fs1
    by (metis option.exhaust prod.collapse)
  have "hexByte CHR 0xAB = ''ab''" by code_simp
  then have "randSuffix demoTextfileEnv = Inr ''ab''" by (simp add: randSuffix_def hexEncode_def demoTextfileEnv_def)
  moreover have "openExcl demoTextfileEnv q fs0 = (if fs0 q \<noteq> None then Inl (plainErr (''open '' @ q @ '': file exists'')) else Inr (fs0(q \<mapsto> [])))" for q fs0
    by (simp add: openExcl_def demoTextfileEnv_def)
  ultimately have "err \<noteq> None"
    using w e [of "joinPath [''/t'', ''copyfail.tmp.ab'']" "?fs(joinPath [''/t'', ''copyfail.tmp.ab''] \<mapsto> [])"]
    by (auto simp: writeTextfileAtomic_def Let_def split: if_splits)
  moreover have "tfRemove demoTextfileEnv = None" by (simp add: demoTextfileEnv_def)
  ultimately have "last states = ?fs" using textfile_atomic [OF d r refl refl w refl] by blast
  then show ?thesis unfolding w by simp
qed

end
