(* ===== verification/ReportRead.thy ===== *)
theory ReportRead
  imports RenderJsonFacts TimeRead
begin

text \<open>
  A reader of JSON reports by the struct tags of package \<open>report\<close>, and the round trip: the report that was rendered is
  the report that is read.
\<close>

section \<open>The reader\<close>

definition readString :: "json \<Rightarrow> string option" where
  "readString j = (case j of JString s \<Rightarrow> Some s | _ \<Rightarrow> None)"

definition readDecimal :: "string \<Rightarrow> int option" where
  "readDecimal s =
     (case s of
        [] \<Rightarrow> None
      | c # r \<Rightarrow>
          if c = CHR ''-'' then (if r \<noteq> [] \<and> list_all isDigit r then Some (- decVal r) else None)
          else if list_all isDigit s then Some (decVal s) else None)"

definition readInt :: "json \<Rightarrow> int option" where
  "readInt j = (case j of JNumber s \<Rightarrow> readDecimal s | _ \<Rightarrow> None)"

definition readCount :: "json \<Rightarrow> nat option" where
  "readCount j = Option.bind (readInt j) (\<lambda>i. if 0 \<le> i then Some (nat i) else None)"

definition readTime :: "json \<Rightarrow> gotime option" where
  "readTime j = Option.bind (readString j) readRFC3339"

definition readMember :: "string \<Rightarrow> (json \<Rightarrow> 'a option) \<Rightarrow> json \<Rightarrow> 'a option" where
  "readMember k f v = Option.bind (jsonGet k v) f"

text \<open>A member that may have been left out as empty\<close>

definition readOptional :: "string \<Rightarrow> (json \<Rightarrow> 'a option) \<Rightarrow> 'a \<Rightarrow> json \<Rightarrow> 'a option" where
  "readOptional k f d v = (case jsonGet k v of None \<Rightarrow> Some d | Some j \<Rightarrow> f j)"

fun readEvidence :: "json \<Rightarrow> evidence option" where
  "readEvidence (JString s) = Some (EvStr s)"
| "readEvidence (JBool b) = Some (EvBool b)"
| "readEvidence (JNumber s) = map_option EvInt (readDecimal s)"
| "readEvidence (JObject ms) = map_option EvMap (those (map (\<lambda>(k, v). map_option (Pair k) (readEvidence v)) ms))"
| "readEvidence _ = None"

definition readEvidenceMap :: "json \<Rightarrow> (string \<times> evidence) list option" where
  "readEvidenceMap j = Option.bind (readEvidence j) (\<lambda>e. case e of EvMap ms \<Rightarrow> Some ms | _ \<Rightarrow> None)"

definition readResult :: "json \<Rightarrow> result option" where
  "readResult v =
     Option.bind (readMember ''started_at'' readTime v) (\<lambda>t.
     Option.bind (readOptional ''evidence'' readEvidenceMap [] v) (\<lambda>ev.
     Option.bind (readMember ''check_id'' readString v) (\<lambda>i.
     Option.bind (readMember ''title'' readString v) (\<lambda>title.
     Option.bind (readMember ''state'' readString v) (\<lambda>st.
     Option.bind (readMember ''severity'' readString v) (\<lambda>sev.
     Option.bind (readOptional ''detail'' readString [] v) (\<lambda>detail.
     Option.bind (readOptional ''error'' readString [] v) (\<lambda>err.
     map_option (\<lambda>ms. \<lparr>rStartedAt = t, rEvidence = ev, rCheckID = i, rTitle = title, rState = st, rSeverity = sev,
         rDetail = detail, rErr = err, rDurationMS = ms\<rparr>) (readMember ''duration_ms'' readInt v)))))))))"

definition readHost :: "json \<Rightarrow> hostInfo option" where
  "readHost v =
     Option.bind (readMember ''hostname'' readString v) (\<lambda>h.
     Option.bind (readMember ''kernel_release'' readString v) (\<lambda>k.
     Option.bind (readMember ''os_release'' readString v) (\<lambda>r.
     Option.bind (readMember ''os_version_id'' readString v) (\<lambda>ver.
     map_option (\<lambda>a. \<lparr>hHostname = h, hKernelRelease = k, hOSRelease = r, hOSVersion = ver, hArch = a\<rparr>)
       (readMember ''arch'' readString v)))))"

definition readTool :: "json \<Rightarrow> toolInfo option" where
  "readTool v =
     Option.bind (readMember ''name'' readString v) (\<lambda>n.
     Option.bind (readMember ''version'' readString v) (\<lambda>ver.
     Option.bind (readMember ''commit'' readString v) (\<lambda>c.
     map_option (\<lambda>d. \<lparr>tName = n, tVersion = ver, tCommit = c, tBuildDate = d\<rparr>) (readMember ''build_date'' readString v))))"

definition readBucket :: "json \<Rightarrow> bucket option" where
  "readBucket v =
     Option.bind (readMember ''pass'' readCount v) (\<lambda>p.
     Option.bind (readMember ''fail'' readCount v) (\<lambda>f.
     map_option (\<lambda>e. \<lparr>bPass = p, bFail = f, bError = e\<rparr>) (readMember ''error'' readCount v)))"

definition readSummary :: "json \<Rightarrow> summary option" where
  "readSummary v =
     Option.bind (readMember ''total'' readCount v) (\<lambda>t.
     Option.bind (readMember ''pass'' readCount v) (\<lambda>p.
     Option.bind (readMember ''fail'' readCount v) (\<lambda>f.
     Option.bind (readMember ''skip'' readCount v) (\<lambda>s.
     Option.bind (readMember ''error'' readCount v) (\<lambda>e.
     map_option (\<lambda>b. \<lparr>sTotal = t, sPass = p, sFail = f, sSkip = s, sError = e, sRequired = b\<rparr>)
       (readMember ''required'' readBucket v))))))"

definition readResults :: "json \<Rightarrow> result list option" where
  "readResults j = (case j of JArray vs \<Rightarrow> those (map readResult vs) | _ \<Rightarrow> None)"

definition readReport :: "json \<Rightarrow> report option" where
  "readReport v =
     Option.bind (readMember ''generated_at'' readTime v) (\<lambda>t.
     Option.bind (readMember ''host'' readHost v) (\<lambda>h.
     Option.bind (readMember ''tool'' readTool v) (\<lambda>tool.
     Option.bind (readMember ''schema_version'' readString v) (\<lambda>ver.
     Option.bind (readMember ''results'' readResults v) (\<lambda>rs.
     map_option (\<lambda>s. \<lparr>repGenerated = t, repHost = h, repTool = tool, repSchemaVersion = ver, repResults = rs,
         repSummary = s\<rparr>) (readMember ''summary'' readSummary v))))))"

section \<open>Reports whose texts survive\<close>

text \<open>
  \<open>encoding/json\<close> replaces invalid UTF-8, and a Go map has no order: a clean report has valid texts, and its evidence maps are
  listed by their keys.
\<close>

fun cleanEvidence :: "evidence \<Rightarrow> bool" where
  "cleanEvidence (EvStr s) = validUTF8 s"
| "cleanEvidence (EvMap ms) = (sorted (map fst ms) \<and> distinct (map fst ms) \<and> list_all (\<lambda>(k, v). validUTF8 k \<and> cleanEvidence v) ms)"
| "cleanEvidence _ = True"

definition cleanResult :: "result \<Rightarrow> bool" where
  "cleanResult r \<longleftrightarrow>
     list_all validUTF8 [rCheckID r, rTitle r, rState r, rSeverity r, rDetail r, rErr r] \<and> cleanEvidence (EvMap (rEvidence r))"

definition cleanReport :: "report \<Rightarrow> bool" where
  "cleanReport rep \<longleftrightarrow>
     list_all validUTF8 [hHostname (repHost rep), hKernelRelease (repHost rep), hOSRelease (repHost rep), hOSVersion (repHost rep),
       hArch (repHost rep), tName (repTool rep), tVersion (repTool rep), tCommit (repTool rep), tBuildDate (repTool rep),
       repSchemaVersion rep]
     \<and> list_all cleanResult (repResults rep)"

section \<open>The round trip\<close>

lemma readDecimal_itoa: "readDecimal (itoa i) = Some i"
proof (cases "i < 0")
  case True
  then show ?thesis using showNat_digits [of "nat (- i)"] by (simp add: itoa_def readDecimal_def decVal_showNat)
next
  case False
  then show ?thesis using showNat_digits [of "nat i"] showNat_hd(1) [of "nat i"] decVal_showNat [of "nat i"]
    by (cases "showNat (nat i)") (auto simp: itoa_def readDecimal_def simp flip: list.pred_inject(2))
qed

lemma readCount_nat: "readCount (natJson n) = Some n"
proof -
  have "itoa (int n) = showNat n" by (simp add: itoa_def)
  then show ?thesis using readDecimal_itoa [of "int n"] by (simp add: readCount_def readInt_def natJson_def)
qed

lemma those_map_Some: "(\<And>x. x \<in> set xs \<Longrightarrow> f x = Some (g x)) \<Longrightarrow> those (map f xs) = Some (map g xs)"
  by (induction xs) simp_all

lemma readEvidence_printed: "cleanEvidence e \<Longrightarrow> readEvidence (denoted (evidenceJson e)) = Some e"
proof (induction e)
  case (EvMap ms)
  let ?f = "\<lambda>(k, v). (toValidUTF8 k, denoted v)"
  have sorted: "sort_key fst (map (\<lambda>(k, e). (k, evidenceJson e)) ms) = map (\<lambda>(k, e). (k, evidenceJson e)) ms"
    using EvMap.prems by (intro sort_key_id_if_sorted) (simp add: comp_def case_prod_beta)
  have keys: "map fst (map ?f (map (\<lambda>(k, e). (k, evidenceJson e)) ms)) = map fst ms"
    using EvMap.prems by (auto simp: list_all_iff toValidUTF8_valid case_prod_beta)
  have "denoted (evidenceJson (EvMap ms)) = JObject (map ?f (map (\<lambda>(k, e). (k, evidenceJson e)) ms))"
  proof -
    have "distinct (map fst ([] @ map ?f (map (\<lambda>(k, e). (k, evidenceJson e)) ms)))"
      using EvMap.prems unfolding append_Nil keys by simp
    from mapOf_distinct [OF this] sorted show ?thesis by simp
  qed
  moreover have "those (map (\<lambda>(k, v). map_option (Pair k) (readEvidence v)) (map ?f (map (\<lambda>(k, e). (k, evidenceJson e)) ms)))
      = Some (map (\<lambda>x. x) ms)"
    unfolding map_map
  proof (rule those_map_Some)
    fix x assume x: "x \<in> set ms"
    obtain k v where kv: "x = (k, v)" by fastforce
    have "readEvidence (denoted (evidenceJson v)) = Some v" using EvMap.IH [OF x, of v] EvMap.prems x kv by (auto simp: list_all_iff)
    moreover have "toValidUTF8 k = k" using EvMap.prems x kv by (auto simp: list_all_iff toValidUTF8_valid)
    ultimately show "((\<lambda>(k, v). map_option (Pair k) (readEvidence v)) \<circ> (?f \<circ> (\<lambda>(k, e). (k, evidenceJson e)))) x = Some x"
      using kv by simp
  qed
  ultimately show ?case by simp
qed (simp_all add: readDecimal_itoa toValidUTF8_valid)

lemma ascii_append [simp]: "ascii (a @ b) \<longleftrightarrow> ascii a \<and> ascii b" "ascii (c # b) \<longleftrightarrow> byte c < 128 \<and> ascii b" "ascii []"
  by (auto simp: ascii_def)

lemma ascii_padInt: "ascii (padInt w i)"
proof -
  have "ascii (showNat n)" for n using showNat_digits [of n] by (auto simp: ascii_def list_all_iff isDigit_def)
  moreover have "ascii (replicate k (CHR ''0''))" for k by (induction k) simp_all
  ultimately show ?thesis by (simp add: padInt_def Let_def)
qed

lemma ascii_time: "ascii (formatRFC3339 nanos t)"
proof -
  have "ascii (fracSecond ns)" for ns
    using ascii_padInt [of 9 ns] by (auto simp: fracSecond_def trimRightSet_def ascii_def list_all_iff dest: set_dropWhileD)
  then show ?thesis by (simp add: formatRFC3339_def Let_def ascii_padInt split: prod.split)
qed

lemma readTime_printed: "timeEncodable t \<Longrightarrow> readTime (denoted (timeJson t)) = Some t"
  using toValid_ascii [OF ascii_time] by (simp add: readTime_def readString_def timeJson_def read_printed_time)

lemma readMember_Some: "jsonGet k v = Some j \<Longrightarrow> f j = Some x \<Longrightarrow> readMember k f v = Some x"
  by (simp add: readMember_def)

lemma readString_printed: "validUTF8 s \<Longrightarrow> readString (denoted (JString s)) = Some s"
  by (simp add: readString_def toValidUTF8_valid)

text \<open>The members of a printed object with constant keys\<close>

lemma readMember_string: "jsonGet k v = Some (JString (toValidUTF8 s)) \<Longrightarrow> validUTF8 s \<Longrightarrow> readMember k readString v = Some s"
  by (simp add: readMember_def readString_def toValidUTF8_valid)

lemma readOptional_string: "jsonGet k v = (if s = [] then None else Some (JString (toValidUTF8 s))) \<Longrightarrow> validUTF8 s \<Longrightarrow>
    readOptional k readString [] v = Some s"
  by (simp add: readOptional_def readString_def toValidUTF8_valid)

lemma readMember_count: "jsonGet k v = Some (natJson n) \<Longrightarrow> readMember k readCount v = Some n"
  by (simp add: readMember_def readCount_nat)

lemma readHost_printed:
  "list_all validUTF8 [hHostname h, hKernelRelease h, hOSRelease h, hOSVersion h, hArch h] \<Longrightarrow>
    readHost (denoted (hostJson h)) = Some h"
  by (simp add: readHost_def hostJson_def doc_simps readMember_def readString_def toValidUTF8_valid)

lemma readTool_printed:
  "list_all validUTF8 [tName t, tVersion t, tCommit t, tBuildDate t] \<Longrightarrow> readTool (denoted (toolJson t)) = Some t"
  by (simp add: readTool_def toolJson_def doc_simps readMember_def readString_def toValidUTF8_valid)

lemma denoted_nat: "denoted (natJson n) = natJson n"
  by (simp add: natJson_def)

lemma readBucket_printed: "readBucket (denoted (bucketJson b)) = Some b"
  by (simp add: readBucket_def bucketJson_def doc_simps readMember_def readCount_nat denoted_nat)

lemma readSummary_printed: "readSummary (denoted (summaryJson s)) = Some s"
  by (simp add: readSummary_def summaryJson_def doc_simps readMember_def readCount_nat denoted_nat readBucket_printed)

lemma readEvidence_member:
  "cleanEvidence (EvMap ms) \<Longrightarrow> readEvidenceMap (denoted (evidenceJson (EvMap ms))) = Some ms"
  using readEvidence_printed [of "EvMap ms"] by (simp add: readEvidenceMap_def)

lemma readResult_printed:
  assumes "timeEncodable (rStartedAt r)" "cleanResult r"
  shows "readResult (denoted (resultJson r)) = Some r"
proof -
  have c: "validUTF8 (rCheckID r)" "validUTF8 (rTitle r)" "validUTF8 (rState r)" "validUTF8 (rSeverity r)" "validUTF8 (rDetail r)"
    "validUTF8 (rErr r)" "cleanEvidence (EvMap (rEvidence r))"
    using assms(2) by (simp_all add: cleanResult_def)
  let ?v = "denoted (resultJson r)"
  have "jsonGet ''started_at'' ?v = Some (denoted (timeJson (rStartedAt r)))"
    "jsonGet ''evidence'' ?v = (if rEvidence r = [] then None else Some (denoted (evidenceJson (EvMap (rEvidence r)))))"
    by (cases "rEvidence r = []"; cases "rDetail r = []"; cases "rErr r = []";
        simp add: resultJson_def omitEmpty_def doc_simps timeJson_def del: evidenceJson.simps)+
  moreover have "readsResult ?v r" by (rule reads_result)
  moreover have "readInt (JNumber (itoa (rDurationMS r))) = Some (rDurationMS r)" by (simp add: readInt_def readDecimal_itoa)
  ultimately have "readMember ''started_at'' readTime ?v = Some (rStartedAt r)"
    "readOptional ''evidence'' readEvidenceMap [] ?v = Some (rEvidence r)"
    "readMember ''check_id'' readString ?v = Some (rCheckID r)" "readMember ''title'' readString ?v = Some (rTitle r)"
    "readMember ''state'' readString ?v = Some (rState r)" "readMember ''severity'' readString ?v = Some (rSeverity r)"
    "readOptional ''detail'' readString [] ?v = Some (rDetail r)" "readOptional ''error'' readString [] ?v = Some (rErr r)"
    "readMember ''duration_ms'' readInt ?v = Some (rDurationMS r)"
    using c readTime_printed [OF assms(1)] readEvidence_member [OF c(7)]
    by (simp_all add: readsResult_def readMember_string readOptional_string readMember_def [of _ readTime] readMember_def [of _ readInt]
        readOptional_def [of _ readEvidenceMap] del: evidenceJson.simps denoted.simps)
  then show ?thesis by (simp add: readResult_def del: denoted.simps)
qed

lemma readReport_printed:
  assumes "reportEncodable rep" "cleanReport rep"
  shows "readReport (denoted (reportJson rep)) = Some rep"
proof -
  have r: "timeEncodable (repGenerated rep)" "\<And>r. r \<in> set (repResults rep) \<Longrightarrow> timeEncodable (rStartedAt r) \<and> cleanResult r"
    "validUTF8 (repSchemaVersion rep)"
    using assms by (auto simp: reportEncodable_def cleanReport_def list_all_iff)
  have h: "readHost (denoted (hostJson (repHost rep))) = Some (repHost rep)"
    "readTool (denoted (toolJson (repTool rep))) = Some (repTool rep)"
    using assms(2) by (simp_all add: cleanReport_def readHost_printed readTool_printed)
  have rs: "readResults (JArray (map (denoted \<circ> resultJson) (repResults rep))) = Some (repResults rep)"
    using those_map_Some [of "repResults rep" "readResult \<circ> (denoted \<circ> resultJson)" "\<lambda>r. r"] r(2)
    by (simp add: readResults_def readResult_printed del: denoted.simps)
  let ?v = "denoted (reportJson rep)"
  have g: "jsonGet ''generated_at'' ?v = Some (denoted (timeJson (repGenerated rep)))" "jsonGet ''host'' ?v = Some (denoted (hostJson (repHost rep)))"
    "jsonGet ''tool'' ?v = Some (denoted (toolJson (repTool rep)))" "jsonGet ''schema_version'' ?v = Some (JString (toValidUTF8 (repSchemaVersion rep)))"
    "jsonGet ''results'' ?v = Some (JArray (map (denoted \<circ> resultJson) (repResults rep)))"
    "jsonGet ''summary'' ?v = Some (denoted (summaryJson (repSummary rep)))"
    by (simp_all add: reportJson_def doc_simps)
  show ?thesis
    by (simp add: readReport_def readMember_def g h rs readTime_printed [OF r(1)] readSummary_printed readString_def
        toValidUTF8_valid [OF r(3)] del: denoted.simps)
qed

text \<open>
  Property C39: the JSON report loses nothing. Reading the rendered text, in either layout, gives back the report: the host,
  the tool, the results with their times to the nanosecond, their evidence and their texts, and the summary. It holds for
  reports whose times are of the years 0 to 9999 and whose texts are valid UTF-8.
\<close>

theorem json_report_roundtrip:
  assumes "reportEncodable rep" "nest (reportJson rep) \<le> 10000" "cleanReport rep"
  shows "Option.bind (decode (snd (renderJSON (memWriter getenv) [] rep))) readReport = Some rep"
  using report_texts(2) [OF assms(1,2)] readReport_printed [OF assms(1,3)] by simp

theorem json_report_roundtrip_witness:
  "Option.bind (decode (snd (renderJSON (memWriter (\<lambda>_. [])) [] demoReport))) readReport = Some demoReport"
proof (rule json_report_roundtrip [OF demo_report])
  have "validUTF8 s" if "ascii s" for s using toValid_ascii [OF that] validUTF8_toValid [of s] by simp
  then show "cleanReport demoReport"
    by (simp add: cleanReport_def demoReport_def Let_def cleanResult_def zeroResult_def schemaVersionCurrent_def)
qed

end
