(* ===== verification/Spec2Isabelle.thy ===== *)
theory Spec2Isabelle
  imports Report Exec ConfProps ProcModules Modprobe RunnerLogFacts PresetFacts Program HostInfo
    RunnerLocks PromText IntegrityVerdict Procscan RedactRegex Example Textfile ReportRead
begin

text \<open>
  A model of \<open>copyfail-validate\<close>, a Go program that tells whether a Linux host has the mitigation of CVE-2026-31431: the
  kernel module \<open>algif_aead\<close> must be kept from loading by a file in \<open>/etc/modprobe.d\<close> and must not be loaded. The
  theories read like the Go files they model; strings are byte sequences, errors are values with the sentinels they wrap,
  and whatever lies outside the program is a parameter.

  The program. \<open>main\<close> parses the flags and the environment into options (\<open>cmd/copyfail-validate/flags.go\<close>). \<open>run\<close>
  (\<open>main.go\<close>) gathers the host description (\<open>internal/hostinfo\<close>), builds the five checks of \<open>preset/copyfail\<close>, filters
  them, and gives them to the concurrent runner of package \<open>check\<close>. The checks read files through the parsers of
  \<open>internal/kernelmod\<close> and start \<open>modprobe\<close> through \<open>internal/exec\<close>, which validates arguments, resolves the command
  against an allowlist and caps the captured output. The runner's report (package \<open>report\<close>) is stamped and written by the
  renderer registered for the chosen format (\<open>internal/render\<close>: human, JSON, SARIF, Prometheus), and its summary
  determines the exit code (\<open>exit.go\<close>). Used by the library's clients and by later presets: the package manager backends
  (\<open>internal/integrity\<close>), the scan of \<open>/proc\<close> (\<open>internal/procscan\<close>), redaction (\<open>internal/redact\<close>), canonical JSON digests
  (\<open>internal/canonjson\<close>), the atomic textfile, logging and build identity.

  Where it is modelled.

  The language and its library: \<open>Prelude\<close> (collections of rewrite rules, generic lemmas); \<open>GoStrings\<close>, \<open>GoStringFacts\<close>
  (\<open>strings\<close>, \<open>strconv\<close>, \<open>path/filepath\<close>, \<open>bufio.Scanner\<close>); \<open>GoNumbers\<close> (\<open>ParseInt\<close> base 0, \<open>ParseBool\<close>,
  \<open>ParseDuration\<close>); \<open>GoFloat\<close>, \<open>GoFloatFacts\<close> (\<open>float64\<close>: rounding to nearest even, division, the shortest decimal \<open>%g\<close>
  prints, and that it is read back); \<open>GoErrors\<close> (error values and all sentinels of the program, one table per package); \<open>GoOS\<close> (the file system a host has);
  \<open>GoTime\<close>, \<open>TimeRead\<close> (RFC 3339 text of an instant, and reading it back); \<open>Utf8\<close> (runes); \<open>Regex\<close> (syntax trees of
  \<open>regexp\<close> patterns, their text, and the leftmost-first matches on bytes); \<open>Json\<close>, \<open>JsonFacts\<close>, \<open>JsonLayout\<close>, \<open>JsonDecode\<close>
  (\<open>json.Marshal\<close>, \<open>json.Indent\<close>, \<open>Decoder.Decode\<close> as a scanner with a stack, and that they agree).

  The components: \<open>Exec\<close> (\<open>internal/exec\<close>: \<open>validate\<close>, \<open>resolveCommand\<close>, \<open>cbWrite\<close>, \<open>osRun\<close>, \<open>testRun\<close>, \<open>fakeRun\<close>);
  \<open>Report\<close> (package \<open>report\<close>: results, summary, registry with an explicit store for its maps); \<open>ModprobeConf\<close>,
  \<open>ModprobeConfFacts\<close>, \<open>ConfProps\<close> (\<open>kernelmod/conf.go\<close>); \<open>ProcModules\<close> and \<open>Modprobe\<close> (\<open>procmodules.go\<close>,
  \<open>modprobe.go\<close>); \<open>CheckRunner\<close>, \<open>CheckRunnerFacts\<close>, \<open>CheckRunnerProgress\<close> (package \<open>check\<close>: one check's execution
  as a function, the goroutines of \<open>Runner.Run\<close> as the step relation \<open>runStep\<close> over the shared state, the semaphore and
  the phases of the main goroutine, the dispatcher and the workers), \<open>RunnerLocks\<close> (the same system with the mutex: each read and
  write between \<open>mu.Lock\<close> and \<open>mu.Unlock\<close> is a step of \<open>lockStep\<close>), \<open>RunnerLog\<close>, \<open>RunnerLogFacts\<close> (the same system with
  the records the runner logs, \<open>logStep\<close>); \<open>Preset\<close>, \<open>PresetFacts\<close> (\<open>preset/copyfail\<close>);
  \<open>Cli\<close> (\<open>exit.go\<close>, \<open>main.go\<close>); \<open>Flags\<close>, \<open>FlagsFacts\<close> (\<open>flags.go\<close>), \<open>Usage\<close> (the help and version texts), \<open>MainProps\<close> (exit
  codes of \<open>main\<close>), \<open>Program\<close> (\<open>main\<close> with every part it is built from, and standard error); \<open>HostInfo\<close>; \<open>Integrity\<close>, \<open>IntegrityFacts\<close>,
  \<open>IntegrityVerdict\<close>; \<open>Procscan\<close>; \<open>Redact\<close>, \<open>RedactRegex\<close> (the two regular
  expressions), \<open>Example\<close> (\<open>examples/redact-evidence\<close>); \<open>RenderHuman\<close>, \<open>RenderProm\<close>, \<open>RenderFacts\<close>, \<open>PromRead\<close>, \<open>PromText\<close> (a reader of
  the exposition format), \<open>Textfile\<close>; \<open>RenderJson\<close>
  (\<open>json.go\<close>, \<open>sarif.go\<close>), \<open>RenderInit\<close> (\<open>init.go\<close>), \<open>RenderJsonFacts\<close>, \<open>ReportRead\<close>, \<open>RenderSarifFacts\<close>; \<open>Canonjson\<close>; \<open>Logging\<close>
  (with \<open>internal/buildinfo\<close>); \<open>Delivery\<close> (renderers, registry and command line together).

  Interfaces are locales: \<open>validating_runner\<close> and \<open>recording_runner\<close> (what any \<open>exec.Runner\<close> promises, interpreted on
  the three runners of the program), \<open>conforming_check\<close> (the contract of \<open>Check\<close>, interpreted on the five checks),
  \<open>package_manager\<close> (the contract of \<open>PkgMgr\<close>, interpreted on rpm and dpkg), \<open>document_renderer\<close> (the contract of a
  renderer, interpreted on the four).

  What the theorems show. End to end: exit code 0 of an unfiltered run, and of the program without arguments, certifies the five conditions of the mitigation,
  a mitigated host gives 0, and the verdict that is written in any of the four formats, on a terminal in colours too, agrees
  with the code; no failure of the program is silent (\<open>Program\<close>). The runner: one result per check in
  order, bounded concurrency, no deadlock, termination, progress under cancellation, a report that leaked workers
  cannot change, critical sections that are as good as atomic, and a log that agrees with it. The parsers: they invert the text formats they read, stop at the first malformed line, and number lines
  correctly. The process boundary: nothing is started unless its command is on the allowlist and its untrusted arguments
  are safe. The renderers: the whole Prometheus text and the whole JSON report, in either layout, can be read back, the SARIF
  document says what the report says, one contract for success and errors, and a textfile that is never half written. Redaction: the output does not depend on
  the value of a labelled secret, and the matcher of the model is the leftmost-first semantics of the pattern whose text is
  the constant of the source. Canonical JSON: equal canonical forms exactly for equal values.

  Bounds. A run of the runner on \<open>n\<close> checks takes at most \<open>5 n + 6\<close> steps, by a budget that every step lowers. A scanned
  line holds fewer than 65536 bytes; a longer one ends the scan with \<open>bufio.ErrTooLong\<close>, as in the code. Captured output is
  cut at the code's \<open>maxOutput\<close>. The Prometheus text of a duration goes through \<open>float64\<close> as in the code, for every number of
  milliseconds; below \<open>10^15\<close> of them, which is a hundred times what a \<open>time.Duration\<close> holds, nothing is lost and the text is
  read back exactly. The search for the shortest decimal tries 20 places before the point to 80 after it, enough for any
  \<open>int64\<close> divided by 1000. JSON nests at most 10000 deep, the limit of Go's scanner; reports are far below it.
  Loops are structural or have termination proofs; no fuel is used. Durations and sizes are mathematical integers with the
  code's range checks written out where a value is parsed.

  Parameters. The operating system (stat, directory listings, file contents, PATH lookup, what a started process
  prints and how it ends), what each check sees of its environment (an arbitrary set of environments, from which
  \<open>Applicable\<close> sees one and the whole call of \<open>Run\<close> one; so the files a single \<open>Run\<close> reads are read at one moment, while
  different checks may see different ones), the clock, the host description in \<open>Cli\<close> (\<open>Program\<close> gathers it), the writer a report goes to, \<open>sort.Slice\<close> (any sort the documentation
  allows), the Go version string, random bytes, the hash function, the text of the JSON decoder's errors, and the
  floating-point term of a fractional duration in a flag.

  Not modelled: the text \<open>log/slog\<close> prints of a record (the records themselves are), panics of a check's \<open>ID\<close>,
  \<open>Title\<close> and \<open>Severity\<close>, which are constants in every check of the program, the escapes \<open>%q\<close> has for runes above ASCII
  that are not printable (messages keep them as they are), the trace \<open>runtime.Stack\<close> has of a panic (a parameter, cut at the runner's buffer), closing the
  output file, and the doc files, which hold no code. The per-check timeout acts only through what a check sees of its context. A report whose \<open>Results\<close> slice is
  nil is not distinguished from an empty one, since \<open>Runner.Run\<close> always makes the slice.
\<close>

end
